(* ===== verification/Prelude.thy ===== *)
theory Prelude
  imports Main "HOL-Library.Word" "HOL-Library.Sublist"
begin

section \<open>Prelude: shared types, C library helpers and loop combinators\<close>

text \<open>
  Shared by every component: names for the machine integers of the C code, the parts of the
  C library the sources use on strings (\<open>strchr\<close>, \<open>strncmp\<close> with a constant, \<open>%d\<close> printing
  and scanning), the counted loop \<open>for (x = 0; x < n; x++)\<close> over an array, the contract of a
  growable array, and the lemma collections the component proofs use.
\<close>

named_theorems sup_simps \<open>unfolding rules of the model's operations\<close>
named_theorems inv_intros \<open>preservation rules of the component invariants\<close>

type_synonym u8 = "8 word"
type_synonym u32 = "32 word"
type_synonym u64 = "64 word"

text \<open>
  The result of a C function that may perform an access outside its objects or overflow a signed
  integer: \<open>Undefined\<close> for such a run, \<open>Ret v\<close> for a run that returns \<open>v\<close>.
\<close>

datatype 'a c_ret = Undefined | Ret 'a

definition INT_MAX :: int where
  "INT_MAX = 2 ^ 31 - 1"

subsection \<open>Decimal printing and scanning\<close>

text \<open>\<open>printf("%d")\<close>: an optional minus sign and the decimal digits.\<close>

definition digit_char :: "nat \<Rightarrow> char" where
  "digit_char d = char_of (48 + d)"

definition char_digit :: "char \<Rightarrow> nat" where
  "char_digit c = of_char c - 48"

definition is_digit :: "char \<Rightarrow> bool" where
  "is_digit c \<longleftrightarrow> 48 \<le> (of_char c :: nat) \<and> (of_char c :: nat) \<le> 57"

fun print_nat :: "nat \<Rightarrow> string" where
  "print_nat n = (if n < 10 then [digit_char n] else print_nat (n div 10) @ [digit_char (n mod 10)])"

declare print_nat.simps [simp del]

definition print_int :: "int \<Rightarrow> string" where
  "print_int z = (if z < 0 then CHR ''-'' # print_nat (nat (- z)) else print_nat (nat z))"

text \<open>The white space of the C locale, as \<open>isspace\<close> has it.\<close>

definition is_space :: "char \<Rightarrow> bool" where
  "is_space c \<longleftrightarrow> (of_char c :: nat) \<in> {9, 10, 11, 12, 13, 32}"

definition scan_digits :: "string \<Rightarrow> nat" where
  "scan_digits ds = foldl (\<lambda>n c. 10 * n + char_digit c) 0 ds"

text \<open>
  \<open>sscanf(s, "%d", &number)\<close>: skip white space, an optional sign, the longest run of digits.
  The value goes through \<open>strtol\<close> (clamped to 64 bits) and is stored into a 32-bit \<open>int\<close>.
\<close>

definition clamp64 :: "int \<Rightarrow> int" where
  "clamp64 z = max (- (2 ^ 63)) (min (2 ^ 63 - 1) z)"

definition to_int32 :: "int \<Rightarrow> int" where
  "to_int32 z = (z + 2 ^ 31) mod 2 ^ 32 - 2 ^ 31"

definition sscanf_d :: "string \<Rightarrow> int option" where
  "sscanf_d s =
     (let t = dropWhile is_space s;
          (neg, u) = (case t of [] \<Rightarrow> (False, [])
                      | c # cs \<Rightarrow> if c = CHR ''-'' then (True, cs)
                                else if c = CHR ''+'' then (False, cs) else (False, t));
          ds = takeWhile is_digit u
      in if ds = [] then None
         else Some (to_int32 (clamp64 (if neg then - int (scan_digits ds) else int (scan_digits ds)))))"

text \<open>\<open>atoi\<close>: as \<open>sscanf_d\<close>, with 0 where no number is found.\<close>

definition atoi :: "string \<Rightarrow> int" where
  "atoi s = (case sscanf_d s of None \<Rightarrow> 0 | Some z \<Rightarrow> z)"

lemma of_char_digit_char [simp]: "d < 10 \<Longrightarrow> (of_char (digit_char d) :: nat) = 48 + d"
  by (simp add: digit_char_def)

lemma is_digit_digit_char [simp]: "d < 10 \<Longrightarrow> is_digit (digit_char d)"
  by (simp add: is_digit_def)

lemma char_digit_digit_char [simp]: "d < 10 \<Longrightarrow> char_digit (digit_char d) = d"
  by (simp add: char_digit_def)

lemma scan_digits_snoc: "scan_digits (ds @ [c]) = 10 * scan_digits ds + char_digit c"
  by (simp add: scan_digits_def)

lemma print_nat_digits: "list_all is_digit (print_nat n)"
proof (induction n rule: print_nat.induct)
  case (1 n)
  show ?case
    using 1 by (subst print_nat.simps) simp
qed

lemma print_nat_nonempty [simp]: "print_nat n \<noteq> []"
  by (subst print_nat.simps) simp

lemma scan_print_nat [simp]: "scan_digits (print_nat n) = n"
proof (induction n rule: print_nat.induct)
  case (1 n)
  show ?case
  proof (cases "n < 10")
    case True
    then show ?thesis
      by (subst print_nat.simps) (simp add: scan_digits_def)
  next
    case False
    with 1 show ?thesis
      by (subst print_nat.simps) (simp add: scan_digits_snoc)
  qed
qed

lemma length_print_nat_le: "length (print_nat n) \<le> k \<longleftrightarrow> n < 10 ^ k" if "0 < k"
  using that
proof (induction n arbitrary: k rule: print_nat.induct)
  case (1 n)
  show ?case
  proof (cases "n < 10")
    case True
    have "n < 10 ^ k" using True 1(2) by (metis One_nat_def Suc_leI less_le_trans numeral_One
        one_le_numeral power_increasing power_one_right)
    with True 1(2) show ?thesis by (subst print_nat.simps) simp
  next
    case False
    show ?thesis
    proof (cases "k = 1")
      case True
      with False show ?thesis by (subst print_nat.simps) (simp add: not_le)
    next
      case k: False
      with 1(2) obtain j where j: "k = Suc j" "0 < j" by (cases k) auto
      have "length (print_nat n) = Suc (length (print_nat (n div 10)))"
        using False by (subst print_nat.simps) simp
      with j 1(1)[OF False j(2)] show ?thesis
        by (simp add: div_less_iff_less_mult mult.commute)
    qed
  qed
qed

lemma digit_not_space: "is_digit c \<Longrightarrow> \<not> is_space c"
  by (auto simp: is_digit_def is_space_def)

lemma digit_not_sign: "is_digit c \<Longrightarrow> c \<noteq> CHR ''-'' \<and> c \<noteq> CHR ''+''"
  by (auto simp: is_digit_def)

lemma to_int32_id: "- (2 ^ 31) \<le> z \<Longrightarrow> z < 2 ^ 31 \<Longrightarrow> to_int32 z = z"
  by (simp add: to_int32_def)

lemma to_int32_range: "- (2 ^ 31) \<le> to_int32 z \<and> to_int32 z < 2 ^ 31"
  by (simp add: to_int32_def)

lemma takeWhile_all_digits: "list_all is_digit ds \<Longrightarrow> takeWhile is_digit ds = ds"
  by (simp add: list_all_iff takeWhile_eq_all_conv)

lemma dropWhile_digits: "list_all is_digit ds \<Longrightarrow> dropWhile is_space ds = ds"
  by (cases ds) (auto simp: digit_not_space)

text \<open>Printing a 32-bit \<open>int\<close> and scanning it back gives the number.\<close>

lemma sscanf_d_print_int:
  assumes "- (2 ^ 31) \<le> z" "z < 2 ^ 31"
  shows "sscanf_d (print_int z) = Some z"
proof -
  obtain c cs where p: "print_nat (nat \<bar>z\<bar>) = c # cs"
    using print_nat_nonempty by (cases "print_nat (nat \<bar>z\<bar>)") auto
  have d: "list_all is_digit (c # cs)"
    using print_nat_digits[of "nat \<bar>z\<bar>"] p by simp
  have "clamp64 z = z"
    using assms by (simp add: clamp64_def)
  moreover have "is_space CHR ''-'' = False" by (simp add: is_space_def)
  ultimately show ?thesis
    using assms p d digit_not_sign[of c] dropWhile_digits[OF d] scan_print_nat[of "nat \<bar>z\<bar>"]
    by (cases "z < 0") (simp_all add: sscanf_d_def print_int_def to_int32_id Let_def takeWhile_all_digits)
qed

lemma atoi_print_int:
  assumes "- (2 ^ 31) \<le> z" "z < 2 ^ 31"
  shows "atoi (print_int z) = z"
  using sscanf_d_print_int[OF assms] by (simp add: atoi_def)

subsection \<open>Strings\<close>

text \<open>
  A C string is the list of its characters before the terminating zero; a \<open>char *\<close> that may be
  \<open>NULL\<close> is a \<open>string option\<close>. \<open>strncmp (s, t, strlen (t)) == 0\<close> for a constant \<open>t\<close> holds when
  \<open>t\<close> is a prefix of \<open>s\<close>.
\<close>

definition strncmp_eq :: "string \<Rightarrow> string \<Rightarrow> bool" where
  "strncmp_eq s t \<longleftrightarrow> take (length t) s = t"

text \<open>\<open>strchr\<close> as the split around the first occurrence; \<open>None\<close> for a \<open>NULL\<close> result.\<close>

fun split_at_char :: "char \<Rightarrow> string \<Rightarrow> (string \<times> string) option" where
  "split_at_char d [] = None"
| "split_at_char d (c # cs) =
     (if c = d then Some ([], cs)
      else map_option (\<lambda>(a, b). (c # a, b)) (split_at_char d cs))"

lemma split_at_char_None: "split_at_char d s = None \<longleftrightarrow> d \<notin> set s"
  by (induction s) auto

lemma split_at_char_Some: "split_at_char d s = Some (a, b) \<longleftrightarrow> s = a @ d # b \<and> d \<notin> set a"
proof (induction s arbitrary: a)
  case Nil
  then show ?case by simp
next
  case (Cons c s)
  then show ?case by (cases a) auto
qed

subsection \<open>The counted loop over an array\<close>

text \<open>
  \<open>for (x = i; x < i + n; x++) { body (x); }\<close> where iteration \<open>x\<close> reads and writes element \<open>x\<close> of
  the array and may emit events (system calls). The loop runs over the first \<open>n\<close> elements of the
  list; the index is passed to the body.
\<close>

fun for_upto :: "(nat \<Rightarrow> 'm \<Rightarrow> 'm \<times> 'e list) \<Rightarrow> nat \<Rightarrow> nat \<Rightarrow> 'm list \<Rightarrow> 'm list \<times> 'e list" where
  "for_upto f i 0 ms = (ms, [])"
| "for_upto f i (Suc n) [] = ([], [])"
| "for_upto f i (Suc n) (m # ms) =
     (let (m', es) = f i m; (ms', es') = for_upto f (Suc i) n ms in (m' # ms', es @ es'))"

lemma length_for_upto [simp]: "length (fst (for_upto f i n ms)) = length ms"
  by (induction f i n ms rule: for_upto.induct) (auto simp: Let_def split: prod.splits)

lemma for_upto_nth:
  "x < length ms \<Longrightarrow>
     fst (for_upto f i n ms) ! x = (if x < n then fst (f (i + x) (ms ! x)) else ms ! x)"
proof (induction f i n ms arbitrary: x rule: for_upto.induct)
  case (3 f i n m ms)
  then show ?case
    by (cases x) (auto simp: Let_def split: prod.splits)
qed auto

lemma for_upto_events:
  "e \<in> set (snd (for_upto f i n ms)) \<longleftrightarrow>
     (\<exists>x < min n (length ms). e \<in> set (snd (f (i + x) (ms ! x))))"
proof (induction f i n ms rule: for_upto.induct)
  case (3 f i n m ms)
  obtain m' es where fm: "f i m = (m', es)" by fastforce
  obtain ms' es' where rec: "for_upto f (Suc i) n ms = (ms', es')" by fastforce
  have "(\<exists>x < min (Suc n) (length (m # ms)). e \<in> set (snd (f (i + x) ((m # ms) ! x)))) \<longleftrightarrow>
      e \<in> set (snd (f i m)) \<or> (\<exists>x < min n (length ms). e \<in> set (snd (f (Suc i + x) (ms ! x))))"
    by (auto simp: less_Suc_eq_0_disj Bex_def)
  with 3 fm rec show ?case by (simp add: Let_def)
qed auto

text \<open>
  The contract the loop bodies of the service thread share: an invariant of one element that the
  body keeps whatever the element's index.
\<close>

locale element_sweep =
  fixes body :: "nat \<Rightarrow> 'm \<Rightarrow> 'm \<times> 'e list"
    and inv :: "'m \<Rightarrow> bool"
  assumes body_inv: "inv m \<Longrightarrow> inv (fst (body x m))"
begin

lemma sweep_inv:
  "\<forall>m \<in> set ms. inv m \<Longrightarrow> \<forall>m \<in> set (fst (for_upto body i n ms)). inv m"
proof -
  assume all: "\<forall>m \<in> set ms. inv m"
  have "inv (fst (for_upto body i n ms) ! x)" if "x < length ms" for x
    using that all body_inv by (auto simp: for_upto_nth)
  then show ?thesis by (simp add: all_set_conv_all_nth)
qed

end

subsection \<open>Growable arrays\<close>

text \<open>
  Every array the program grows (the loaded modules, a module's interfaces, the parsed parameters)
  follows one contract: before a write at the current count, an \<open>ensure\<close> step makes the allocated
  size exceed the count and keeps the elements already stored.
\<close>

locale growable =
  fixes cnt :: "'s \<Rightarrow> nat"
    and cells :: "'s \<Rightarrow> 'c list"
    and ensure :: "'s \<Rightarrow> 's"
    and ok :: "'s \<Rightarrow> bool"
  assumes ok_cnt: "ok s \<Longrightarrow> cnt s \<le> length (cells s)"
    and ensure_ok: "ok s \<Longrightarrow> ok (ensure s)"
    and ensure_cnt: "ok s \<Longrightarrow> cnt (ensure s) = cnt s"
    and ensure_room: "ok s \<Longrightarrow> cnt s < length (cells (ensure s))"
    and ensure_keeps: "ok s \<Longrightarrow> take (cnt s) (cells (ensure s)) = take (cnt s) (cells s)"
begin

lemma ensure_nth: "ok s \<Longrightarrow> x < cnt s \<Longrightarrow> cells (ensure s) ! x = cells s ! x"
  by (metis ensure_keeps nth_take)

lemma write_in_bounds: "ok s \<Longrightarrow> cnt (ensure s) < length (cells (ensure s))"
  by (simp add: ensure_cnt ensure_room)

end

end
