(* ===== verification/Data_Model.thy ===== *)
theory Data_Model
  imports Prelude
begin

section \<open>The supervisor's data: interfaces, modules, profiles, global state\<close>

text \<open>
  The structures of \<^verbatim>\<open>supervisor.h\<close> as records, the global variables of \<^verbatim>\<open>supervisor.c\<close> as one
  record, and the system calls the program makes as a datatype of events. Flags that the C code
  only sets to \<open>TRUE\<close> or \<open>FALSE\<close> are \<open>bool\<close>; a nullable \<open>char *\<close> is a \<open>string option\<close>;
  \<open>uint64_t\<close> counters are 64-bit words; \<open>pid_t\<close> and socket descriptors are \<open>int\<close>.
  The singly linked list of profiles is the list \<open>profiles\<close>, and a module's pointer
  \<open>modules_profile\<close> into it is a position of that list (\<open>None\<close> for \<open>NULL\<close>).
\<close>

subsection \<open>Constants\<close>

definition RUNNING_MODULES_ARRAY_START_SIZE :: nat where
  "RUNNING_MODULES_ARRAY_START_SIZE = 10"

definition IFCES_ARRAY_START_SIZE :: nat where
  "IFCES_ARRAY_START_SIZE = 5"

definition IN_MODULE_IFC_DIRECTION :: int where
  "IN_MODULE_IFC_DIRECTION = 1"

definition OUT_MODULE_IFC_DIRECTION :: int where
  "OUT_MODULE_IFC_DIRECTION = 2"

definition SERVICE_MODULE_IFC_DIRECTION :: int where
  "SERVICE_MODULE_IFC_DIRECTION = 3"

definition TCP_MODULE_IFC_TYPE :: int where
  "TCP_MODULE_IFC_TYPE = 1"

definition UNIXSOCKET_MODULE_IFC_TYPE :: int where
  "UNIXSOCKET_MODULE_IFC_TYPE = 2"

definition SERVICE_MODULE_IFC_TYPE :: int where
  "SERVICE_MODULE_IFC_TYPE = 3"

definition FILE_MODULE_IFC_TYPE :: int where
  "FILE_MODULE_IFC_TYPE = 4"

definition BLACKHOLE_MODULE_IFC_TYPE :: int where
  "BLACKHOLE_MODULE_IFC_TYPE = 5"

definition TLS_MODULE_IFC_TYPE :: int where
  "TLS_MODULE_IFC_TYPE = 6"

definition INVALID_MODULE_IFC_ATTR :: int where
  "INVALID_MODULE_IFC_ATTR = -1"

definition DEFAULT_MODULE_RESTARTS_NUM :: int where
  "DEFAULT_MODULE_RESTARTS_NUM = 3"

definition MAX_MODULE_RESTARTS_NUM :: int where
  "MAX_MODULE_RESTARTS_NUM = 30"

definition NUM_SERVICE_IFC_PERIODS :: int where
  "NUM_SERVICE_IFC_PERIODS = 30"

definition DEFAULT_SIZE_OF_BUFFER :: nat where
  "DEFAULT_SIZE_OF_BUFFER = 100"

lemmas ifc_consts =
  IN_MODULE_IFC_DIRECTION_def OUT_MODULE_IFC_DIRECTION_def SERVICE_MODULE_IFC_DIRECTION_def
  TCP_MODULE_IFC_TYPE_def UNIXSOCKET_MODULE_IFC_TYPE_def SERVICE_MODULE_IFC_TYPE_def
  FILE_MODULE_IFC_TYPE_def BLACKHOLE_MODULE_IFC_TYPE_def TLS_MODULE_IFC_TYPE_def
  INVALID_MODULE_IFC_ATTR_def

subsection \<open>Structures\<close>

record interface_t =
  ifc_note :: "string option"
  ifc_type :: "string option"
  ifc_params :: "string option"
  ifc_direction :: "string option"
  int_ifc_direction :: int
  int_ifc_type :: int

record in_ifc_stats =
  in_ifc_state :: u8
  in_ifc_type :: u8
  in_ifc_id :: "string option"
  recv_msg_cnt :: u64
  recv_buffer_cnt :: u64

record out_ifc_stats =
  num_clients :: "32 word"
  out_ifc_type :: u8
  out_ifc_id :: "string option"
  sent_msg_cnt :: u64
  dropped_msg_cnt :: u64
  sent_buffer_cnt :: u64
  autoflush_cnt :: u64

record modules_profile =
  profile_name :: string
  profile_enabled :: bool

record running_module =
  total_in_ifces_cnt :: u32
  total_out_ifces_cnt :: u32
  config_ifces :: "interface_t list"
  config_ifces_cnt :: nat
  config_ifces_arr_size :: nat
  in_ifces_data :: "in_ifc_stats list option"
  out_ifces_data :: "out_ifc_stats list option"
  module_enabled :: bool
  "module_name" :: "string option"
  module_params :: "string option"
  module_path :: "string option"
  module_served_by_service_thread :: bool
  module_modified_by_reload :: bool
  module_checked_by_reload :: bool
  module_profile :: "nat option"
  module_is_my_child :: bool
  module_root_perm_needed :: bool
  remove_module :: bool
  init_module :: bool
  module_status :: bool
  module_running :: bool
  module_restart_cnt :: int
  module_restart_timer :: int
  module_max_restarts_per_minute :: int
  module_pid :: int
  sent_sigint :: bool
  virtual_memory_size :: u64
  resident_set_size :: u64
  last_period_cpu_usage_kernel_mode :: u64
  last_period_cpu_usage_user_mode :: u64
  last_period_percent_cpu_usage_kernel_mode :: u64
  last_period_percent_cpu_usage_user_mode :: u64
  module_service_sd :: int
  module_service_ifc_isconnected :: bool
  service_ifc_conn_timer :: u64

text \<open>The global variables the modules' life cycle depends on.\<close>

record sup =
  running_modules :: "running_module list"
  running_modules_array_size :: nat
  loaded_modules_cnt :: nat
  profiles :: "modules_profile list"
  loaded_profile_cnt :: nat
  module_restarts_num_config :: int
  service_thread_continue :: bool
  service_stop_all_modules :: bool
  last_total_cpu :: u64

text \<open>
  System calls with an effect outside the process, in the order they are made: \<open>Kill p sig\<close> is
  \<open>kill (p, sig)\<close>, \<open>Fork x\<close> the \<open>fork\<close> for the module at index \<open>x\<close>. \<open>Overrun\<close> is not a call: it
  records that the program accessed memory outside an object (a \<open>sprintf\<close> past the end of a stack
  buffer, a read past the end of a received message), after which the C program has no defined
  behaviour and the rest of a run says nothing.
\<close>

datatype os_event =
    Kill int int
  | Close int
  | Unlink string
  | Fork nat
  | Overrun

subsection \<open>Zeroed memory\<close>

text \<open>What \<open>calloc\<close> and \<open>memset (\<dots>, 0, \<dots>)\<close> leave in an interface and in a module.\<close>

definition zero_interface :: interface_t where
  "zero_interface = \<lparr>ifc_note = None, ifc_type = None, ifc_params = None, ifc_direction = None,
     int_ifc_direction = 0, int_ifc_type = 0\<rparr>"

definition zero_module :: running_module where
  "zero_module = \<lparr>total_in_ifces_cnt = 0, total_out_ifces_cnt = 0, config_ifces = [],
     config_ifces_cnt = 0, config_ifces_arr_size = 0, in_ifces_data = None, out_ifces_data = None,
     module_enabled = False, module_name = None, module_params = None, module_path = None,
     module_served_by_service_thread = False, module_modified_by_reload = False,
     module_checked_by_reload = False, module_profile = None, module_is_my_child = False,
     module_root_perm_needed = False, remove_module = False, init_module = False,
     module_status = False, module_running = False, module_restart_cnt = 0,
     module_restart_timer = 0, module_max_restarts_per_minute = 0, module_pid = 0,
     sent_sigint = False, virtual_memory_size = 0, resident_set_size = 0,
     last_period_cpu_usage_kernel_mode = 0, last_period_cpu_usage_user_mode = 0,
     last_period_percent_cpu_usage_kernel_mode = 0, last_period_percent_cpu_usage_user_mode = 0,
     module_service_sd = 0, module_service_ifc_isconnected = False, service_ifc_conn_timer = 0\<rparr>"

subsection \<open>Profiles\<close>

text \<open>The profile a module points to; a dangling pointer is excluded by the invariant below.\<close>

definition profile_ref :: "modules_profile list \<Rightarrow> running_module \<Rightarrow> modules_profile option" where
  "profile_ref ps m =
     (case module_profile m of None \<Rightarrow> None | Some i \<Rightarrow> if i < length ps then Some (ps ! i) else None)"

definition profile_is_enabled :: "modules_profile list \<Rightarrow> running_module \<Rightarrow> bool" where
  "profile_is_enabled ps m \<longleftrightarrow> (case profile_ref ps m of None \<Rightarrow> False | Some p \<Rightarrow> profile_enabled p)"

definition profile_is_disabled :: "modules_profile list \<Rightarrow> running_module \<Rightarrow> bool" where
  "profile_is_disabled ps m \<longleftrightarrow> (case profile_ref ps m of None \<Rightarrow> False | Some p \<Rightarrow> \<not> profile_enabled p)"

subsection \<open>Well-formed states\<close>

text \<open>
  The array of modules has the recorded size and holds the loaded modules at its front, loaded
  modules have a name, the loaded names are distinct, profile pointers are valid, and every
  module's interface array has the recorded size. An allocated array has at least two elements, so
  that growing it by a half makes room.
\<close>

definition size_ok :: "nat \<Rightarrow> bool" where
  "size_ok n \<longleftrightarrow> n = 0 \<or> 2 \<le> n"

definition wf_ifces :: "running_module \<Rightarrow> bool" where
  "wf_ifces m \<longleftrightarrow> length (config_ifces m) = config_ifces_arr_size m \<and>
     config_ifces_cnt m \<le> config_ifces_arr_size m \<and> size_ok (config_ifces_arr_size m)"

definition wf_profile :: "nat \<Rightarrow> running_module \<Rightarrow> bool" where
  "wf_profile n m \<longleftrightarrow> (case module_profile m of None \<Rightarrow> True | Some i \<Rightarrow> i < n)"

definition loaded :: "sup \<Rightarrow> running_module list" where
  "loaded s = take (loaded_modules_cnt s) (running_modules s)"

definition wf_sup :: "sup \<Rightarrow> bool" where
  "wf_sup s \<longleftrightarrow>
     length (running_modules s) = running_modules_array_size s \<and> size_ok (running_modules_array_size s) \<and>
     loaded_modules_cnt s \<le> running_modules_array_size s \<and>
     list_all wf_ifces (running_modules s) \<and>
     list_all (wf_profile (length (profiles s))) (running_modules s) \<and>
     list_all (\<lambda>m. module_name m \<noteq> None) (loaded s) \<and>
     distinct (map module_name (loaded s)) \<and>
     loaded_profile_cnt s = length (profiles s)"

lemma length_loaded [simp]: "wf_sup s \<Longrightarrow> length (loaded s) = loaded_modules_cnt s"
  by (simp add: wf_sup_def loaded_def)

lemma loaded_nth: "x < loaded_modules_cnt s \<Longrightarrow> loaded s ! x = running_modules s ! x"
  by (simp add: loaded_def)

lemma wf_profile_ref:
  assumes "wf_profile (length ps) m" "module_profile m = Some i"
  shows "profile_ref ps m = Some (ps ! i)"
  using assms by (simp add: wf_profile_def profile_ref_def)

lemma profile_enabled_not_disabled: "profile_is_enabled ps m \<Longrightarrow> \<not> profile_is_disabled ps m"
  by (auto simp: profile_is_enabled_def profile_is_disabled_def split: option.splits)

end
