(* ===== verification/Util.thy ===== *)
theory Util
  imports Data_Model
begin

section \<open>Utility functions: digits, suffixes, delimiters, backup path, user input\<close>

text \<open>
  The helper functions at the top of \<^verbatim>\<open>supervisor.c\<close> and the reading of user input: what
  \<open>get_input_from_stream\<close> makes of a line, the option numbers of the menu, and the selection
  syntax \<^verbatim>\<open>2,4-6,13\<close> of the enable, disable and restart operations.
\<close>

subsection \<open>Number of digits\<close>

text \<open>Division of C, towards zero.\<close>

definition c_div :: "int \<Rightarrow> int \<Rightarrow> int" where
  "c_div a b = sgn a * sgn b * (\<bar>a\<bar> div \<bar>b\<bar>)"

lemma abs_c_div10 [simp]: "\<bar>c_div a 10\<bar> = \<bar>a\<bar> div 10"
  by (cases "a = 0") (simp_all add: c_div_def abs_mult pos_imp_zdiv_nonneg_iff)

function digits_loop :: "int \<Rightarrow> nat \<Rightarrow> nat" where
  "digits_loop num cnt = (if num = 0 then cnt else digits_loop (c_div num 10) (Suc cnt))"
  by pat_completeness auto
termination
  by (relation "measure (\<lambda>(num, cnt). nat \<bar>num\<bar>)") auto

declare digits_loop.simps [simp del]

definition get_digits_num :: "int \<Rightarrow> nat" where
  "get_digits_num number = digits_loop (c_div number 10) 1"

lemma c_div10_zero: "c_div a 10 = 0 \<longleftrightarrow> \<bar>a\<bar> < 10"
  using abs_c_div10[of a] by (metis abs_ge_zero abs_zero div_pos_pos_trivial not_less zero_less_abs_iff
      pos_imp_zdiv_pos_iff zero_less_numeral)

lemma digits_loop_print:
  "digits_loop num cnt = (if num = 0 then cnt else cnt + length (print_nat (nat \<bar>num\<bar>)))"
proof (induction num cnt rule: digits_loop.induct)
  case (1 num cnt)
  show ?case
  proof (cases "num = 0")
    case True
    then show ?thesis by (subst digits_loop.simps) simp
  next
    case False
    have rec: "digits_loop num cnt = digits_loop (c_div num 10) (Suc cnt)"
      using False by (subst digits_loop.simps) simp
    show ?thesis
    proof (cases "\<bar>num\<bar> < 10")
      case True
      then have "c_div num 10 = 0" by (simp add: c_div10_zero)
      moreover have "length (print_nat (nat \<bar>num\<bar>)) = 1"
        using True by (subst print_nat.simps) (simp add: nat_less_iff)
      ultimately show ?thesis
        using False by (simp add: rec) (simp add: digits_loop.simps)
    next
      case big: False
      then have "c_div num 10 \<noteq> 0" by (simp add: c_div10_zero)
      moreover have "length (print_nat (nat \<bar>num\<bar>)) = Suc (length (print_nat (nat (\<bar>num\<bar> div 10))))"
        using big by (subst print_nat.simps) (simp add: nat_less_iff nat_div_distrib)
      ultimately show ?thesis
        using False 1 by (simp add: rec)
    qed
  qed
qed

lemma get_digits_num_print: "get_digits_num n = length (print_nat (nat \<bar>n\<bar>))"
proof (cases "\<bar>n\<bar> < 10")
  case True
  then show ?thesis
    by (subst print_nat.simps)
      (simp add: get_digits_num_def digits_loop_print c_div10_zero nat_less_iff)
next
  case False
  then have "length (print_nat (nat \<bar>n\<bar>)) = Suc (length (print_nat (nat (\<bar>n\<bar> div 10))))"
    by (subst print_nat.simps) (simp add: nat_less_iff nat_div_distrib)
  with False show ?thesis
    by (simp add: get_digits_num_def digits_loop_print c_div10_zero)
qed

subsection \<open>Suffix test\<close>

text \<open>
  \<open>strcmp (str + strlen (str) - strlen (suffix), suffix) == 0\<close>: for a string shorter than the
  suffix the pointer lies before the string.
\<close>

definition strsuffixis :: "string \<Rightarrow> string \<Rightarrow> bool c_ret" where
  "strsuffixis str suf =
     (if length str < length suf then Undefined
      else Ret (drop (length str - length suf) str = suf))"

lemma strsuffixis_suffix: "length suf \<le> length str \<Longrightarrow> strsuffixis str suf = Ret (suffix suf str)"
  by (auto simp: strsuffixis_def suffix_def)
    (metis append_eq_conv_conj append_take_drop_id length_append add_diff_cancel_right')+

subsection \<open>Splitting at a delimiter\<close>

text \<open>
  \<open>get_param_by_delimiter (source, &dest, delimiter)\<close>: the pair of what \<open>*dest\<close> is set to
  (\<open>None\<close> when it is left alone) and the returned pointer.
\<close>

fun get_param_by_delimiter :: "string option \<Rightarrow> char \<Rightarrow> string option \<times> string option" where
  "get_param_by_delimiter None d = (None, None)"
| "get_param_by_delimiter (Some source) d =
     (case split_at_char d source of
        None \<Rightarrow> (Some source, None)
      | Some (a, b) \<Rightarrow> (Some a, Some b))"

lemma get_param_by_delimiter_join:
  "get_param_by_delimiter (Some s) d = (Some a, Some b) \<longleftrightarrow> s = a @ d # b \<and> d \<notin> set a"
  unfolding split_at_char_Some [symmetric]
  by (auto split: option.splits)

subsection \<open>Path of the backup file\<close>

text \<open>A \<open>char\<close> is signed and is promoted to \<open>int\<close>; the sum is kept in a \<open>uint32_t\<close>.\<close>

definition char_int :: "char \<Rightarrow> int" where
  "char_int c = (let n = of_char c in if n < (128 :: int) then n else n - 256)"

fun letter_sum :: "string \<Rightarrow> nat \<Rightarrow> u32 \<Rightarrow> u32" where
  "letter_sum [] x acc = acc"
| "letter_sum (c # cs) x acc = letter_sum cs (Suc x) (acc + of_int (char_int c) * of_nat (x + 1))"

definition BACKUP_FILE_PREFIX :: string where
  "BACKUP_FILE_PREFIX = ''/tmp/sup_tmp_dir''"

definition BACKUP_FILE_SUFIX :: string where
  "BACKUP_FILE_SUFIX = ''_sup_backup_file.xml''"

text \<open>\<open>realpath\<close> is the operating system's; it is a parameter.\<close>

definition get_absolute_file_path :: "(string \<Rightarrow> string option) \<Rightarrow> string option \<Rightarrow> string option" where
  "get_absolute_file_path realpath file_name =
     (case file_name of None \<Rightarrow> None | Some f \<Rightarrow> realpath f)"

definition create_backup_file_path :: "(string \<Rightarrow> string option) \<Rightarrow> string option \<Rightarrow> string option" where
  "create_backup_file_path realpath templ_config_file =
     (case get_absolute_file_path realpath templ_config_file of
        None \<Rightarrow> None
      | Some path \<Rightarrow>
          Some (BACKUP_FILE_PREFIX @ ''/'' @ print_int (sint (letter_sum path 0 0)) @ BACKUP_FILE_SUFIX))"

subsection \<open>Input from the user\<close>

text \<open>
  \<open>get_input_from_stream\<close>: the argument is what \<open>fgets\<close> stored (up to its first zero byte), at most
  99 characters; \<open>None\<close> when \<open>fgets\<close> returned \<open>NULL\<close>. With a zero byte first, the string is
  empty and \<open>buffer[buffer_len - 1]\<close> lies before the buffer.
\<close>

definition get_input_from_stream :: "string option \<Rightarrow> string option c_ret" where
  "get_input_from_stream fgets =
     (case fgets of
        None \<Rightarrow> Ret None
      | Some buffer \<Rightarrow>
          if length buffer \<ge> DEFAULT_SIZE_OF_BUFFER - 1 then Ret None
          else if buffer = [] then Undefined
          else if last buffer = CHR 0x0A then Ret (Some (butlast buffer))
          else Ret (Some buffer))"

text \<open>\<open>get_number_from_input_choosing_option\<close> on the line read; \<open>RET_ERROR\<close> is \<open>-1\<close>.\<close>

definition get_number_from_input_choosing_option :: "string option \<Rightarrow> int" where
  "get_number_from_input_choosing_option input =
     (case input of
        None \<Rightarrow> -1
      | Some s \<Rightarrow>
          if length s > 3 \<or> length s < 1 then -1
          else if \<not> list_all is_digit s then -1
          else (case sscanf_d s of None \<Rightarrow> -1 | Some option \<Rightarrow> if option < 0 then -1 else option))"

subsection \<open>Selections of modules and profiles\<close>

text \<open>The array of numbers without duplicates, extended by the numbers \<open>b, \<dots>, e\<close>.\<close>

definition add_number :: "int list \<Rightarrow> int \<Rightarrow> int list" where
  "add_number nums y = (if y \<in> set nums then nums else nums @ [y])"

definition add_range :: "int list \<Rightarrow> int \<Rightarrow> int \<Rightarrow> int list" where
  "add_range nums b e = foldl add_number nums [b..e]"

text \<open>
  The loop over the characters: \<open>isnum\<close>, \<open>is_interval\<close>, \<open>cur_num\<close> and \<open>interval_beg\<close> are the
  variables of the code, \<open>Ret None\<close> is \<open>RET_ERROR\<close>. \<open>Undefined\<close> where \<open>cur_num\<close> overflows or
  the loop over the interval would step past \<open>INT_MAX\<close>.
\<close>

fun selection_loop :: "string \<Rightarrow> bool \<Rightarrow> bool \<Rightarrow> int \<Rightarrow> int \<Rightarrow> int list \<Rightarrow> int list option c_ret" where
  "selection_loop [] isnum is_interval cur_num interval_beg nums = Ret (Some nums)"
| "selection_loop (c # cs) isnum is_interval cur_num interval_beg nums =
     (let add = (\<lambda>cur.
            let b = (if \<not> is_interval then cur else if interval_beg > cur then cur else interval_beg);
                e = (if \<not> is_interval then cur else if interval_beg > cur then interval_beg else cur)
            in if e \<ge> INT_MAX then Undefined
               else selection_loop cs False False 0 b (add_range nums b e))
      in if is_digit c then
           (let cur' = cur_num * 10 + int (char_digit c)
            in if cur' > INT_MAX then Undefined
               else if cs \<noteq> [] then selection_loop cs True is_interval cur' interval_beg nums
               else add cur')
         else if c = CHR '','' then
           (if cs = [] then Ret None else if \<not> isnum then Ret None else add cur_num)
         else if c = CHR ''-'' then
           (if isnum \<and> \<not> is_interval then selection_loop cs False True 0 cur_num nums else Ret None)
         else Ret None)"

declare selection_loop.simps(2) [simp del]

definition parse_numbers_user_selection :: "string option \<Rightarrow> int list option c_ret" where
  "parse_numbers_user_selection input =
     (case input of
        None \<Rightarrow> Ret None
      | Some s \<Rightarrow> if s = [] then Ret None else selection_loop s False False 0 0 [])"

subsection \<open>Selections: the parser against the syntax it reads\<close>

text \<open>The syntax of the prompt, as data: single numbers and intervals, separated by commas.\<close>

datatype sel_item = One nat | Interval nat nat

fun print_item :: "sel_item \<Rightarrow> string" where
  "print_item (One n) = print_nat n"
| "print_item (Interval a b) = print_nat a @ CHR ''-'' # print_nat b"

fun print_selection :: "sel_item list \<Rightarrow> string" where
  "print_selection [] = []"
| "print_selection [it] = print_item it"
| "print_selection (it # its) = print_item it @ CHR '','' # print_selection its"

fun item_low :: "sel_item \<Rightarrow> int" where
  "item_low (One n) = int n"
| "item_low (Interval a b) = min (int a) (int b)"

fun item_high :: "sel_item \<Rightarrow> int" where
  "item_high (One n) = int n"
| "item_high (Interval a b) = max (int a) (int b)"

definition selected :: "sel_item list \<Rightarrow> int set" where
  "selected its = (\<Union>it \<in> set its. {item_low it..item_high it})"

definition scan_from :: "int \<Rightarrow> string \<Rightarrow> int" where
  "scan_from cur ds = foldl (\<lambda>n c. n * 10 + int (char_digit c)) cur ds"

lemma scan_from_Cons: "scan_from cur (c # ds) = scan_from (cur * 10 + int (char_digit c)) ds"
  by (simp add: scan_from_def)

lemma scan_from_ge: "0 \<le> cur \<Longrightarrow> cur \<le> scan_from cur ds"
proof (induction ds arbitrary: cur)
  case (Cons c ds)
  have "cur \<le> cur * 10 + int (char_digit c)" using Cons.prems by simp
  also have "\<dots> \<le> scan_from (cur * 10 + int (char_digit c)) ds"
    using Cons.prems by (intro Cons.IH) simp
  finally show ?case by (simp add: scan_from_Cons)
qed (simp add: scan_from_def)

lemma scan_from_snoc: "scan_from cur (ds @ [c]) = scan_from cur ds * 10 + int (char_digit c)"
  by (simp add: scan_from_def)

lemma scan_from_scan_digits: "scan_from 0 ds = int (scan_digits ds)"
  by (induction ds rule: rev_induct)
    (simp_all add: scan_from_snoc scan_digits_snoc, simp_all add: scan_from_def scan_digits_def)

lemma scan_from_print_nat [simp]: "scan_from 0 (print_nat n) = int n"
  by (simp add: scan_from_scan_digits)

text \<open>A run of digits followed by more input is read into \<open>cur_num\<close>.\<close>

lemma selection_digits:
  assumes "list_all is_digit ds" "ds \<noteq> []" "rest \<noteq> []" "0 \<le> cur" "scan_from cur ds \<le> INT_MAX"
  shows "selection_loop (ds @ rest) b iv cur beg nums = selection_loop rest True iv (scan_from cur ds) beg nums"
  using assms
proof (induction ds arbitrary: cur b)
  case (Cons c ds)
  have le: "cur * 10 + int (char_digit c) \<le> INT_MAX"
    using Cons.prems scan_from_ge[of "cur * 10 + int (char_digit c)" ds]
    by (simp add: scan_from_Cons)
  then have step: "selection_loop (c # ds @ rest) b iv cur beg nums =
      selection_loop (ds @ rest) True iv (cur * 10 + int (char_digit c)) beg nums"
    using Cons.prems by (simp add: selection_loop.simps(2) Let_def)
  show ?case
  proof (cases "ds = []")
    case True
    then show ?thesis using step by (simp add: scan_from_def)
  next
    case False
    then show ?thesis
      using step Cons.IH[of "cur * 10 + int (char_digit c)" True] Cons.prems
      by (simp add: scan_from_Cons)
  qed
qed simp

text \<open>A run of digits that ends the input adds the last item.\<close>

lemma selection_last_digits:
  assumes "list_all is_digit ds" "ds \<noteq> []" "0 \<le> cur" "scan_from cur ds < INT_MAX"
    and "\<not> iv \<or> beg < INT_MAX"
  shows "selection_loop ds b iv cur beg nums =
    Ret (Some (add_range nums (if iv then min beg (scan_from cur ds) else scan_from cur ds)
                              (if iv then max beg (scan_from cur ds) else scan_from cur ds)))"
  using assms
proof (induction ds arbitrary: cur b)
  case (Cons c ds)
  have le: "cur * 10 + int (char_digit c) < INT_MAX"
    using Cons.prems scan_from_ge[of "cur * 10 + int (char_digit c)" ds]
    by (simp add: scan_from_Cons)
  show ?case
  proof (cases "ds = []")
    case True
    with le Cons.prems show ?thesis
      by (auto simp: selection_loop.simps(2) Let_def scan_from_def min_def max_def)
  next
    case False
    then have "selection_loop (c # ds) b iv cur beg nums =
        selection_loop ds True iv (cur * 10 + int (char_digit c)) beg nums"
      using Cons.prems le by (simp add: selection_loop.simps(2) Let_def)
    with False Cons.IH[of "cur * 10 + int (char_digit c)" True] Cons.prems show ?thesis
      by (simp add: scan_from_Cons)
  qed
qed simp

lemma selection_comma:
  assumes "rest \<noteq> []" "cur < INT_MAX" "\<not> iv \<or> beg < INT_MAX"
  shows "selection_loop (CHR '','' # rest) True iv cur beg nums =
    selection_loop rest False False 0 (if iv then min beg cur else cur)
      (add_range nums (if iv then min beg cur else cur) (if iv then max beg cur else cur))"
  using assms by (auto simp: selection_loop.simps(2) Let_def is_digit_def min_def max_def)

lemma selection_dash:
  "selection_loop (CHR ''-'' # rest) True False cur beg nums =
    selection_loop rest False True 0 cur nums"
  by (simp add: selection_loop.simps(2) Let_def is_digit_def)

lemma print_selection_nonempty: "its \<noteq> [] \<Longrightarrow> print_selection its \<noteq> []"
proof (induction its rule: print_selection.induct)
  case (2 it)
  then show ?case by (cases it) simp_all
next
  case (3 it it' its)
  then show ?case by simp
qed simp

lemma selection_item_last:
  assumes "item_high it < INT_MAX"
  shows "selection_loop (print_item it) False False 0 beg nums =
    Ret (Some (add_range nums (item_low it) (item_high it)))"
proof (cases it)
  case (One n)
  with assms show ?thesis by (simp add: selection_last_digits print_nat_digits)
next
  case (Interval a b)
  with assms show ?thesis
    by (simp add: selection_digits print_nat_digits selection_dash selection_last_digits)
qed

lemma selection_item_comma:
  assumes "item_high it < INT_MAX" "rest \<noteq> []"
  shows "\<exists>beg'. selection_loop (print_item it @ CHR '','' # rest) False False 0 beg nums =
    selection_loop rest False False 0 beg' (add_range nums (item_low it) (item_high it))"
proof (cases it)
  case (One n)
  with assms show ?thesis
    by (auto simp: selection_digits print_nat_digits selection_comma)
next
  case (Interval a b)
  with assms show ?thesis
    by (auto simp: selection_digits print_nat_digits selection_dash selection_comma)
qed

lemma set_add_number: "set (foldl add_number nums ys) = set nums \<union> set ys"
  by (induction ys arbitrary: nums) (auto simp: add_number_def)

lemma distinct_add_number: "distinct nums \<Longrightarrow> distinct (foldl add_number nums ys)"
  by (induction ys arbitrary: nums) (auto simp: add_number_def)

lemma selection_items:
  assumes "its \<noteq> []" "\<forall>it \<in> set its. item_high it < INT_MAX" "distinct nums"
  shows "\<exists>nums'. selection_loop (print_selection its) False False 0 beg nums = Ret (Some nums') \<and>
    distinct nums' \<and> set nums' = set nums \<union> selected its"
  using assms
proof (induction its arbitrary: beg nums rule: print_selection.induct)
  case (2 it)
  then show ?case
    by (simp add: selection_item_last selected_def add_range_def set_add_number distinct_add_number)
next
  case (3 it it' its)
  let ?rest = "print_selection (it' # its)"
  let ?nums = "add_range nums (item_low it) (item_high it)"
  have rest: "?rest \<noteq> []" by (rule print_selection_nonempty) simp
  obtain beg' where step: "selection_loop (print_selection (it # it' # its)) False False 0 beg nums =
      selection_loop ?rest False False 0 beg' ?nums"
    using selection_item_comma[of it ?rest beg nums] "3.prems" rest by auto
  have "distinct ?nums" using "3.prems" by (simp add: add_range_def distinct_add_number)
  then obtain nums' where "selection_loop ?rest False False 0 beg' ?nums = Ret (Some nums')"
      "distinct nums'" "set nums' = set ?nums \<union> selected (it' # its)"
    using "3.IH"[of ?nums beg'] "3.prems" by auto
  with step show ?case
    by (auto simp: selected_def add_range_def set_add_number)
qed simp

lemma parse_selection:
  assumes "its \<noteq> []" "\<forall>it \<in> set its. item_high it < INT_MAX"
  shows "\<exists>nums. parse_numbers_user_selection (Some (print_selection its)) = Ret (Some nums) \<and>
    distinct nums \<and> set nums = selected its"
  using selection_items[OF assms, of "[]" 0] print_selection_nonempty[OF assms(1)]
  by (simp add: parse_numbers_user_selection_def)



end
