(* ===== verification/Module_Args.thy ===== *)
theory Module_Args
  imports Util
begin

section \<open>Arguments of a module's binary\<close>

text \<open>
  \<open>parse_module_params\<close> splits the \<open>params\<close> element of a module into arguments, and
  \<open>prep_module_args\<close> builds the argument vector of \<open>execvp\<close>: the name, the parsed parameters and,
  for a module with interfaces, \<^verbatim>\<open>-i\<close> and the interface specifier. The child branch of
  \<open>service_start_module\<close> is here too.
\<close>

subsection \<open>The array of parsed parameters\<close>

text \<open>\<open>params\<close> with its allocated cells (\<open>None\<close> is \<open>NULL\<close>) and \<open>params_cnt\<close>.\<close>

record params_arr =
  params_cells :: "string option list"
  params_cnt :: nat

definition empty_params :: params_arr where
  "empty_params = \<lparr>params_cells = replicate 5 None, params_cnt = 0\<rparr>"

text \<open>The reallocation at \<open>add_param\<close>: doubling when the array is full.\<close>

definition grow_params :: "params_arr \<Rightarrow> params_arr" where
  "grow_params a =
     (if params_cnt a = length (params_cells a)
      then a\<lparr>params_cells := params_cells a @ replicate (length (params_cells a)) None\<rparr>
      else a)"

definition add_param :: "params_arr \<Rightarrow> string \<Rightarrow> params_arr" where
  "add_param a buffer =
     (let a' = grow_params a
      in a'\<lparr>params_cells := (params_cells a')[params_cnt a' := Some buffer],
            params_cnt := params_cnt a' + 1\<rparr>)"

definition params_ok :: "params_arr \<Rightarrow> bool" where
  "params_ok a \<longleftrightarrow> 0 < length (params_cells a) \<and> params_cnt a \<le> length (params_cells a)"

interpretation params: growable params_cnt params_cells grow_params params_ok
  by unfold_locales (auto simp: params_ok_def grow_params_def)

text \<open>The parameters stored so far.\<close>

definition params_list :: "params_arr \<Rightarrow> string option list" where
  "params_list a = take (params_cnt a) (params_cells a)"

lemma params_ok_empty [simp]: "params_ok empty_params" "params_list empty_params = []"
  by (simp_all add: params_ok_def empty_params_def params_list_def)

lemma add_param_ok: "params_ok a \<Longrightarrow> params_ok (add_param a p)"
  using params.ensure_ok[of a] params.write_in_bounds[of a]
  by (simp add: add_param_def params_ok_def Let_def)

lemma add_param_list: "params_ok a \<Longrightarrow> params_list (add_param a p) = params_list a @ [Some p]"
  using params.write_in_bounds[of a] params.ensure_cnt[of a] params.ensure_keeps[of a]
  by (simp add: add_param_def params_list_def Let_def take_Suc_conv_app_nth)

lemma params_cnt_list: "params_ok a \<Longrightarrow> params_cnt a = length (params_list a)"
  by (simp add: params_list_def params_ok_def)

subsection \<open>Splitting the parameters\<close>

text \<open>
  The inner loops over a quoted parameter: the characters up to the closing mark and the rest
  of the input; \<open>None\<close> is a jump to \<open>err_cleanup\<close> (empty marks, an apostrophe between quotes, or
  no closing mark).
\<close>

fun scan_apostrophes :: "string \<Rightarrow> string \<Rightarrow> (string \<times> string) option" where
  "scan_apostrophes [] buffer = None"
| "scan_apostrophes (c # cs) buffer =
     (if c = CHR 0x27 then (if buffer = [] then None else Some (buffer, cs))
      else scan_apostrophes cs (buffer @ [c]))"

fun scan_quotes :: "string \<Rightarrow> string \<Rightarrow> (string \<times> string) option" where
  "scan_quotes [] buffer = None"
| "scan_quotes (c # cs) buffer =
     (if c = CHR 0x22 then (if buffer = [] then None else Some (buffer, cs))
      else if c \<noteq> CHR 0x27 then scan_quotes cs (buffer @ [c])
      else None)"

lemma scan_apostrophes_length: "scan_apostrophes s b = Some (p, rest) \<Longrightarrow> length rest < length s"
  by (induction s b rule: scan_apostrophes.induct) (auto split: if_splits)

lemma scan_quotes_length: "scan_quotes s b = Some (p, rest) \<Longrightarrow> length rest < length s"
  by (induction s b rule: scan_quotes.induct) (auto split: if_splits)

text \<open>
  The main loop: the characters left, the buffer (its length is \<open>act_param_len\<close>) and the array.
  \<open>None\<close> is the \<open>NULL\<close> return after \<open>err_cleanup\<close>.
\<close>

function params_loop :: "string \<Rightarrow> string \<Rightarrow> params_arr \<Rightarrow> params_arr option" where
  "params_loop [] buffer a = Some a"
| "params_loop (c # cs) buffer a =
     (if c = CHR 0x27 then
        (if buffer \<noteq> [] then None
         else case scan_apostrophes cs [] of
                None \<Rightarrow> None
              | Some (p, rest) \<Rightarrow> params_loop rest [] (add_param a p))
      else if c = CHR 0x22 then
        (if buffer \<noteq> [] then None
         else case scan_quotes cs [] of
                None \<Rightarrow> None
              | Some (p, rest) \<Rightarrow> params_loop rest [] (add_param a p))
      else if c = CHR '' '' then
        (if buffer = [] then params_loop cs [] a
         else params_loop cs [] (add_param a buffer))
      else if cs = [] then params_loop cs [] (add_param a (buffer @ [c]))
      else params_loop cs (buffer @ [c]) a)"
  by pat_completeness auto
termination
  by (relation "measure (\<lambda>(s, b, a). length s)")
    (auto dest: scan_apostrophes_length scan_quotes_length)

declare params_loop.simps(2) [simp del]

definition parse_module_params :: "string \<Rightarrow> (string option list \<times> nat) option" where
  "parse_module_params ps =
     map_option (\<lambda>a. (params_cells a, params_cnt a)) (params_loop ps [] empty_params)"

text \<open>The arguments handed on: the first \<open>params_num\<close> cells.\<close>

definition parsed_args :: "string \<Rightarrow> string option list option" where
  "parsed_args ps = map_option (\<lambda>(cells, n). take n cells) (parse_module_params ps)"

subsection \<open>Correctness of the splitting\<close>

text \<open>The three ways to write an argument, as the documentation of \<open>parse_module_params\<close> has them.\<close>

datatype arg_style = Plain | Apostrophes | Quotes

definition plain_char :: "char \<Rightarrow> bool" where
  "plain_char c \<longleftrightarrow> c \<noteq> CHR 0x27 \<and> c \<noteq> CHR 0x22 \<and> c \<noteq> CHR '' ''"

fun arg_writable :: "arg_style \<times> string \<Rightarrow> bool" where
  "arg_writable (Plain, s) = (s \<noteq> [] \<and> list_all plain_char s)"
| "arg_writable (Apostrophes, s) = (s \<noteq> [] \<and> CHR 0x27 \<notin> set s)"
| "arg_writable (Quotes, s) = (s \<noteq> [] \<and> CHR 0x27 \<notin> set s \<and> CHR 0x22 \<notin> set s)"

fun write_arg :: "arg_style \<times> string \<Rightarrow> string" where
  "write_arg (Plain, s) = s"
| "write_arg (Apostrophes, s) = CHR 0x27 # s @ [CHR 0x27]"
| "write_arg (Quotes, s) = CHR 0x22 # s @ [CHR 0x22]"

fun write_args :: "(arg_style \<times> string) list \<Rightarrow> string" where
  "write_args [] = []"
| "write_args [a] = write_arg a"
| "write_args (a # as) = write_arg a @ CHR '' '' # write_args as"

lemma scan_apostrophes_closed:
  "CHR 0x27 \<notin> set s \<Longrightarrow> b @ s \<noteq> [] \<Longrightarrow> scan_apostrophes (s @ CHR 0x27 # rest) b = Some (b @ s, rest)"
  by (induction s arbitrary: b) auto

lemma scan_quotes_closed:
  "CHR 0x27 \<notin> set s \<Longrightarrow> CHR 0x22 \<notin> set s \<Longrightarrow> b @ s \<noteq> [] \<Longrightarrow>
   scan_quotes (s @ CHR 0x22 # rest) b = Some (b @ s, rest)"
  by (induction s arbitrary: b) auto

lemma params_loop_word:
  assumes "list_all plain_char s" "b @ s \<noteq> []"
  shows "params_loop (s @ CHR '' '' # rest) b a = params_loop rest [] (add_param a (b @ s))"
  using assms
proof (induction s arbitrary: b)
  case Nil
  then show ?case by (simp add: params_loop.simps(2))
next
  case (Cons c s)
  then show ?case by (simp add: params_loop.simps(2) plain_char_def)
qed

lemma params_loop_last_word:
  assumes "list_all plain_char s" "s \<noteq> []"
  shows "params_loop s b a = Some (add_param a (b @ s))"
  using assms
proof (induction s arbitrary: b)
  case (Cons c s)
  then show ?case by (cases "s = []") (simp_all add: params_loop.simps(2) plain_char_def)
qed simp

lemma params_loop_space [simp]: "params_loop (CHR '' '' # rest) [] a = params_loop rest [] a"
  by (simp add: params_loop.simps(2))

lemma params_loop_arg:
  assumes "arg_writable sa"
  shows "params_loop (write_arg sa @ CHR '' '' # rest) [] a = params_loop rest [] (add_param a (snd sa))"
proof (cases sa)
  case (Pair st s)
  show ?thesis
  proof (cases st)
    case Plain
    with assms Pair show ?thesis by (simp add: params_loop_word)
  next
    case Apostrophes
    with assms Pair show ?thesis by (simp add: params_loop.simps(2) scan_apostrophes_closed)
  next
    case Quotes
    with assms Pair show ?thesis by (simp add: params_loop.simps(2) scan_quotes_closed)
  qed
qed

lemma params_loop_last_arg:
  assumes "arg_writable sa"
  shows "params_loop (write_arg sa) [] a = Some (add_param a (snd sa))"
proof (cases sa)
  case (Pair st s)
  show ?thesis
  proof (cases st)
    case Plain
    with assms Pair show ?thesis by (simp add: params_loop_last_word)
  next
    case Apostrophes
    with assms Pair show ?thesis
      using scan_apostrophes_closed[of s "[]" "[]"] by (simp add: params_loop.simps(2))
  next
    case Quotes
    with assms Pair show ?thesis
      using scan_quotes_closed[of s "[]" "[]"] by (simp add: params_loop.simps(2))
  qed
qed

lemma params_loop_args:
  assumes "\<forall>sa \<in> set sas. arg_writable sa" "params_ok a"
  shows "\<exists>a'. params_loop (write_args sas) [] a = Some a' \<and> params_ok a' \<and>
    params_list a' = params_list a @ map (Some \<circ> snd) sas"
  using assms
proof (induction sas arbitrary: a rule: write_args.induct)
  case (2 sa)
  then show ?case by (simp add: params_loop_last_arg add_param_ok add_param_list)
next
  case (3 sa sa' sas)
  have "params_ok (add_param a (snd sa))" using "3.prems" by (simp add: add_param_ok)
  with "3.IH"[of "add_param a (snd sa)"] "3.prems" show ?case
    by (auto simp: params_loop_arg add_param_list)
qed simp

text \<open>
  C14. Round trip of the module parameters: arguments written plainly, in apostrophes or in quotes
  and separated by spaces are split back into exactly those arguments, in order.
\<close>

theorem parse_module_params_roundtrip:
  assumes "\<forall>sa \<in> set sas. arg_writable sa"
  shows "parsed_args (write_args sas) = Some (map (Some \<circ> snd) sas)"
  using params_loop_args[OF assms params_ok_empty(1)]
  by (auto simp: parsed_args_def parse_module_params_def params_list_def [symmetric])

theorem parse_module_params_roundtrip_witness:
  "parsed_args (write_args [(Plain, ''-o''), (Quotes, ''param with spaces''), (Apostrophes, [CHR 0x22, CHR ''q'', CHR 0x22])])
   = Some (map (Some \<circ> snd) [(Plain, ''-o''), (Quotes, ''param with spaces''), (Apostrophes, [CHR 0x22, CHR ''q'', CHR 0x22])])"
  by (rule parse_module_params_roundtrip) (simp add: plain_char_def)

text \<open>Every argument the parser delivers is non-empty and free of apostrophes.\<close>

definition good_arg :: "string option \<Rightarrow> bool" where
  "good_arg p \<longleftrightarrow> (case p of None \<Rightarrow> False | Some s \<Rightarrow> s \<noteq> [] \<and> CHR 0x27 \<notin> set s)"

lemma scan_apostrophes_good:
  "scan_apostrophes s b = Some (p, rest) \<Longrightarrow> CHR 0x27 \<notin> set b \<Longrightarrow> good_arg (Some p)"
  by (induction s b rule: scan_apostrophes.induct) (auto simp: good_arg_def split: if_splits)

lemma scan_quotes_good:
  "scan_quotes s b = Some (p, rest) \<Longrightarrow> CHR 0x27 \<notin> set b \<Longrightarrow> good_arg (Some p)"
  by (induction s b rule: scan_quotes.induct) (auto simp: good_arg_def split: if_splits)

lemma params_loop_good:
  assumes "params_loop s b a = Some a'" "CHR 0x27 \<notin> set b" "params_ok a" "list_all good_arg (params_list a)"
  shows "params_ok a' \<and> list_all good_arg (params_list a')"
  using assms
proof (induction s b a rule: params_loop.induct)
  case (2 c cs b a)
  consider (apos) "c = CHR 0x27" | (quot) "c = CHR 0x22" | (space) "c = CHR '' ''"
    | (word) "c \<noteq> CHR 0x27" "c \<noteq> CHR 0x22" "c \<noteq> CHR '' ''"
    by auto
  then show ?case
  proof cases
    case apos
    with "2.prems" obtain p rest where "b = []" "scan_apostrophes cs [] = Some (p, rest)"
        "params_loop rest [] (add_param a p) = Some a'"
      by (auto simp: params_loop.simps(2) split: if_splits option.splits)
    with apos "2.IH"(1) "2.prems" show ?thesis
      by (simp add: add_param_ok add_param_list scan_apostrophes_good)
  next
    case quot
    with "2.prems" obtain p rest where "b = []" "scan_quotes cs [] = Some (p, rest)"
        "params_loop rest [] (add_param a p) = Some a'"
      by (auto simp: params_loop.simps(2) split: if_splits option.splits)
    with quot "2.IH"(2) "2.prems" show ?thesis
      by (simp add: add_param_ok add_param_list scan_quotes_good)
  next
    case space
    then show ?thesis
      using "2.IH"(3,4) "2.prems"
      by (cases "b = []") (simp_all add: params_loop.simps(2) add_param_ok add_param_list good_arg_def)
  next
    case word
    then show ?thesis
      using "2.IH"(5,6) "2.prems"
      by (cases "cs = []") (auto simp: params_loop.simps(2) add_param_ok add_param_list good_arg_def)
  qed
qed simp

subsection \<open>The interface specifier\<close>

definition ifc_type_prefix :: "int \<Rightarrow> string option" where
  "ifc_type_prefix t =
     (if t = TCP_MODULE_IFC_TYPE then Some ''t:''
      else if t = UNIXSOCKET_MODULE_IFC_TYPE then Some ''u:''
      else if t = FILE_MODULE_IFC_TYPE then Some ''f:''
      else if t = BLACKHOLE_MODULE_IFC_TYPE then Some ''b:''
      else if t = TLS_MODULE_IFC_TYPE then Some ''T:''
      else None)"

text \<open>
  The specifier under construction: its characters (their number is \<open>ptr\<close>) and \<open>ifc_spec_size\<close>.
  A write that does not fit in the allocated size is \<open>Undefined\<close>; \<open>Ret None\<close> is the \<open>NULL\<close> return
  on a wrong interface type.
\<close>

type_synonym ifc_spec = "string \<times> nat"

definition put_spec :: "string \<Rightarrow> ifc_spec \<Rightarrow> ifc_spec c_ret" where
  "put_spec txt sp = (if length (fst sp) + length txt + 1 \<le> snd sp then Ret (fst sp @ txt, snd sp) else Undefined)"

definition grow_spec :: "nat \<Rightarrow> ifc_spec \<Rightarrow> ifc_spec" where
  "grow_spec plen sp =
     (if length (fst sp) + plen + 1 \<ge> (3 * snd sp) div 5
      then (fst sp, snd sp + (plen + snd sp div 2)) else sp)"

text \<open>The text written for an interface's parameters: the first comma becomes a colon.\<close>

definition ifc_params_text :: "string \<Rightarrow> string" where
  "ifc_params_text ps =
     (case get_param_by_delimiter (Some ps) (CHR '','') of
        (Some addr, Some port) \<Rightarrow> addr @ '':'' @ port @ '',''
      | _ \<Rightarrow> ps @ '','')"

definition spec_ifc :: "interface_t \<Rightarrow> ifc_spec \<Rightarrow> ifc_spec option c_ret" where
  "spec_ifc ifc sp =
     (case ifc_type_prefix (int_ifc_type ifc) of
        None \<Rightarrow> Ret None
      | Some pre \<Rightarrow>
          (case put_spec pre sp of
             Undefined \<Rightarrow> Undefined
           | Ret sp1 \<Rightarrow>
               (case ifc_params ifc of
                  None \<Rightarrow> Ret (Some sp1)
                | Some ps \<Rightarrow>
                    (case put_spec (ifc_params_text ps) (grow_spec (length ps) sp1) of
                       Undefined \<Rightarrow> Undefined
                     | Ret sp2 \<Rightarrow> Ret (Some sp2)))))"

fun spec_ifces :: "int \<Rightarrow> interface_t list \<Rightarrow> ifc_spec \<Rightarrow> ifc_spec option c_ret" where
  "spec_ifces act_dir [] sp = Ret (Some sp)"
| "spec_ifces act_dir (ifc # ifcs) sp =
     (if int_ifc_direction ifc = act_dir then
        (case spec_ifc ifc sp of
           Ret (Some sp') \<Rightarrow> spec_ifces act_dir ifcs sp'
         | r \<Rightarrow> r)
      else spec_ifces act_dir ifcs sp)"

text \<open>First the input, then the output interfaces; then the last comma is overwritten.\<close>

definition ifces_specifier :: "interface_t list \<Rightarrow> string option c_ret" where
  "ifces_specifier ifcs =
     (case spec_ifces IN_MODULE_IFC_DIRECTION ifcs ([], DEFAULT_SIZE_OF_BUFFER) of
        Undefined \<Rightarrow> Undefined
      | Ret None \<Rightarrow> Ret None
      | Ret (Some sp) \<Rightarrow>
          (case spec_ifces OUT_MODULE_IFC_DIRECTION ifcs sp of
             Undefined \<Rightarrow> Undefined
           | Ret None \<Rightarrow> Ret None
           | Ret (Some sp') \<Rightarrow>
               if fst sp' = [] then Undefined else Ret (Some (butlast (fst sp')))))"

subsection \<open>The argument vector\<close>

text \<open>The number of pointers allocated for \<open>bin_args\<close>, the terminating \<open>NULL\<close> included.\<close>

definition bin_args_num :: "running_module \<Rightarrow> nat" where
  "bin_args_num m =
     2 + (if config_ifces_cnt m > 0 then 2 else 0) +
     (case module_params m of None \<Rightarrow> 0
      | Some ps \<Rightarrow> (case parse_module_params ps of None \<Rightarrow> 0 | Some (cells, n) \<Rightarrow> n))"

text \<open>
  \<open>prep_module_args\<close>: the arguments before the terminating \<open>NULL\<close>. A module without a name would
  make \<open>strdup\<close> read through \<open>NULL\<close>.
\<close>

definition prep_module_args :: "running_module \<Rightarrow> string option list option c_ret" where
  "prep_module_args m =
     (case module_name m of
        None \<Rightarrow> Undefined
      | Some name \<Rightarrow>
          let params = (case module_params m of None \<Rightarrow> []
                        | Some ps \<Rightarrow> (case parsed_args ps of None \<Rightarrow> [] | Some args \<Rightarrow> args));
              args = Some name # params
          in if config_ifces_cnt m > 0 then
               (case ifces_specifier (take (config_ifces_cnt m) (config_ifces m)) of
                  Undefined \<Rightarrow> Undefined
                | Ret None \<Rightarrow> Ret None
                | Ret (Some spec) \<Rightarrow> Ret (Some (args @ [Some ''-i'', Some spec])))
             else Ret (Some args))"

text \<open>What the forked child does: it never returns to the service thread.\<close>

datatype child_action = Child_Exit_Failure | Child_Exec string "string option list" | Child_Undefined

definition service_start_module_child :: "running_module \<Rightarrow> child_action" where
  "service_start_module_child m =
     (case module_path m of
        None \<Rightarrow> Child_Exit_Failure
      | Some path \<Rightarrow>
          (case prep_module_args m of
             Undefined \<Rightarrow> Child_Undefined
           | Ret None \<Rightarrow> Child_Exit_Failure
           | Ret (Some argv) \<Rightarrow> Child_Exec path argv))"

subsection \<open>Correctness of the argument vector\<close>

text \<open>An interface whose direction is listed must have a known type and parameters.\<close>

definition listed :: "interface_t \<Rightarrow> bool" where
  "listed ifc \<longleftrightarrow> int_ifc_direction ifc = IN_MODULE_IFC_DIRECTION \<or>
     int_ifc_direction ifc = OUT_MODULE_IFC_DIRECTION"

definition complete_ifc :: "interface_t \<Rightarrow> bool" where
  "complete_ifc ifc \<longleftrightarrow> (listed ifc \<longrightarrow> ifc_type_prefix (int_ifc_type ifc) \<noteq> None \<and> ifc_params ifc \<noteq> None)"

definition ifc_text :: "interface_t \<Rightarrow> string" where
  "ifc_text ifc = the (ifc_type_prefix (int_ifc_type ifc)) @ ifc_params_text (the (ifc_params ifc))"

definition ifces_of :: "int \<Rightarrow> interface_t list \<Rightarrow> interface_t list" where
  "ifces_of d ifcs = filter (\<lambda>ifc. int_ifc_direction ifc = d) ifcs"

definition spec_room :: "ifc_spec \<Rightarrow> bool" where
  "spec_room sp \<longleftrightarrow> length (fst sp) + 3 \<le> snd sp \<and> 100 \<le> snd sp"

lemma length_ifc_params_text [simp]: "length (ifc_params_text ps) = length ps + 1"
proof (cases "split_at_char (CHR '','') ps")
  case None
  then show ?thesis by (simp add: ifc_params_text_def)
next
  case (Some ab)
  then obtain a b where ab: "split_at_char (CHR '','') ps = Some (a, b)" by (cases ab) auto
  then have "ps = a @ CHR '','' # b" by (simp add: split_at_char_Some)
  with ab show ?thesis by (simp add: ifc_params_text_def)
qed

lemma length_ifc_type_prefix: "ifc_type_prefix t = Some pre \<Longrightarrow> length pre = 2"
  by (auto simp: ifc_type_prefix_def split: if_splits)

lemma spec_ifc_complete:
  assumes "complete_ifc ifc" "listed ifc" "spec_room sp"
  shows "\<exists>sp'. spec_ifc ifc sp = Ret (Some sp') \<and> fst sp' = fst sp @ ifc_text ifc \<and> spec_room sp'"
proof -
  obtain pre ps where pre: "ifc_type_prefix (int_ifc_type ifc) = Some pre" and ps: "ifc_params ifc = Some ps"
    using assms by (auto simp: complete_ifc_def)
  have put: "put_spec pre sp = Ret (fst sp @ pre, snd sp)"
    using assms(3) length_ifc_type_prefix[OF pre] by (simp add: put_spec_def spec_room_def)
  let ?g = "grow_spec (length ps) (fst sp @ pre, snd sp)"
  have room: "length (fst sp @ pre) + (length ps + 1) + 3 \<le> snd ?g" "100 \<le> snd ?g" "fst ?g = fst sp @ pre"
    using assms(3) length_ifc_type_prefix[OF pre] by (auto simp: grow_spec_def spec_room_def)
  then show ?thesis
    using pre ps put by (simp add: spec_ifc_def put_spec_def ifc_text_def spec_room_def)
qed

lemma spec_ifces_complete:
  assumes "\<forall>ifc \<in> set ifcs. complete_ifc ifc" "spec_room sp"
    and "d = IN_MODULE_IFC_DIRECTION \<or> d = OUT_MODULE_IFC_DIRECTION"
  shows "\<exists>sp'. spec_ifces d ifcs sp = Ret (Some sp') \<and> spec_room sp' \<and>
    fst sp' = fst sp @ concat (map ifc_text (ifces_of d ifcs))"
  using assms
proof (induction ifcs arbitrary: sp)
  case (Cons ifc ifcs)
  show ?case
  proof (cases "int_ifc_direction ifc = d")
    case True
    then have "listed ifc" using Cons.prems(3) by (auto simp: listed_def)
    then obtain sp' where sp': "spec_ifc ifc sp = Ret (Some sp')" "fst sp' = fst sp @ ifc_text ifc"
        "spec_room sp'"
      using spec_ifc_complete[of ifc sp] Cons.prems by auto
    with True Cons.IH[of sp'] Cons.prems show ?thesis by (simp add: ifces_of_def)
  next
    case False
    with Cons.IH[of sp] Cons.prems show ?thesis by (simp add: ifces_of_def)
  qed
qed (simp add: ifces_of_def)

lemma ifc_text_nonempty: "ifc_text ifc \<noteq> []"
proof -
  have "ifc_params_text (the (ifc_params ifc)) \<noteq> []"
    using length_ifc_params_text by (metis Suc_eq_plus1 list.size(3) nat.distinct(1))
  then show ?thesis by (simp add: ifc_text_def)
qed

lemma ifces_specifier_complete:
  assumes "\<forall>ifc \<in> set ifcs. complete_ifc ifc" "\<exists>ifc \<in> set ifcs. listed ifc"
  shows "ifces_specifier ifcs = Ret (Some (butlast (concat (map ifc_text
      (ifces_of IN_MODULE_IFC_DIRECTION ifcs @ ifces_of OUT_MODULE_IFC_DIRECTION ifcs)))))"
proof -
  have room: "spec_room ([], DEFAULT_SIZE_OF_BUFFER)"
    by (simp add: spec_room_def DEFAULT_SIZE_OF_BUFFER_def)
  obtain sp1 where sp1: "spec_ifces IN_MODULE_IFC_DIRECTION ifcs ([], DEFAULT_SIZE_OF_BUFFER) = Ret (Some sp1)"
      "spec_room sp1" "fst sp1 = concat (map ifc_text (ifces_of IN_MODULE_IFC_DIRECTION ifcs))"
    using spec_ifces_complete[OF assms(1) room, of IN_MODULE_IFC_DIRECTION] by auto
  obtain sp2 where sp2: "spec_ifces OUT_MODULE_IFC_DIRECTION ifcs sp1 = Ret (Some sp2)"
      "fst sp2 = fst sp1 @ concat (map ifc_text (ifces_of OUT_MODULE_IFC_DIRECTION ifcs))"
    using spec_ifces_complete[OF assms(1) sp1(2), of OUT_MODULE_IFC_DIRECTION] by auto
  have "fst sp2 \<noteq> []"
    using assms(2) sp1(3) sp2(2) ifc_text_nonempty by (fastforce simp: listed_def ifces_of_def)
  with sp1 sp2 show ?thesis by (simp add: ifces_specifier_def)
qed

lemma parsed_args_num:
  "(case parse_module_params ps of None \<Rightarrow> 0 | Some (cells, n) \<Rightarrow> n) =
   length (case parsed_args ps of None \<Rightarrow> [] | Some args \<Rightarrow> args)"
proof (cases "params_loop ps [] empty_params")
  case (Some a)
  then have "params_ok a" using params_loop_good[of ps "[]" empty_params a] by simp
  with Some show ?thesis
    using params_cnt_list[of a] by (simp add: parsed_args_def parse_module_params_def params_list_def)
qed (simp add: parsed_args_def parse_module_params_def)


definition tcp_out_ifc :: interface_t where
  "tcp_out_ifc = zero_interface\<lparr>ifc_params := Some ''localhost,1234'', int_ifc_type := 1, int_ifc_direction := 2\<rparr>"


text \<open>
  The interface specifier of such a module lists the input interfaces before the output
  interfaces, each as its type letter, a colon and its parameters with the first comma turned into
  a colon, separated by single commas.
\<close>

theorem ifces_specifier_text:
  assumes "\<forall>ifc \<in> set ifcs. complete_ifc ifc" "\<exists>ifc \<in> set ifcs. listed ifc"
  shows "ifces_specifier ifcs = Ret (Some (butlast (concat (map ifc_text
      (filter (\<lambda>ifc. int_ifc_direction ifc = IN_MODULE_IFC_DIRECTION) ifcs @
       filter (\<lambda>ifc. int_ifc_direction ifc = OUT_MODULE_IFC_DIRECTION) ifcs)))))"
  using ifces_specifier_complete[OF assms] by (simp add: ifces_of_def)

theorem ifces_specifier_text_witness:
  "ifces_specifier [tcp_out_ifc] = Ret (Some ''t:localhost:1234'')"
  using ifces_specifier_text[of "[tcp_out_ifc]"]
  by (simp add: complete_ifc_def listed_def ifc_type_prefix_def ifc_consts tcp_out_ifc_def
      ifc_text_def ifc_params_text_def)

text \<open>
  A module that has interfaces none of which is an input or an output interface makes
  \<open>prep_module_args\<close> write before the specifier buffer: the last comma is removed although nothing
  was written.
\<close>

theorem prep_module_args_underflow:
  assumes "module_name m = Some name" "config_ifces_cnt m > 0"
    and "\<forall>ifc \<in> set (take (config_ifces_cnt m) (config_ifces m)). \<not> listed ifc"
  shows "prep_module_args m = Undefined"
proof -
  have skip: "\<forall>ifc \<in> set ifcs. \<not> listed ifc \<Longrightarrow> d = IN_MODULE_IFC_DIRECTION \<or> d = OUT_MODULE_IFC_DIRECTION \<Longrightarrow>
      spec_ifces d ifcs sp = Ret (Some sp)" for d ifcs sp
    by (induction ifcs) (auto simp: listed_def)
  show ?thesis
    using assms skip[of "take (config_ifces_cnt m) (config_ifces m)"]
    by (simp add: prep_module_args_def ifces_specifier_def Let_def)
qed

theorem prep_module_args_underflow_witness:
  "prep_module_args (zero_module\<lparr>module_name := Some ''m'',
     config_ifces := [zero_interface\<lparr>int_ifc_direction := -1, int_ifc_type := 1\<rparr>], config_ifces_cnt := 1\<rparr>) = Undefined"
  by (rule prep_module_args_underflow) (simp_all add: listed_def ifc_consts)

end
