(* ===== verification/Service_Proc.thy ===== *)
theory Service_Proc
  imports Module_Args
begin

section \<open>Module processes: starting, checking, stopping, connecting\<close>

text \<open>
  The functions the service thread calls in every period (\<^verbatim>\<open>supervisor.c\<close>, lines 1780-2150), each as
  the body of its loop over the loaded modules. The operating system's answers are arguments:
  \<open>kill0 pid\<close> is the result of \<open>kill (pid, 0)\<close>, \<open>waitp pid\<close> of \<open>waitpid\<close>, \<open>fork_pid x\<close> the value of
  \<open>fork\<close> in the parent, \<open>conn path\<close> the result of opening a socket and connecting it to \<open>path\<close>.
  The format \<open>trap_default_socket_path_format\<close> of libtrap is the argument \<open>sock_path\<close>.
  Proved here: the process invariant and the restart-counter invariant of a module are kept by
  every body, and the behaviour of the restart limit.
\<close>

datatype kill_result = Kill_Ok | Kill_ESRCH | Kill_EPERM | Kill_Other_Errno

datatype wait_result = Wait_Alive | Wait_ECHILD | Wait_Other_Errno | Wait_Exited

datatype conn_result = Socket_Failed | Connect_Failed int | Connected int

subsection \<open>Starting a module\<close>

definition init_module_variables :: "running_module \<Rightarrow> running_module" where
  "init_module_variables m = m\<lparr>module_running := True, sent_sigint := False,
     virtual_memory_size := 0, resident_set_size := 0,
     last_period_cpu_usage_kernel_mode := 0, last_period_cpu_usage_user_mode := 0,
     last_period_percent_cpu_usage_kernel_mode := 0, last_period_percent_cpu_usage_user_mode := 0,
     module_service_sd := -1, module_service_ifc_isconnected := False, service_ifc_conn_timer := 0\<rparr>"

text \<open>The parent's side of \<open>service_start_module\<close>; the child's side is \<open>service_start_module_child\<close>.\<close>

definition service_start_module :: "(nat \<Rightarrow> int) \<Rightarrow> nat \<Rightarrow> running_module \<Rightarrow> running_module \<times> os_event list" where
  "service_start_module fork_pid x m =
     (let m1 = init_module_variables (m\<lparr>module_running := True\<rparr>);
          m2 = m1\<lparr>module_pid := fork_pid x\<rparr>
      in (if module_pid m2 = -1
          then m2\<lparr>module_status := False, module_restart_cnt := module_restart_cnt m2 + 1\<rparr>
          else (let m3 = m2\<lparr>module_is_my_child := True, module_status := True,
                            module_restart_cnt := module_restart_cnt m2 + 1\<rparr>
                in if module_restart_cnt m3 = 1 then m3\<lparr>module_restart_timer := 0\<rparr> else m3),
          [Fork x]))"

subsection \<open>Disconnecting and checking\<close>

definition close_sd :: "running_module \<Rightarrow> running_module \<times> os_event list" where
  "close_sd m = (if module_service_sd m \<noteq> -1
     then (m\<lparr>module_service_sd := -1\<rparr>, [Close (module_service_sd m)]) else (m, []))"

definition service_disconnect_from_module :: "running_module \<Rightarrow> running_module \<times> os_event list" where
  "service_disconnect_from_module m =
     (if module_service_ifc_isconnected m
      then (let (m1, es) = close_sd m
            in (m1\<lparr>module_service_ifc_isconnected := False, service_ifc_conn_timer := 0\<rparr>, es))
      else (m\<lparr>service_ifc_conn_timer := 0\<rparr>, []))"

definition check_status_body :: "(int \<Rightarrow> kill_result) \<Rightarrow> nat \<Rightarrow> running_module \<Rightarrow> running_module \<times> os_event list" where
  "check_status_body kill0 x m =
     (if 0 < module_pid m
      then (case kill0 (module_pid m) of
              Kill_Ok \<Rightarrow> (m\<lparr>module_status := True, module_root_perm_needed := False\<rparr>, [])
            | Kill_EPERM \<Rightarrow> (m\<lparr>module_root_perm_needed := True, module_status := True\<rparr>, [])
            | _ \<Rightarrow> (let (m1, es) = close_sd m
                  in (m1\<lparr>module_status := False, module_service_ifc_isconnected := False, module_pid := 0\<rparr>, es)))
      else (m, []))"

text \<open>Whether iteration \<open>x\<close> increments \<open>some_module_running\<close>.\<close>

definition check_status_counts :: "bool \<Rightarrow> (int \<Rightarrow> kill_result) \<Rightarrow> running_module \<Rightarrow> bool" where
  "check_status_counts continue_flag kill0 m \<longleftrightarrow>
     0 < module_pid m \<and>
     (case kill0 (module_pid m) of Kill_Ok \<Rightarrow> True | Kill_EPERM \<Rightarrow> continue_flag | _ \<Rightarrow> False)"

definition clean_body :: "(int \<Rightarrow> wait_result) \<Rightarrow> nat \<Rightarrow> running_module \<Rightarrow> running_module \<times> os_event list" where
  "clean_body waitp x m =
     (if 0 < module_pid m \<and> module_is_my_child m
      then (case waitp (module_pid m) of
              Wait_ECHILD \<Rightarrow> (m\<lparr>module_is_my_child := False\<rparr>, [])
            | _ \<Rightarrow> (m, []))
      else (m, []))"

subsection \<open>Stopping\<close>

text \<open>The module, or its profile, is disabled.\<close>

definition stop_wanted :: "modules_profile list \<Rightarrow> running_module \<Rightarrow> bool" where
  "stop_wanted ps m \<longleftrightarrow> profile_is_disabled ps m \<or> \<not> module_enabled m"

definition sigint_body :: "modules_profile list \<Rightarrow> nat \<Rightarrow> running_module \<Rightarrow> running_module \<times> os_event list" where
  "sigint_body ps x m =
     (if module_status m \<and> \<not> module_root_perm_needed m \<and> stop_wanted ps m \<and> \<not> sent_sigint m
      then (m\<lparr>sent_sigint := True, module_restart_cnt := -1\<rparr>, [Kill (- module_pid m) 2])
      else (m, []))"

text \<open>
  \<open>sprintf (buffer, fmt, s)\<close> into a stack buffer of \<open>n\<close> bytes: the text with its terminating zero
  must fit.
\<close>

definition sprintf_into :: "nat \<Rightarrow> string \<Rightarrow> os_event list" where
  "sprintf_into n txt = (if length txt < n then [] else [Overrun])"

definition service_sock_spec :: "running_module \<Rightarrow> string" where
  "service_sock_spec m = ''service_'' @ print_int (module_pid m)"

definition unlink_ifc_socket :: "(string \<Rightarrow> string) \<Rightarrow> interface_t \<Rightarrow> os_event list" where
  "unlink_ifc_socket sock_path ifc =
     (if int_ifc_type ifc = UNIXSOCKET_MODULE_IFC_TYPE \<and> int_ifc_direction ifc = OUT_MODULE_IFC_DIRECTION
      then (case ifc_params ifc of
              None \<Rightarrow> []
            | Some ps \<Rightarrow>
                (case fst (get_param_by_delimiter (Some ps) CHR '','') of
                   None \<Rightarrow> []
                 | Some port \<Rightarrow>
                     sprintf_into DEFAULT_SIZE_OF_BUFFER (sock_path port) @ [Unlink (sock_path port)]))
      else [])"

definition unlink_service_socket :: "(string \<Rightarrow> string) \<Rightarrow> running_module \<Rightarrow> os_event list" where
  "unlink_service_socket sock_path m =
     (if 0 < config_ifces_cnt m
      then sprintf_into 14 (service_sock_spec m) @
           sprintf_into DEFAULT_SIZE_OF_BUFFER (sock_path (service_sock_spec m)) @
           [Unlink (sock_path (service_sock_spec m))]
      else [])"

definition sigkill_body ::
  "modules_profile list \<Rightarrow> (string \<Rightarrow> string) \<Rightarrow> nat \<Rightarrow> running_module \<Rightarrow> running_module \<times> os_event list" where
  "sigkill_body ps sock_path x m =
     (if module_status m \<and> stop_wanted ps m \<and> sent_sigint m
      then (m\<lparr>module_restart_cnt := -1\<rparr>,
            [Kill (- module_pid m) 9] @
            concat (map (unlink_ifc_socket sock_path) (take (config_ifces_cnt m) (config_ifces m))) @
            unlink_service_socket sock_path m)
      else (m, []))"

subsection \<open>The restart limit\<close>

definition restart_timer_step :: "running_module \<Rightarrow> running_module" where
  "restart_timer_step m =
     (if module_restart_timer m + 1 \<ge> NUM_SERVICE_IFC_PERIODS
      then m\<lparr>module_restart_timer := 0,
             module_restart_cnt := (if module_restart_cnt m > 0 then 0 else module_restart_cnt m)\<rparr>
      else m\<lparr>module_restart_timer := module_restart_timer m + 1\<rparr>)"

definition max_restarts :: "int \<Rightarrow> running_module \<Rightarrow> int" where
  "max_restarts restarts_config m =
     (if module_max_restarts_per_minute m > -1 then module_max_restarts_per_minute m else restarts_config)"

definition update_status_body ::
  "modules_profile list \<Rightarrow> int \<Rightarrow> (nat \<Rightarrow> int) \<Rightarrow> nat \<Rightarrow> running_module \<Rightarrow> running_module \<times> os_event list" where
  "update_status_body ps restarts_config fork_pid x m =
     (let m1 = restart_timer_step m
      in if profile_is_enabled ps m1 \<and> module_enabled m1 \<and> \<not> module_status m1 \<and>
            module_restart_cnt m1 = max_restarts restarts_config m1
         then (m1\<lparr>module_enabled := False\<rparr>, [])
         else if profile_is_enabled ps m1 \<and> \<not> module_status m1 \<and> module_enabled m1
         then service_start_module fork_pid x m1
         else (m1, []))"

subsection \<open>Connecting to the service interface\<close>

text \<open>
  \<open>sizeof (sun_path)\<close> is 108 on Linux; \<open>snprintf\<close> with one byte less keeps 106 characters of the path.
\<close>

definition service_connect_to_module ::
  "(string \<Rightarrow> string) \<Rightarrow> (string \<Rightarrow> conn_result) \<Rightarrow> running_module \<Rightarrow> running_module \<times> os_event list" where
  "service_connect_to_module sock_path conn m =
     (let sun_path = take 106 (sock_path (service_sock_spec m));
          pre = sprintf_into 14 (service_sock_spec m)
      in case conn sun_path of
           Socket_Failed \<Rightarrow> (m\<lparr>module_service_ifc_isconnected := False\<rparr>, pre)
         | Connect_Failed sockfd \<Rightarrow> (m\<lparr>module_service_ifc_isconnected := False\<rparr>, pre @ [Close sockfd])
         | Connected sockfd \<Rightarrow>
             (m\<lparr>module_service_sd := sockfd, module_service_ifc_isconnected := True,
                service_ifc_conn_timer := 0\<rparr>, pre))"

definition check_connection_body ::
  "(string \<Rightarrow> string) \<Rightarrow> (string \<Rightarrow> conn_result) \<Rightarrow> nat \<Rightarrow> running_module \<Rightarrow> running_module \<times> os_event list" where
  "check_connection_body sock_path conn x m =
     (if module_status m \<and> \<not> module_service_ifc_isconnected m
      then (let m1 = m\<lparr>service_ifc_conn_timer := service_ifc_conn_timer m + 1\<rparr>
            in if service_ifc_conn_timer m1 mod 30 = 1
               then (let (m2, es) = close_sd m1; (m3, es') = service_connect_to_module sock_path conn m2
                     in (m3, es @ es'))
               else (m1, []))
      else (m, []))"

subsection \<open>The loops over the loaded modules\<close>

definition sweep :: "(nat \<Rightarrow> running_module \<Rightarrow> running_module \<times> os_event list) \<Rightarrow> sup \<Rightarrow> sup \<times> os_event list" where
  "sweep body s =
     (let (ms, es) = for_upto body 0 (loaded_modules_cnt s) (running_modules s)
      in (s\<lparr>running_modules := ms\<rparr>, es))"

definition service_check_modules_status :: "(int \<Rightarrow> kill_result) \<Rightarrow> sup \<Rightarrow> (sup \<times> os_event list) \<times> nat" where
  "service_check_modules_status kill0 s =
     (sweep (check_status_body kill0) s,
      length (filter (check_status_counts (service_thread_continue s) kill0) (loaded s)))"

definition service_clean_after_children :: "(int \<Rightarrow> wait_result) \<Rightarrow> sup \<Rightarrow> sup \<times> os_event list" where
  "service_clean_after_children waitp s = sweep (clean_body waitp) s"

definition service_stop_modules_sigint :: "sup \<Rightarrow> sup \<times> os_event list" where
  "service_stop_modules_sigint s = sweep (sigint_body (profiles s)) s"

definition service_stop_modules_sigkill :: "(string \<Rightarrow> string) \<Rightarrow> sup \<Rightarrow> sup \<times> os_event list" where
  "service_stop_modules_sigkill sock_path s = sweep (sigkill_body (profiles s) sock_path) s"

definition service_update_modules_status :: "(nat \<Rightarrow> int) \<Rightarrow> sup \<Rightarrow> sup \<times> os_event list" where
  "service_update_modules_status fork_pid s =
     sweep (update_status_body (profiles s) (module_restarts_num_config s) fork_pid) s"

definition service_check_connections ::
  "(string \<Rightarrow> string) \<Rightarrow> (string \<Rightarrow> conn_result) \<Rightarrow> sup \<Rightarrow> sup \<times> os_event list" where
  "service_check_connections sock_path conn s = sweep (check_connection_body sock_path conn) s"

subsection \<open>The module invariants\<close>

text \<open>
  A module that is reported running has a process identifier; a connected module is running and
  owns a descriptor; the restart counter never exceeds the number of periods since the timer was
  reset by more than one, so both stay far from the bounds of \<open>int\<close>.
\<close>

definition proc_ok :: "running_module \<Rightarrow> bool" where
  "proc_ok m \<longleftrightarrow> (module_status m \<longrightarrow> 0 < module_pid m) \<and>
     (module_service_ifc_isconnected m \<longrightarrow> module_status m \<and> module_service_sd m \<noteq> -1)"

definition restart_ok :: "running_module \<Rightarrow> bool" where
  "restart_ok m \<longleftrightarrow> -1 \<le> module_restart_cnt m \<and> 0 \<le> module_restart_timer m \<and>
     module_restart_timer m < NUM_SERVICE_IFC_PERIODS \<and>
     module_restart_cnt m \<le> module_restart_timer m + 1"

text \<open>The arrays of interface statistics have the recorded numbers of elements.\<close>

definition stat_cells :: "'a list option \<Rightarrow> nat" where
  "stat_cells d = (case d of None \<Rightarrow> 0 | Some xs \<Rightarrow> length xs)"

definition stats_ok :: "running_module \<Rightarrow> bool" where
  "stats_ok m \<longleftrightarrow> stat_cells (in_ifces_data m) = unat (total_in_ifces_cnt m) \<and>
     stat_cells (out_ifces_data m) = unat (total_out_ifces_cnt m)"

definition mod_ok :: "running_module \<Rightarrow> bool" where
  "mod_ok m \<longleftrightarrow> proc_ok m \<and> restart_ok m \<and> stats_ok m"

lemmas mod_ok_defs = mod_ok_def proc_ok_def restart_ok_def stats_ok_def NUM_SERVICE_IFC_PERIODS_def

text \<open>What the parent relies on of \<open>fork\<close>, and of \<open>socket\<close> and \<open>connect\<close>.\<close>

definition fork_ok :: "(nat \<Rightarrow> int) \<Rightarrow> bool" where
  "fork_ok fork_pid \<longleftrightarrow> (\<forall>x. fork_pid x = -1 \<or> 0 < fork_pid x)"

definition conn_ok :: "(string \<Rightarrow> conn_result) \<Rightarrow> bool" where
  "conn_ok conn \<longleftrightarrow> (\<forall>path fd. conn path = Connected fd \<longrightarrow> 0 \<le> fd)"

lemma mod_ok_zero [simp]: "mod_ok zero_module"
  by (simp add: mod_ok_defs zero_module_def stat_cells_def)

lemma close_sd_fst:
  "fst (close_sd m) = m\<lparr>module_service_sd := -1\<rparr>"
  by (simp add: close_sd_def)

lemma restart_ok_timer_step: "restart_ok m \<Longrightarrow> restart_ok (restart_timer_step m)"
  by (auto simp: restart_ok_def restart_timer_step_def NUM_SERVICE_IFC_PERIODS_def)

lemma restart_timer_step_le:
  "restart_ok m \<Longrightarrow> module_restart_cnt (restart_timer_step m) \<le> module_restart_timer (restart_timer_step m)"
  by (auto simp: restart_ok_def restart_timer_step_def NUM_SERVICE_IFC_PERIODS_def)

lemma restart_timer_step_fields [simp]:
  "module_status (restart_timer_step m) = module_status m"
  "module_pid (restart_timer_step m) = module_pid m"
  "module_enabled (restart_timer_step m) = module_enabled m"
  "module_profile (restart_timer_step m) = module_profile m"
  "module_service_sd (restart_timer_step m) = module_service_sd m"
  "module_service_ifc_isconnected (restart_timer_step m) = module_service_ifc_isconnected m"
  "module_max_restarts_per_minute (restart_timer_step m) = module_max_restarts_per_minute m"
  "sent_sigint (restart_timer_step m) = sent_sigint m"
  "config_ifces_cnt (restart_timer_step m) = config_ifces_cnt m"
  "config_ifces (restart_timer_step m) = config_ifces m"
  "config_ifces_arr_size (restart_timer_step m) = config_ifces_arr_size m"
  "module_name (restart_timer_step m) = module_name m"
  "remove_module (restart_timer_step m) = remove_module m"
  "init_module (restart_timer_step m) = init_module m"
  "module_served_by_service_thread (restart_timer_step m) = module_served_by_service_thread m"
  "module_root_perm_needed (restart_timer_step m) = module_root_perm_needed m"
  "in_ifces_data (restart_timer_step m) = in_ifces_data m"
  "out_ifces_data (restart_timer_step m) = out_ifces_data m"
  "total_in_ifces_cnt (restart_timer_step m) = total_in_ifces_cnt m"
  "total_out_ifces_cnt (restart_timer_step m) = total_out_ifces_cnt m"
  by (simp_all add: restart_timer_step_def)

lemma profile_step [simp]: "profile_is_enabled ps (restart_timer_step m) = profile_is_enabled ps m"
  "max_restarts cfg (restart_timer_step m) = max_restarts cfg m"
  by (simp_all add: profile_is_enabled_def profile_ref_def max_restarts_def)

lemma start_mod_ok:
  assumes "fork_ok fork_pid" "restart_ok m" "stats_ok m" "module_restart_cnt m \<le> module_restart_timer m"
  shows "mod_ok (fst (service_start_module fork_pid x m))"
  using assms spec[OF assms(1)[unfolded fork_ok_def], of x]
  by (auto simp: mod_ok_defs service_start_module_def init_module_variables_def Let_def)

interpretation check_sweep: element_sweep "check_status_body kill0" mod_ok for kill0
  by unfold_locales
    (auto simp: check_status_body_def mod_ok_defs close_sd_def Let_def split: kill_result.splits)

interpretation clean_sweep: element_sweep "clean_body waitp" mod_ok for waitp
  by unfold_locales (auto simp: clean_body_def mod_ok_defs split: wait_result.splits)

interpretation sigint_sweep: element_sweep "sigint_body ps" mod_ok for ps
  by unfold_locales (auto simp: sigint_body_def mod_ok_defs)

interpretation sigkill_sweep: element_sweep "sigkill_body ps sock_path" mod_ok for ps sock_path
  by unfold_locales (auto simp: sigkill_body_def mod_ok_defs)

interpretation update_sweep: element_sweep "update_status_body ps cfg fork_pid"
    "\<lambda>m. fork_ok fork_pid \<longrightarrow> mod_ok m" for ps cfg fork_pid
proof
  fix m x
  assume ok: "fork_ok fork_pid \<longrightarrow> mod_ok m"
  show "fork_ok fork_pid \<longrightarrow> mod_ok (fst (update_status_body ps cfg fork_pid x m))"
  proof
    assume f: "fork_ok fork_pid"
    with ok have m: "mod_ok m" by simp
    then have r: "restart_ok (restart_timer_step m)" and p: "proc_ok (restart_timer_step m)"
        and st: "stats_ok (restart_timer_step m)"
      by (auto simp: mod_ok_def proc_ok_def stats_ok_def intro: restart_ok_timer_step)
    have s: "mod_ok (fst (service_start_module fork_pid x (restart_timer_step m)))"
      using start_mod_ok[OF f r st] restart_timer_step_le m by (simp add: mod_ok_def)
    from r p s st show "mod_ok (fst (update_status_body ps cfg fork_pid x m))"
      by (auto simp: update_status_body_def Let_def mod_ok_def proc_ok_def restart_ok_def stats_ok_def)
  qed
qed

interpretation connection_sweep: element_sweep "check_connection_body sock_path conn"
    "\<lambda>m. conn_ok conn \<longrightarrow> mod_ok m" for sock_path conn
  by unfold_locales
    (force simp: check_connection_body_def mod_ok_defs service_connect_to_module_def close_sd_def
      conn_ok_def Let_def split: conn_result.splits if_splits)

interpretation disconnect_sweep: element_sweep "\<lambda>x. service_disconnect_from_module" mod_ok
  by unfold_locales (auto simp: service_disconnect_from_module_def mod_ok_defs close_sd_def Let_def)

subsection \<open>How the restart limit works\<close>

text \<open>
  Two consecutive steps of a period seen by a module whose process always exits before the next
  status check: the check finds it gone, the update restarts it or disables it.
\<close>

definition crash_period ::
  "modules_profile list \<Rightarrow> int \<Rightarrow> (nat \<Rightarrow> int) \<Rightarrow> nat \<Rightarrow> running_module \<Rightarrow> running_module" where
  "crash_period ps cfg fork_pid x m =
     fst (update_status_body ps cfg fork_pid x (fst (check_status_body (\<lambda>pid. Kill_ESRCH) x m)))"

definition gone :: "running_module \<Rightarrow> running_module" where
  "gone m = fst (check_status_body (\<lambda>pid. Kill_ESRCH) 0 m)"

lemma gone_fields [simp]:
  "module_enabled (gone m) = module_enabled m"
  "module_restart_cnt (gone m) = module_restart_cnt m"
  "module_restart_timer (gone m) = module_restart_timer m"
  "profile_is_enabled ps (gone m) = profile_is_enabled ps m"
  "max_restarts cfg (gone m) = max_restarts cfg m"
  by (simp_all add: gone_def check_status_body_def close_sd_def profile_is_enabled_def profile_ref_def max_restarts_def)

lemma gone_status: "mod_ok m \<Longrightarrow> \<not> module_status (gone m)"
  by (auto simp: gone_def check_status_body_def close_sd_def mod_ok_defs)

lemma crash_period_gone:
  "crash_period ps cfg fork_pid x m = fst (update_status_body ps cfg fork_pid x (gone m))"
  by (simp add: crash_period_def gone_def check_status_body_def)

lemma mod_ok_gone: "mod_ok m \<Longrightarrow> mod_ok (gone m)"
  unfolding gone_def by (rule check_sweep.body_inv)

lemma start_fields:
  assumes "0 < fork_pid x"
  shows "module_enabled (fst (service_start_module fork_pid x m)) = module_enabled m"
    "module_restart_cnt (fst (service_start_module fork_pid x m)) = module_restart_cnt m + 1"
    "module_restart_timer (fst (service_start_module fork_pid x m)) =
       (if module_restart_cnt m = 0 then 0 else module_restart_timer m)"
    "profile_is_enabled ps (fst (service_start_module fork_pid x m)) = profile_is_enabled ps m"
    "max_restarts cfg (fst (service_start_module fork_pid x m)) = max_restarts cfg m"
  using assms by (simp_all add: service_start_module_def init_module_variables_def Let_def
      profile_is_enabled_def profile_ref_def max_restarts_def)

text \<open>A module the limit applies to after \<open>k + 1\<close> starts.\<close>

definition started :: "modules_profile list \<Rightarrow> int \<Rightarrow> int \<Rightarrow> nat \<Rightarrow> running_module \<Rightarrow> bool" where
  "started ps cfg n k m \<longleftrightarrow> mod_ok m \<and> module_enabled m \<and> profile_is_enabled ps m \<and>
     max_restarts cfg m = n \<and> module_restart_cnt m = int k \<and> (0 < k \<longrightarrow> module_restart_timer m = int k - 1)"

lemma crash_period_ok: "fork_ok fork_pid \<Longrightarrow> mod_ok m \<Longrightarrow> mod_ok (crash_period ps cfg fork_pid x m)"
  unfolding crash_period_gone using update_sweep.body_inv mod_ok_gone by blast

lemma crash_period_starts:
  assumes "module_enabled m" "profile_is_enabled ps m" "mod_ok m"
    and "module_restart_cnt (restart_timer_step (gone m)) \<noteq> max_restarts cfg m"
  shows "crash_period ps cfg fork_pid x m = fst (service_start_module fork_pid x (restart_timer_step (gone m)))"
  using assms gone_status[OF assms(3)] by (simp add: crash_period_gone update_status_body_def Let_def)

lemma crash_period_first:
  assumes "fork_ok fork_pid" "0 < fork_pid x" "mod_ok m" "module_enabled m" "profile_is_enabled ps m"
    "module_restart_cnt m = -1" "max_restarts cfg m = n" "0 \<le> n"
  shows "started ps cfg n 0 (crash_period ps cfg fork_pid x m)"
proof -
  have c: "module_restart_cnt (restart_timer_step (gone m)) = -1"
    using assms by (simp add: restart_timer_step_def)
  then have "crash_period ps cfg fork_pid x m = fst (service_start_module fork_pid x (restart_timer_step (gone m)))"
    using assms by (intro crash_period_starts) auto
  moreover from this have "mod_ok (fst (service_start_module fork_pid x (restart_timer_step (gone m))))"
    using crash_period_ok[OF assms(1,3)] by metis
  ultimately show ?thesis using c assms by (simp add: started_def start_fields)
qed

lemma timer_step_started:
  assumes "started ps cfg n k m" "k < 30"
  shows "module_restart_cnt (restart_timer_step (gone m)) = int k"
    "0 < k \<Longrightarrow> module_restart_timer (restart_timer_step (gone m)) = int k"
  using assms by (auto simp: started_def restart_timer_step_def NUM_SERVICE_IFC_PERIODS_def)

lemma crash_period_next:
  assumes "fork_ok fork_pid" "0 < fork_pid x" "started ps cfg n k m" "int k < n" "n < 30"
  shows "started ps cfg n (Suc k) (crash_period ps cfg fork_pid x m)"
proof -
  have k: "k < 30" using assms by simp
  have "crash_period ps cfg fork_pid x m = fst (service_start_module fork_pid x (restart_timer_step (gone m)))"
    using assms timer_step_started[OF assms(3) k] by (intro crash_period_starts) (auto simp: started_def)
  moreover from this have "mod_ok (fst (service_start_module fork_pid x (restart_timer_step (gone m))))"
    using crash_period_ok[OF assms(1)] assms(3) unfolding started_def by metis
  ultimately show ?thesis using timer_step_started[OF assms(3) k] assms
    by (auto simp: started_def start_fields)
qed

lemma crash_period_last:
  assumes "started ps cfg (int k) k m" "k < 30"
  shows "\<not> module_enabled (crash_period ps cfg fork_pid x m)"
  using assms timer_step_started[OF assms] gone_status[of m]
  by (simp add: started_def crash_period_gone update_status_body_def Let_def)

lemma crash_period_disabled:
  "\<not> module_enabled m \<Longrightarrow> \<not> module_enabled (crash_period ps cfg fork_pid x m)"
  by (simp add: crash_period_gone update_status_body_def Let_def)

lemma crash_period_no_limit:
  assumes "mod_ok m" "module_enabled m" "30 \<le> max_restarts cfg m"
  shows "module_enabled (crash_period ps cfg fork_pid x m)"
    "max_restarts cfg (crash_period ps cfg fork_pid x m) = max_restarts cfg m"
proof -
  have r: "restart_ok (gone m)" using assms mod_ok_gone by (simp add: mod_ok_def)
  have c: "module_restart_cnt (restart_timer_step (gone m)) < 30"
    using restart_timer_step_le[OF r] restart_ok_timer_step[OF r]
    by (simp add: restart_ok_def NUM_SERVICE_IFC_PERIODS_def)
  have "max_restarts cfg (fst (service_start_module fork_pid x m')) = max_restarts cfg m'"
    "module_enabled (fst (service_start_module fork_pid x m')) = module_enabled m'" for m'
    by (simp_all add: service_start_module_def init_module_variables_def max_restarts_def Let_def)
  with c assms show "module_enabled (crash_period ps cfg fork_pid x m)"
    "max_restarts cfg (crash_period ps cfg fork_pid x m) = max_restarts cfg m"
    by (auto simp add: crash_period_gone update_status_body_def Let_def)
qed

lemma crash_periods_started:
  assumes "fork_ok fork_pid" "0 < fork_pid x" "mod_ok m" "module_enabled m" "profile_is_enabled ps m"
    "module_restart_cnt m = -1" "max_restarts cfg m = n" "n < 30" "int k \<le> n"
  shows "started ps cfg n k ((crash_period ps cfg fork_pid x ^^ Suc k) m)"
  using assms(9)
proof (induction k)
  case 0
  then show ?case using crash_period_first[OF assms(1-7)] by simp
next
  case (Suc k)
  then show ?case using crash_period_next[OF assms(1,2) Suc.IH] assms(8) by simp
qed


definition crashing_module :: running_module where
  "crashing_module = zero_module\<lparr>module_name := Some ''m'', module_enabled := True,
     module_profile := Some 0, module_restart_cnt := -1, module_max_restarts_per_minute := 3\<rparr>"


text \<open>
  A limit of 30 restarts per minute (the largest the configuration is documented to allow, and
  every larger one) has no effect: the timer clears the counter after 30 periods, before the
  counter can equal the limit, so the module stays enabled however often it exits.
\<close>

theorem restart_limit_30_never_disables:
  assumes "fork_ok fork_pid" "mod_ok m" "module_enabled m" "30 \<le> max_restarts cfg m"
  shows "module_enabled ((crash_period ps cfg fork_pid x ^^ k) m)"
proof -
  let ?p = "crash_period ps cfg fork_pid x"
  have "mod_ok ((?p ^^ k) m) \<and> module_enabled ((?p ^^ k) m) \<and> 30 \<le> max_restarts cfg ((?p ^^ k) m)"
  proof (induction k)
    case (Suc k)
    then show ?case
      using crash_period_ok[OF assms(1)] crash_period_no_limit by simp
  qed (use assms in simp)
  then show ?thesis by simp
qed

theorem restart_limit_30_never_disables_witness:
  "module_enabled ((crash_period [] 3 (\<lambda>x. 100) 0 ^^ 1000)
     (crashing_module\<lparr>module_max_restarts_per_minute := 30\<rparr>))"
  by (rule restart_limit_30_never_disables)
    (simp_all add: fork_ok_def crashing_module_def mod_ok_defs stat_cells_def zero_module_def max_restarts_def)

text \<open>
  Connecting to the service interface of a running module writes past the 14 bytes of
  \<open>service_sock_spec\<close> exactly when the process identifier has more than five digits.
\<close>

theorem service_sock_spec_fits:
  assumes "0 < module_pid m"
  shows "Overrun \<in> set (snd (service_connect_to_module sock_path conn m)) \<longleftrightarrow> 100000 \<le> module_pid m"
proof -
  have "length (service_sock_spec m) < 14 \<longleftrightarrow> length (print_nat (nat (module_pid m))) \<le> 5"
    using assms by (auto simp: service_sock_spec_def print_int_def)
  also have "\<dots> \<longleftrightarrow> module_pid m < 100000"
    using assms by (simp add: length_print_nat_le nat_less_iff)
  finally show ?thesis
    by (auto simp: service_connect_to_module_def sprintf_into_def Let_def split: conn_result.splits)
qed

theorem service_sock_spec_fits_witness:
  "Overrun \<in> set (snd (service_connect_to_module (\<lambda>s. s) (\<lambda>p. Socket_Failed) (zero_module\<lparr>module_pid := 123456\<rparr>))) \<and>
   Overrun \<notin> set (snd (service_connect_to_module (\<lambda>s. s) (\<lambda>p. Socket_Failed) (zero_module\<lparr>module_pid := 12345\<rparr>)))"
  using service_sock_spec_fits[of "zero_module\<lparr>module_pid := 123456\<rparr>" "\<lambda>s. s" "\<lambda>p. Socket_Failed"]
    service_sock_spec_fits[of "zero_module\<lparr>module_pid := 12345\<rparr>" "\<lambda>s. s" "\<lambda>p. Socket_Failed"]
  by simp

end
