(* ===== verification/Module_Array.thy ===== *)
theory Module_Array
  imports Service_Proc
begin

section \<open>The arrays of modules and interfaces: growing, searching, removing\<close>

text \<open>
  The global array \<open>running_modules\<close> with its count and allocated size, and the interface array of
  a module. Modelled: the two functions that grow them (both meet the contract \<open>growable\<close>), the
  search by name, the removal that shifts the rest of the array down, and the loop of the service
  thread that serves modules marked by a reload or a restart. Proved: every write the reload makes
  at the current count is inside the array, removal keeps all other modules in order, and the
  serving loop only drops stopped modules that are marked for removal.
\<close>

subsection \<open>Growing\<close>

text \<open>
  A slot the program has just allocated: zeroed memory with an interface array of the initial size.
\<close>

definition fresh_module :: running_module where
  "fresh_module = zero_module\<lparr>config_ifces := replicate IFCES_ARRAY_START_SIZE zero_interface,
     config_ifces_arr_size := IFCES_ARRAY_START_SIZE\<rparr>"

definition check_running_modules_allocated_memory :: "sup \<Rightarrow> sup" where
  "check_running_modules_allocated_memory s =
     (if running_modules_array_size s = 0
      then s\<lparr>loaded_modules_cnt := 0, running_modules_array_size := RUNNING_MODULES_ARRAY_START_SIZE,
             running_modules := replicate RUNNING_MODULES_ARRAY_START_SIZE fresh_module\<rparr>
      else if loaded_modules_cnt s = running_modules_array_size s
      then (let origin_size = running_modules_array_size s
            in s\<lparr>running_modules_array_size := origin_size + origin_size div 2,
                 running_modules := running_modules s @ replicate (origin_size div 2) fresh_module\<rparr>)
      else s)"

definition reload_check_module_allocated_interfaces :: "nat \<Rightarrow> running_module \<Rightarrow> running_module" where
  "reload_check_module_allocated_interfaces ifc_cnt m =
     (if config_ifces_arr_size m = 0
      then m\<lparr>config_ifces := replicate IFCES_ARRAY_START_SIZE zero_interface,
             config_ifces_arr_size := IFCES_ARRAY_START_SIZE, config_ifces_cnt := 0\<rparr>
      else if ifc_cnt = config_ifces_arr_size m
      then (let origin_size = config_ifces_arr_size m
            in m\<lparr>config_ifces_arr_size := origin_size + origin_size div 2,
                 config_ifces := config_ifces m @ replicate (origin_size div 2) zero_interface\<rparr>)
      else m)"

definition modules_arr_ok :: "sup \<Rightarrow> bool" where
  "modules_arr_ok s \<longleftrightarrow> length (running_modules s) = running_modules_array_size s \<and>
     loaded_modules_cnt s \<le> running_modules_array_size s \<and> size_ok (running_modules_array_size s)"

definition ifces_arr_ok :: "running_module \<Rightarrow> bool" where
  "ifces_arr_ok m \<longleftrightarrow> length (config_ifces m) = config_ifces_arr_size m \<and> size_ok (config_ifces_arr_size m)"

interpretation modules_arr: growable loaded_modules_cnt running_modules
    check_running_modules_allocated_memory modules_arr_ok
  by unfold_locales
    (auto simp: modules_arr_ok_def size_ok_def check_running_modules_allocated_memory_def
      RUNNING_MODULES_ARRAY_START_SIZE_def Let_def)

interpretation ifces_arr: growable fst "\<lambda>st. config_ifces (snd st)"
    "\<lambda>st. (fst st, reload_check_module_allocated_interfaces (fst st) (snd st))"
    "\<lambda>st. ifces_arr_ok (snd st) \<and> fst st \<le> config_ifces_arr_size (snd st)"
  by unfold_locales
    (auto simp: ifces_arr_ok_def size_ok_def reload_check_module_allocated_interfaces_def
      IFCES_ARRAY_START_SIZE_def Let_def)

subsection \<open>Searching\<close>

text \<open>
  \<open>find_loaded_module\<close>: the index of the first loaded module of that name, \<open>None\<close> for \<open>-1\<close>. Loaded
  modules have names (part of \<open>wf_sup\<close>), so \<open>strcmp\<close> never sees \<open>NULL\<close>.
\<close>

fun find_from :: "nat \<Rightarrow> running_module list \<Rightarrow> string \<Rightarrow> nat option" where
  "find_from x [] nm = None"
| "find_from x (m # ms) nm = (if module_name m = Some nm then Some x else find_from (Suc x) ms nm)"

definition find_loaded_module :: "sup \<Rightarrow> string \<Rightarrow> nat option" where
  "find_loaded_module s nm = find_from 0 (loaded s) nm"

lemma find_from_Some:
  "find_from x ms nm = Some y \<Longrightarrow> x \<le> y \<and> y - x < length ms \<and> module_name (ms ! (y - x)) = Some nm"
proof (induction x ms nm rule: find_from.induct)
  case (2 x m ms nm)
  show ?case
  proof (cases "module_name m = Some nm")
    case False
    with 2 have "Suc x \<le> y \<and> y - Suc x < length ms \<and> module_name (ms ! (y - Suc x)) = Some nm" by simp
    moreover from this have "y - x = Suc (y - Suc x)" by linarith
    ultimately show ?thesis by simp
  qed (use 2 in simp)
qed simp

lemma find_from_None: "find_from x ms nm = None \<longleftrightarrow> Some nm \<notin> module_name ` set ms"
  by (induction x ms nm rule: find_from.induct) auto

lemma find_loaded_module_Some:
  assumes "find_loaded_module s nm = Some x"
  shows "x < length (loaded s)" "module_name (loaded s ! x) = Some nm"
  using find_from_Some[of 0 "loaded s" nm x] assms by (auto simp: find_loaded_module_def)

lemma find_loaded_module_None:
  "find_loaded_module s nm = None \<longleftrightarrow> Some nm \<notin> module_name ` set (loaded s)"
  by (simp add: find_loaded_module_def find_from_None)

subsection \<open>Removing\<close>

text \<open>
  \<open>free_module_on_index\<close>: the freed strings become \<open>NULL\<close>; the pointers to the interface statistics
  are freed without being reset.
\<close>

definition free_ifc :: "interface_t \<Rightarrow> interface_t" where
  "free_ifc ifc = ifc\<lparr>ifc_note := None, ifc_type := None, ifc_direction := None, ifc_params := None\<rparr>"

definition free_module_interfaces_on_index :: "running_module \<Rightarrow> running_module" where
  "free_module_interfaces_on_index m =
     m\<lparr>config_ifces := map free_ifc (take (config_ifces_cnt m) (config_ifces m)) @
                       drop (config_ifces_cnt m) (config_ifces m)\<rparr>"

definition free_module_on_index :: "running_module \<Rightarrow> running_module" where
  "free_module_on_index m =
     (free_module_interfaces_on_index m)\<lparr>config_ifces := [], module_path := None, module_name := None,
        module_params := None, total_in_ifces_cnt := 0, total_out_ifces_cnt := 0\<rparr>"

text \<open>\<open>for (y = y0; y < y0 + k; y++) memcpy (&a[y], &a[y + 1], \<dots>)\<close>.\<close>

fun shift_down :: "nat \<Rightarrow> nat \<Rightarrow> 'm list \<Rightarrow> 'm list" where
  "shift_down y 0 ms = ms"
| "shift_down y (Suc k) ms = shift_down (Suc y) k (ms[y := ms ! Suc y])"

definition free_module_and_shift_array :: "nat \<Rightarrow> sup \<Rightarrow> sup" where
  "free_module_and_shift_array idx s =
     (let freed = (free_module_on_index (running_modules s ! idx))\<lparr>config_ifces_cnt := 0, config_ifces_arr_size := 0\<rparr>;
          ms1 = (running_modules s)[idx := freed];
          ms2 = shift_down idx (loaded_modules_cnt s - 1 - idx) ms1;
          cnt = loaded_modules_cnt s - 1
      in s\<lparr>running_modules := ms2[cnt := zero_module], loaded_modules_cnt := cnt\<rparr>)"

lemma length_shift_down [simp]: "length (shift_down y k ms) = length ms"
  by (induction y k ms rule: shift_down.induct) auto

lemma shift_down_nth:
  "y + k < length ms \<Longrightarrow> i < length ms \<Longrightarrow>
     shift_down y k ms ! i = (if y \<le> i \<and> i < y + k then ms ! Suc i else ms ! i)"
proof (induction y k ms rule: shift_down.induct)
  case (2 y k ms)
  then show ?case by (auto simp: nth_list_update)
qed auto

text \<open>Removing an element of a list.\<close>

definition without :: "nat \<Rightarrow> 'a list \<Rightarrow> 'a list" where
  "without idx xs = take idx xs @ drop (Suc idx) xs"

lemma length_without: "idx < length xs \<Longrightarrow> length (without idx xs) = length xs - 1"
  by (simp add: without_def)

lemma without_nth:
  "idx < length xs \<Longrightarrow> i < length xs - 1 \<Longrightarrow> without idx xs ! i = (if i < idx then xs ! i else xs ! Suc i)"
  by (auto simp: without_def nth_append min_def)

lemma set_without: "set (without idx xs) \<subseteq> set xs"
  by (auto simp: without_def dest: in_set_takeD in_set_dropD)

lemma map_without: "map f (without idx xs) = without idx (map f xs)"
  by (simp add: without_def take_map drop_map)

lemma without_cases:
  obtains "without idx xs = xs" | a x b where "xs = a @ x # b" "without idx xs = a @ b"
  using id_take_nth_drop[of idx xs] by (cases "idx < length xs") (auto simp: without_def)

lemma without_subseq: "subseq (without idx xs) xs"
  by (rule without_cases[of idx xs]) (auto intro: list_emb_append_mono list_emb_Cons)

lemma distinct_without: "distinct xs \<Longrightarrow> distinct (without idx xs)"
  by (rule without_cases[of idx xs]) auto

lemma shift_array_loaded:
  assumes "wf_sup s" "idx < loaded_modules_cnt s"
  shows "loaded (free_module_and_shift_array idx s) = without idx (loaded s)"
proof (rule nth_equalityI)
  have len: "loaded_modules_cnt s \<le> length (running_modules s)"
    using assms by (simp add: wf_sup_def)
  have lw: "length (without idx (loaded s)) = loaded_modules_cnt s - 1"
    using assms by (simp add: length_without)
  show "length (loaded (free_module_and_shift_array idx s)) = length (without idx (loaded s))"
    using len lw by (simp add: loaded_def free_module_and_shift_array_def Let_def)
  fix i
  assume "i < length (loaded (free_module_and_shift_array idx s))"
  then have i: "i < loaded_modules_cnt s - 1"
    using len by (simp add: loaded_def free_module_and_shift_array_def Let_def)
  with len assms(2) show "loaded (free_module_and_shift_array idx s) ! i = without idx (loaded s) ! i"
    using without_nth[of idx "loaded s" i] length_loaded[OF assms(1)]
    by (auto simp: loaded_def free_module_and_shift_array_def Let_def shift_down_nth)
qed

lemma shift_array_fields [simp]:
  "loaded_modules_cnt (free_module_and_shift_array idx s) = loaded_modules_cnt s - 1"
  "profiles (free_module_and_shift_array idx s) = profiles s"
  "loaded_profile_cnt (free_module_and_shift_array idx s) = loaded_profile_cnt s"
  "running_modules_array_size (free_module_and_shift_array idx s) = running_modules_array_size s"
  "length (running_modules (free_module_and_shift_array idx s)) = length (running_modules s)"
  "service_thread_continue (free_module_and_shift_array idx s) = service_thread_continue s"
  "service_stop_all_modules (free_module_and_shift_array idx s) = service_stop_all_modules s"
  "module_restarts_num_config (free_module_and_shift_array idx s) = module_restarts_num_config s"
  "last_total_cpu (free_module_and_shift_array idx s) = last_total_cpu s"
  by (simp_all add: free_module_and_shift_array_def Let_def)

lemma shift_array_all:
  assumes "wf_sup s" "idx < loaded_modules_cnt s" "\<forall>m \<in> set (running_modules s). P m" "P zero_module"
  shows "\<forall>m \<in> set (running_modules (free_module_and_shift_array idx s)). P m"
proof -
  let ?s = "free_module_and_shift_array idx s"
  let ?n = "loaded_modules_cnt s"
  have len: "?n \<le> length (running_modules s)" using assms by (simp add: wf_sup_def)
  have "P (running_modules ?s ! i)" if i: "i < length (running_modules s)" for i
  proof (cases "i < ?n - 1")
    case True
    then have "running_modules ?s ! i = without idx (loaded s) ! i"
      using shift_array_loaded[OF assms(1,2)] loaded_nth[of i ?s] by simp
    moreover have "without idx (loaded s) ! i \<in> set (running_modules s)"
      using True set_without[of idx "loaded s"] assms length_without[of idx "loaded s"]
      by (metis in_set_takeD length_loaded loaded_def nth_mem subsetD)
    ultimately show ?thesis using assms(3) by simp
  next
    case False
    with i len assms have "running_modules ?s ! i = zero_module \<or> running_modules ?s ! i = running_modules s ! i"
      by (auto simp: free_module_and_shift_array_def Let_def nth_list_update shift_down_nth)
    with assms(3,4) i show ?thesis by auto
  qed
  then show ?thesis by (simp add: all_set_conv_all_nth)
qed

lemma wf_sup_shift_array:
  assumes "wf_sup s" "idx < loaded_modules_cnt s"
  shows "wf_sup (free_module_and_shift_array idx s)"
proof -
  let ?s = "free_module_and_shift_array idx s"
  have l: "loaded ?s = without idx (loaded s)" by (rule shift_array_loaded[OF assms])
  have all: "\<forall>m \<in> set (running_modules ?s). wf_ifces m \<and> wf_profile (length (profiles s)) m"
    using assms by (intro shift_array_all) (auto simp: wf_sup_def list_all_iff wf_ifces_def wf_profile_def zero_module_def size_ok_def)
  have "list_all (\<lambda>m. module_name m \<noteq> None) (loaded ?s)"
    using assms(1) set_without[of idx "loaded s"] unfolding l by (auto simp: wf_sup_def list_all_iff)
  moreover have "distinct (map module_name (loaded ?s))"
    using assms(1) unfolding l map_without by (intro distinct_without) (simp add: wf_sup_def)
  ultimately show ?thesis
    using assms all by (auto simp: wf_sup_def list_all_iff)
qed

subsection \<open>Serving modules marked by a reload or a restart\<close>

definition set_module :: "nat \<Rightarrow> running_module \<Rightarrow> sup \<Rightarrow> sup" where
  "set_module y m s = s\<lparr>running_modules := (running_modules s)[y := m]\<rparr>"

text \<open>One iteration of the loop in \<open>service_thread_routine\<close>.\<close>

definition serve_module :: "nat \<Rightarrow> sup \<Rightarrow> sup \<times> os_event list" where
  "serve_module y s =
     (let m = running_modules s ! y
      in if \<not> module_served_by_service_thread m
         then (if remove_module m
               then (if \<not> module_status m then (free_module_and_shift_array y s, []) else (s, []))
               else if init_module m
               then (if \<not> module_status m
                     then (set_module y (m\<lparr>module_enabled := True, module_restart_cnt := -1,
                             init_module := False, module_served_by_service_thread := True\<rparr>) s, [])
                     else (let (m1, es) = service_disconnect_from_module m in (set_module y m1 s, es)))
               else (set_module y (m\<lparr>module_served_by_service_thread := True\<rparr>) s, []))
         else (s, []))"

lemma serve_module_cnt: "loaded_modules_cnt (fst (serve_module y s)) \<le> loaded_modules_cnt s"
  by (auto simp: serve_module_def set_module_def Let_def split: prod.splits)

text \<open>
  \<open>for (y = 0; y < loaded_modules_cnt; y++)\<close>: the bound is read again in every iteration, and after a
  removal the module that moved to position \<open>y\<close> is passed over until the next period.
\<close>

function serve_loop :: "nat \<Rightarrow> sup \<Rightarrow> sup \<times> os_event list" where
  "serve_loop y s =
     (if y < loaded_modules_cnt s
      then (let (s1, es1) = serve_module y s; (s2, es2) = serve_loop (Suc y) s1 in (s2, es1 @ es2))
      else (s, []))"
  by pat_completeness auto

termination
proof (relation "measure (\<lambda>(y, s). loaded_modules_cnt s - y)")
  fix y s p s1 es1
  assume "y < loaded_modules_cnt s" "p = serve_module y s" "(s1, es1) = p"
  with serve_module_cnt[of y s] show "((Suc y, s1), y, s) \<in> measure (\<lambda>(y, s). loaded_modules_cnt s - y)"
    by (cases "serve_module y s") auto
qed simp

declare serve_loop.simps [simp del]

lemma serve_loop_unfold:
  "fst (serve_loop y s) = (if y < loaded_modules_cnt s then fst (serve_loop (Suc y) (fst (serve_module y s))) else s)"
  "snd (serve_loop y s) = (if y < loaded_modules_cnt s
     then snd (serve_module y s) @ snd (serve_loop (Suc y) (fst (serve_module y s))) else [])"
  by (subst serve_loop.simps, simp add: Let_def split: prod.split)+

text \<open>Induction over the loop for a property every iteration keeps.\<close>

lemma serve_loop_keeps:
  assumes step: "\<And>y s. P s \<Longrightarrow> y < loaded_modules_cnt s \<Longrightarrow> P (fst (serve_module y s))"
  shows "P s \<Longrightarrow> P (fst (serve_loop y s))"
proof (induction y s rule: serve_loop.induct)
  case (1 y s)
  then show ?case
    using step by (subst serve_loop_unfold) (auto simp: prod_eq_iff)
qed

text \<open>
  Replacing a module by one with the same name, interfaces and profile keeps a state well-formed.
\<close>

definition same_shape :: "running_module \<Rightarrow> running_module \<Rightarrow> bool" where
  "same_shape m m' \<longleftrightarrow> module_name m' = module_name m \<and> module_profile m' = module_profile m \<and>
     config_ifces m' = config_ifces m \<and> config_ifces_cnt m' = config_ifces_cnt m \<and>
     config_ifces_arr_size m' = config_ifces_arr_size m"

lemma same_shape_refl [simp]: "same_shape m m"
  by (simp add: same_shape_def)

lemma same_shape_trans [trans]: "same_shape a b \<Longrightarrow> same_shape b c \<Longrightarrow> same_shape a c"
  by (simp add: same_shape_def)

lemma wf_sup_same_shape:
  assumes "wf_sup s" "list_all2 same_shape (running_modules s) ms"
  shows "wf_sup (s\<lparr>running_modules := ms\<rparr>)"
proof -
  let ?s = "s\<lparr>running_modules := ms\<rparr>"
  have len: "length ms = length (running_modules s)" using assms(2) by (simp add: list_all2_lengthD)
  have shape: "same_shape (running_modules s ! i) (ms ! i)" if "i < length ms" for i
    using assms(2) that len by (simp add: list_all2_conv_all_nth)
  have names: "map module_name (loaded ?s) = map module_name (loaded s)"
    using shape len by (intro nth_equalityI) (auto simp: loaded_def same_shape_def)
  have each: "wf_ifces m \<and> wf_profile (length (profiles s)) m" if m: "m \<in> set ms" for m
  proof -
    obtain i where i: "i < length ms" "m = ms ! i" using m by (auto simp: in_set_conv_nth)
    then have "running_modules s ! i \<in> set (running_modules s)" using len by simp
    with assms(1) have "wf_ifces (running_modules s ! i)" "wf_profile (length (profiles s)) (running_modules s ! i)"
      by (auto simp: wf_sup_def list_all_iff)
    with shape[OF i(1)] i(2) show ?thesis by (simp add: wf_ifces_def wf_profile_def same_shape_def)
  qed
  have "list_all (\<lambda>m. module_name m \<noteq> None) (loaded ?s) = list_all (\<lambda>n. n \<noteq> None) (map module_name (loaded s))"
    unfolding names [symmetric] by (simp add: list_all_iff)
  with assms(1) names len each show ?thesis
    by (auto simp: wf_sup_def list_all_iff)
qed

text \<open>A stopped module a reload has marked for removal and the service thread has not served yet.\<close>

definition removal_pending :: "running_module \<Rightarrow> bool" where
  "removal_pending m \<longleftrightarrow> \<not> module_served_by_service_thread m \<and> remove_module m \<and> \<not> module_status m"

lemma disconnect_fst:
  "fst (service_disconnect_from_module m) =
     (if module_service_ifc_isconnected m
      then m\<lparr>module_service_sd := -1, module_service_ifc_isconnected := False, service_ifc_conn_timer := 0\<rparr>
      else m\<lparr>service_ifc_conn_timer := 0\<rparr>)"
  by (simp add: service_disconnect_from_module_def close_sd_def Let_def)

lemma serve_module_cases:
  obtains (removed) "removal_pending (running_modules s ! y)" "fst (serve_module y s) = free_module_and_shift_array y s"
  | (kept) m' where "\<not> removal_pending (running_modules s ! y)" "fst (serve_module y s) = set_module y m' s"
      "same_shape (running_modules s ! y) m'" "\<not> removal_pending m'"
      "mod_ok (running_modules s ! y) \<Longrightarrow> mod_ok m'" "module_pid m' = module_pid (running_modules s ! y)"
      "sent_sigint m' = sent_sigint (running_modules s ! y)"
proof (cases "removal_pending (running_modules s ! y)")
  case True
  then show ?thesis
    using removed by (simp add: serve_module_def Let_def removal_pending_def)
next
  case False
  define m where "m = running_modules s ! y"
  consider (same) "module_served_by_service_thread m \<or> remove_module m"
    | (init) "\<not> module_served_by_service_thread m" "\<not> remove_module m" "init_module m" "\<not> module_status m"
    | (disc) "\<not> module_served_by_service_thread m" "\<not> remove_module m" "init_module m" "module_status m"
    | (plain) "\<not> module_served_by_service_thread m" "\<not> remove_module m" "\<not> init_module m"
    by blast
  then show ?thesis
  proof cases
    case same
    with False show ?thesis
      by (intro kept[of m]) (auto simp: serve_module_def Let_def removal_pending_def m_def set_module_def)
  next
    case init
    with False show ?thesis
      by (intro kept[of "m\<lparr>module_enabled := True, module_restart_cnt := -1, init_module := False,
            module_served_by_service_thread := True\<rparr>"])
        (auto simp: serve_module_def Let_def removal_pending_def m_def same_shape_def mod_ok_defs)
  next
    case disc
    have "mod_ok (fst (service_disconnect_from_module m))" if "mod_ok m"
      using that by (rule disconnect_sweep.body_inv)
    with disc False show ?thesis
      by (intro kept[of "fst (service_disconnect_from_module m)"])
        (auto simp: serve_module_def Let_def removal_pending_def m_def same_shape_def case_prod_unfold disconnect_fst)
  next
    case plain
    with False show ?thesis
      by (intro kept[of "m\<lparr>module_served_by_service_thread := True\<rparr>"])
        (auto simp: serve_module_def Let_def removal_pending_def m_def same_shape_def mod_ok_defs)
  qed
qed

lemma wf_sup_set_module:
  assumes "wf_sup s" "y < loaded_modules_cnt s" "same_shape (running_modules s ! y) m'"
  shows "wf_sup (set_module y m' s)"
  unfolding set_module_def
  using assms by (intro wf_sup_same_shape)
    (auto simp: list_all2_conv_all_nth nth_list_update wf_sup_def)

definition all_mod_ok :: "sup \<Rightarrow> bool" where
  "all_mod_ok s \<longleftrightarrow> (\<forall>m \<in> set (running_modules s). mod_ok m)"

lemma serve_module_ok:
  assumes "wf_sup s \<and> all_mod_ok s" "y < loaded_modules_cnt s"
  shows "wf_sup (fst (serve_module y s)) \<and> all_mod_ok (fst (serve_module y s))"
proof (cases rule: serve_module_cases[of s y])
  case removed
  with assms show ?thesis
    using wf_sup_shift_array shift_array_all[of s y mod_ok] by (simp add: all_mod_ok_def)
next
  case (kept m')
  have "y < length (running_modules s)" using assms by (simp add: wf_sup_def)
  with kept assms show ?thesis
    using wf_sup_set_module set_update_subset_insert[of "running_modules s" y m']
    by (fastforce simp: all_mod_ok_def set_module_def)
qed

lemma serve_loop_ok:
  "wf_sup s \<Longrightarrow> all_mod_ok s \<Longrightarrow> wf_sup (fst (serve_loop y s)) \<and> all_mod_ok (fst (serve_loop y s))"
  by (rule serve_loop_keeps) (auto intro: serve_module_ok [THEN conjunct1] serve_module_ok [THEN conjunct2])

lemma loaded_set_module: "loaded (set_module y m' s) = (loaded s)[y := m']"
  by (simp add: loaded_def set_module_def take_update_swap)

lemma serve_module_names:
  assumes "wf_sup s" "y < loaded_modules_cnt s"
  shows "subseq (map module_name (loaded (fst (serve_module y s)))) (map module_name (loaded s))"
proof (cases rule: serve_module_cases[of s y])
  case removed
  with assms show ?thesis by (simp add: shift_array_loaded map_without without_subseq)
next
  case (kept m')
  have "module_name m' = map module_name (loaded s) ! y"
    using kept(3) assms length_loaded[OF assms(1)] by (simp add: same_shape_def loaded_nth)
  then have "map module_name (loaded (fst (serve_module y s))) = map module_name (loaded s)"
    using kept(2) by (simp add: loaded_set_module map_update)
  then show ?thesis by simp
qed

text \<open>Modules that are not waiting for removal stay, under their names.\<close>

definition staying :: "sup \<Rightarrow> string option set" where
  "staying s = module_name ` {m \<in> set (loaded s). \<not> removal_pending m}"

lemma serve_module_staying:
  assumes "wf_sup s" "y < loaded_modules_cnt s"
  shows "staying s \<subseteq> staying (fst (serve_module y s))"
proof
  fix n
  assume "n \<in> staying s"
  then obtain z where z: "z < loaded_modules_cnt s" "\<not> removal_pending (loaded s ! z)" "n = module_name (loaded s ! z)"
    using length_loaded[OF assms(1)] by (auto simp: staying_def in_set_conv_nth)
  show "n \<in> staying (fst (serve_module y s))"
  proof (cases rule: serve_module_cases[of s y])
    case removed
    with z have "z \<noteq> y" using loaded_nth[of y s] assms(2) by auto
    define w where "w = (if z < y then z else z - 1)"
    have "w < loaded_modules_cnt s - 1" "without y (loaded s) ! w = loaded s ! z"
      using z assms \<open>z \<noteq> y\<close> length_loaded[OF assms(1)] by (auto simp: w_def without_nth)
    then have "loaded s ! z \<in> set (without y (loaded s))"
      using length_without[of y "loaded s"] assms length_loaded[OF assms(1)] by (metis nth_mem)
    with z removed assms show ?thesis by (auto simp: staying_def shift_array_loaded)
  next
    case (kept m')
    let ?l = "(loaded s)[y := m']"
    have "module_name (?l ! z) = n \<and> \<not> removal_pending (?l ! z)"
      using z kept assms(2) length_loaded[OF assms(1)] loaded_nth[OF z(1)]
      by (cases "z = y") (auto simp: same_shape_def)
    moreover have "?l ! z \<in> set ?l" using z length_loaded[OF assms(1)] by (intro nth_mem) simp
    ultimately show ?thesis using kept(2) by (force simp: staying_def loaded_set_module)
  qed
qed

lemma serve_module_wf: "wf_sup s \<Longrightarrow> y < loaded_modules_cnt s \<Longrightarrow> wf_sup (fst (serve_module y s))"
  by (cases rule: serve_module_cases[of s y]) (simp_all add: wf_sup_shift_array wf_sup_set_module)

lemma serve_loop_wf: "wf_sup s \<Longrightarrow> wf_sup (fst (serve_loop y s))"
  by (rule serve_loop_keeps) (simp_all add: serve_module_wf)

lemma serve_loop_staying:
  assumes "wf_sup s"
  shows "subseq (map module_name (loaded (fst (serve_loop y s)))) (map module_name (loaded s)) \<and>
    staying s \<subseteq> staying (fst (serve_loop y s))"
proof -
  let ?P = "\<lambda>t. wf_sup t \<and> subseq (map module_name (loaded t)) (map module_name (loaded s)) \<and> staying s \<subseteq> staying t"
  have "?P (fst (serve_loop y s))"
  proof (rule serve_loop_keeps)
    fix y t
    assume "?P t" "y < loaded_modules_cnt t"
    then show "?P (fst (serve_module y t))"
      using serve_module_wf[of t y] serve_module_names[of t y] serve_module_staying[of t y]
      by (auto intro: subseq_order.order_trans)
  qed (use assms in simp)
  then show ?thesis by blast
qed

text \<open>
  C13. The serving loop keeps the state well-formed (distinct names, valid profile pointers, arrays of
  the recorded sizes), keeps the order of the modules, and drops no module except stopped ones that a
  reload has marked for removal.
\<close>

theorem serve_loop_drops_only_pending:
  assumes "wf_sup s"
  shows "wf_sup (fst (serve_loop 0 s)) \<and>
    subseq (map module_name (loaded (fst (serve_loop 0 s)))) (map module_name (loaded s)) \<and>
    {module_name m |m. m \<in> set (loaded s) \<and>
            (module_served_by_service_thread m \<or> \<not> remove_module m \<or> module_status m)}
         \<subseteq> set (map module_name (loaded (fst (serve_loop 0 s))))"
  using serve_loop_staying[OF assms, of 0] serve_loop_wf[OF assms]
  by (auto simp: staying_def removal_pending_def)

lemma serve_loop_cnt: "loaded_modules_cnt (fst (serve_loop y s)) \<le> loaded_modules_cnt s"
  by (rule serve_loop_keeps[of "\<lambda>t. loaded_modules_cnt t \<le> loaded_modules_cnt s"])
    (auto intro: le_trans[OF serve_module_cnt])

lemma serve_loop_progress:
  "wf_sup s \<Longrightarrow> y \<le> z \<Longrightarrow> z < loaded_modules_cnt s \<Longrightarrow> removal_pending (running_modules s ! z) \<Longrightarrow>
     loaded_modules_cnt (fst (serve_loop y s)) < loaded_modules_cnt s"
proof (induction y s rule: serve_loop.induct)
  case (1 y s)
  then have y: "y < loaded_modules_cnt s" by simp
  show ?case
  proof (cases rule: serve_module_cases[of s y])
    case removed
    then show ?thesis
      using y serve_loop_cnt[of "Suc y" "free_module_and_shift_array y s"]
      by (subst serve_loop_unfold) simp
  next
    case (kept m')
    with 1 have z: "Suc y \<le> z" by (metis not_less_eq_eq le_antisym)
    have "wf_sup (set_module y m' s)" using kept 1 y by (simp add: wf_sup_set_module)
    with 1(1)[OF y, of "serve_module y s"] kept z 1(4,5) show ?thesis
      by (subst serve_loop_unfold) (simp add: y set_module_def prod_eq_iff)
  qed
qed

text \<open>
  Removal makes progress: as long as some loaded module is stopped and marked for removal, every
  run of the serving loop removes at least one module, although the loop passes over the module
  that moves into a freed position.
\<close>

theorem serve_loop_removes:
  assumes "wf_sup s" "z < loaded_modules_cnt s" "remove_module (running_modules s ! z)"
    "\<not> module_status (running_modules s ! z)" "\<not> module_served_by_service_thread (running_modules s ! z)"
  shows "loaded_modules_cnt (fst (serve_loop 0 s)) < loaded_modules_cnt s"
  using serve_loop_progress[of s 0 z] assms by (simp add: removal_pending_def)

text \<open>A state with two modules marked for removal next to each other.\<close>

definition two_removed :: sup where
  "two_removed = \<lparr>running_modules =
       [fresh_module\<lparr>module_name := Some ''a'', remove_module := True\<rparr>,
        fresh_module\<lparr>module_name := Some ''b'', remove_module := True\<rparr>, fresh_module],
     running_modules_array_size = 3, loaded_modules_cnt = 2, profiles = [], loaded_profile_cnt = 0,
     module_restarts_num_config = 3, service_thread_continue = True, service_stop_all_modules = False,
     last_total_cpu = 0\<rparr>"

lemma wf_two_removed: "wf_sup two_removed"
  by (simp add: wf_sup_def two_removed_def fresh_module_def zero_module_def wf_ifces_def wf_profile_def
      loaded_def IFCES_ARRAY_START_SIZE_def size_ok_def)

theorem serve_loop_drops_only_pending_witness:
  "wf_sup (fst (serve_loop 0 two_removed)) \<and>
   subseq (map module_name (loaded (fst (serve_loop 0 two_removed)))) [Some ''a'', Some ''b'']"
  using serve_loop_drops_only_pending[OF wf_two_removed] by (simp add: two_removed_def loaded_def)

theorem serve_loop_removes_witness: "loaded_modules_cnt (fst (serve_loop 0 two_removed)) < 2"
  using serve_loop_removes[OF wf_two_removed, of 0]
  by (simp add: two_removed_def fresh_module_def zero_module_def)

text \<open>
  Before a reload writes a module at the current count, \<open>check_running_modules_allocated_memory\<close>
  has made room: the write is inside the array, the modules already loaded are unchanged, and the
  array can be grown again.
\<close>

theorem module_slot_in_bounds:
  assumes "modules_arr_ok s"
  shows "loaded_modules_cnt (check_running_modules_allocated_memory s)
      < length (running_modules (check_running_modules_allocated_memory s)) \<and>
    (\<forall>x < loaded_modules_cnt s.
      running_modules (check_running_modules_allocated_memory s) ! x = running_modules s ! x) \<and>
    modules_arr_ok (check_running_modules_allocated_memory s)"
  using modules_arr.write_in_bounds modules_arr.ensure_nth modules_arr.ensure_ok assms by blast

theorem module_slot_in_bounds_witness:
  "loaded_modules_cnt (check_running_modules_allocated_memory two_removed)
     < length (running_modules (check_running_modules_allocated_memory two_removed))"
  using module_slot_in_bounds[of two_removed] by (simp add: modules_arr_ok_def size_ok_def two_removed_def)

end
