(* ===== verification/Service_Msg.thy ===== *)
theory Service_Msg
  imports Module_Array
begin

section \<open>Service messages: receiving, sending and decoding module statistics\<close>

text \<open>
  The exchange with a module over its service interface: \<open>service_recv_data\<close>, \<open>service_send_data\<close>,
  the message header, the growing receive buffer and \<open>service_decode_module_stats\<close>
  (\<^verbatim>\<open>supervisor.c\<close>, lines 2064-2117, 2232-2280 and 2296-2564). The results of successive \<open>recv\<close> and
  \<open>send\<close> calls are functions of the call number. The JSON library is the argument \<open>J\<close>, a record of
  the functions of jansson that are used; nothing is assumed of it. Proved: both transfers end, a
  successful receive delivers exactly the requested bytes, at most eight timeouts are tolerated,
  and decoding never accesses a statistics array out of bounds, whatever the module sends.
\<close>

subsection \<open>Receiving\<close>

definition SERVICE_WAIT_MAX_TRY :: nat where
  "SERVICE_WAIT_MAX_TRY = 8"

definition SERVICE_GET_COM :: u8 where
  "SERVICE_GET_COM = 10"

definition SERVICE_OK_REPLY :: u8 where
  "SERVICE_OK_REPLY = 12"

text \<open>\<open>Io_Data bs\<close>: bytes received (none when the peer closed); \<open>Io_Again\<close>: \<open>EAGAIN\<close> or \<open>EWOULDBLOCK\<close>.\<close>

datatype io_result = Io_Data string | Io_Again | Io_Error

text \<open>
  \<open>recv_loop recv sz k timeouts data\<close>: the state of the loop is the number \<open>k\<close> of \<open>recv\<close> calls made,
  \<open>num_of_timeouts\<close> and the bytes stored so far (their number is \<open>total_receved\<close>). The result is the
  data (\<open>None\<close> for the return value -1) and the number of calls. \<open>recv k n\<close> is the result of call
  \<open>k\<close> when \<open>n\<close> bytes are requested.
\<close>

function recv_loop :: "(nat \<Rightarrow> nat \<Rightarrow> io_result) \<Rightarrow> nat \<Rightarrow> nat \<Rightarrow> nat \<Rightarrow> string \<Rightarrow> string option \<times> nat" where
  "recv_loop recv sz k timeouts data =
     (if length data < sz then
        (case recv k (sz - length data) of
           Io_Data bs \<Rightarrow> if bs = [] then (None, Suc k) else recv_loop recv sz (Suc k) timeouts (data @ bs)
         | Io_Again \<Rightarrow> if Suc timeouts > SERVICE_WAIT_MAX_TRY then (None, Suc k)
                      else recv_loop recv sz (Suc k) (Suc timeouts) data
         | Io_Error \<Rightarrow> (None, Suc k))
      else (Some data, k))"
  by pat_completeness auto

termination
  by (relation "measure (\<lambda>(recv, sz, k, timeouts, data). (sz - length data) + (SERVICE_WAIT_MAX_TRY - timeouts))")
    (auto simp: neq_Nil_conv)

declare recv_loop.simps [simp del]

definition service_recv_data :: "(nat \<Rightarrow> nat \<Rightarrow> io_result) \<Rightarrow> nat \<Rightarrow> nat \<Rightarrow> string option \<times> nat" where
  "service_recv_data recv k sz = recv_loop recv sz k 0 []"

text \<open>\<open>recv\<close> returns at most as many bytes as were requested.\<close>

definition recv_bounded :: "(nat \<Rightarrow> nat \<Rightarrow> io_result) \<Rightarrow> bool" where
  "recv_bounded recv \<longleftrightarrow> (\<forall>k n bs. recv k n = Io_Data bs \<longrightarrow> length bs \<le> n)"

lemma recv_loop_calls:
  "recv_loop recv sz k t data = (r, k') \<Longrightarrow> t \<le> SERVICE_WAIT_MAX_TRY \<Longrightarrow>
     k \<le> k' \<and> k' + t \<le> k + (sz - length data) + (SERVICE_WAIT_MAX_TRY + 1)"
proof (induction recv sz k t data rule: recv_loop.induct)
  case (1 recv sz k t data)
  note unf = recv_loop.simps[of recv sz k t data]
  show ?case
  proof (cases "length data < sz")
    case True
    show ?thesis
    proof (cases "recv k (sz - length data)")
      case (Io_Data bs)
      show ?thesis
      proof (cases "bs = []")
        case False
        then have "sz - length (data @ bs) + 1 \<le> sz - length data" using True by (cases bs) auto
        moreover have "Suc k \<le> k' \<and> k' + t \<le> Suc k + (sz - length (data @ bs)) + (SERVICE_WAIT_MAX_TRY + 1)"
          using 1(1)[OF True Io_Data False] 1(3,4) True Io_Data False unf by simp
        ultimately show ?thesis by linarith
      qed (use 1 True Io_Data unf in auto)
    next
      case Io_Again
      show ?thesis
      proof (cases "Suc t > SERVICE_WAIT_MAX_TRY")
        case False
        then have "Suc k \<le> k' \<and> k' + Suc t \<le> Suc k + (sz - length data) + (SERVICE_WAIT_MAX_TRY + 1)"
          using 1(2)[OF True Io_Again False] 1(3) True Io_Again unf by simp
        then show ?thesis by linarith
      qed (use 1 True Io_Again unf in auto)
    next
      case Io_Error
      with 1 True unf show ?thesis by auto
    qed
  qed (use 1 unf in auto)
qed

lemma recv_loop_length:
  "recv_loop recv sz k t data = (Some res, k') \<Longrightarrow> recv_bounded recv \<Longrightarrow> length data \<le> sz \<Longrightarrow>
     length res = sz \<and> take (length data) res = data"
proof (induction recv sz k t data rule: recv_loop.induct)
  case (1 recv sz k t data)
  note unf = recv_loop.simps[of recv sz k t data]
  show ?case
  proof (cases "length data < sz")
    case True
    show ?thesis
    proof (cases "recv k (sz - length data)")
      case (Io_Data bs)
      then have "length (data @ bs) \<le> sz" using 1(4) True by (fastforce simp: recv_bounded_def)
      then have "length res = sz \<and> take (length (data @ bs)) res = data @ bs"
        using 1(1)[OF True Io_Data] 1(3,4) True Io_Data unf by (simp split: if_splits)
      then show ?thesis by (metis append_eq_append_conv_if append_eq_conv_conj append_take_drop_id append_assoc)
    next
      case Io_Again
      with 1 True unf show ?thesis by (simp split: if_splits)
    next
      case Io_Error
      with 1 True unf show ?thesis by simp
    qed
  qed (use 1 unf in simp)
qed


definition ack_socket :: "nat \<Rightarrow> nat \<Rightarrow> io_result" where
  "ack_socket k n = (if k = 0 then Io_Again else Io_Data (take n ''ok''))"


subsection \<open>Sending\<close>

text \<open>
  \<open>service_send_data\<close> has no branch for a \<open>send\<close> that accepts no byte, so nothing in the code bounds
  the loop: \<open>None\<close> stands for not returning. \<open>Some (ok, k)\<close>: the return value is 0 or -1 after \<open>k\<close> calls.
\<close>

datatype send_result = Sent nat | Send_Again | Send_Error

partial_function (option) send_loop ::
  "(nat \<Rightarrow> nat \<Rightarrow> send_result) \<Rightarrow> nat \<Rightarrow> nat \<Rightarrow> nat \<Rightarrow> nat \<Rightarrow> (bool \<times> nat) option" where
  "send_loop snd_call sz k timeouts total_sent =
     (if total_sent < sz then
        (case snd_call k (sz - total_sent) of
           Sent n \<Rightarrow> send_loop snd_call sz (Suc k) timeouts (total_sent + n)
         | Send_Again \<Rightarrow> if Suc timeouts > SERVICE_WAIT_MAX_TRY then Some (False, Suc k)
                        else send_loop snd_call sz (Suc k) (Suc timeouts) total_sent
         | Send_Error \<Rightarrow> Some (False, Suc k))
      else Some (True, k))"

definition service_send_data :: "(nat \<Rightarrow> nat \<Rightarrow> send_result) \<Rightarrow> nat \<Rightarrow> nat \<Rightarrow> (bool \<times> nat) option" where
  "service_send_data snd_call k sz = send_loop snd_call sz k 0 0"

text \<open>A \<open>send\<close> of at least one byte accepts at least one byte or fails.\<close>

definition send_progress :: "(nat \<Rightarrow> nat \<Rightarrow> send_result) \<Rightarrow> bool" where
  "send_progress snd_call \<longleftrightarrow> (\<forall>k n. snd_call k n \<noteq> Sent 0)"

lemma send_loop_returns:
  assumes "send_progress snd_call"
  shows "t \<le> SERVICE_WAIT_MAX_TRY \<Longrightarrow>
    \<exists>ok k'. send_loop snd_call sz k t sent = Some (ok, k') \<and> k' + t \<le> k + (sz - sent) + (SERVICE_WAIT_MAX_TRY + 1)"
proof (induction "(sz - sent) + (SERVICE_WAIT_MAX_TRY - t)" arbitrary: k t sent rule: less_induct)
  case less
  note unf = send_loop.simps[of snd_call sz k t sent]
  show ?case
  proof (cases "sent < sz")
    case True
    show ?thesis
    proof (cases "snd_call k (sz - sent)")
      case (Sent n)
      with assms have "0 < n" by (auto simp: send_progress_def intro: gr0I)
      then have "(sz - (sent + n)) + (SERVICE_WAIT_MAX_TRY - t) < (sz - sent) + (SERVICE_WAIT_MAX_TRY - t)"
        using True by linarith
      from less.hyps[OF this less.prems]
      obtain ok k' where "send_loop snd_call sz (Suc k) t (sent + n) = Some (ok, k')"
          "k' + t \<le> Suc k + (sz - (sent + n)) + (SERVICE_WAIT_MAX_TRY + 1)"
        by blast
      moreover have "sz - (sent + n) + 1 \<le> sz - sent" using True \<open>0 < n\<close> by simp
      ultimately show ?thesis using True Sent unf by auto
    next
      case Send_Again
      show ?thesis
      proof (cases "Suc t > SERVICE_WAIT_MAX_TRY")
        case True
        with \<open>sent < sz\<close> Send_Again less.prems unf show ?thesis by auto
      next
        case False
        then have "(sz - sent) + (SERVICE_WAIT_MAX_TRY - Suc t) < (sz - sent) + (SERVICE_WAIT_MAX_TRY - t)"
          "Suc t \<le> SERVICE_WAIT_MAX_TRY" by linarith+
        from less.hyps[OF this]
        obtain ok k' where "send_loop snd_call sz (Suc k) (Suc t) sent = Some (ok, k')"
            "k' + Suc t \<le> Suc k + (sz - sent) + (SERVICE_WAIT_MAX_TRY + 1)"
          by blast
        with True Send_Again False unf show ?thesis by auto
      qed
    next
      case Send_Error
      with True less.prems unf show ?thesis by auto
    qed
  next
    case False
    with less.prems unf show ?thesis by auto
  qed
qed

text \<open>
  When \<open>send\<close> accepts at least one byte or fails, \<open>service_send_data\<close> returns, after at most
  \<open>size + 9\<close> calls.
\<close>

theorem service_send_data_returns:
  assumes "send_progress snd_call"
  shows "\<exists>ok k'. service_send_data snd_call k sz = Some (ok, k') \<and> k' \<le> k + sz + 9"
  using send_loop_returns[OF assms, of 0 sz k 0] by (simp add: service_send_data_def SERVICE_WAIT_MAX_TRY_def)

theorem service_send_data_returns_witness:
  "\<exists>ok k'. service_send_data (\<lambda>k n. Sent 3) 0 8 = Some (ok, k') \<and> k' \<le> 0 + 8 + 9"
  by (rule service_send_data_returns) (simp add: send_progress_def)

subsection \<open>Decoding the statistics\<close>

text \<open>
  The functions of jansson that the code calls, over an abstract type of values. \<open>json_elems\<close> are the
  elements \<open>json_array_foreach\<close> visits.
\<close>

record 'j jansson =
  json_loads :: "string \<Rightarrow> 'j option"
  json_is_object :: "'j \<Rightarrow> bool"
  json_is_array :: "'j \<Rightarrow> bool"
  json_object_get :: "'j \<Rightarrow> string \<Rightarrow> 'j option"
  json_integer_value :: "'j \<Rightarrow> int"
  json_string_value :: "'j \<Rightarrow> string option"
  json_elems :: "'j \<Rightarrow> 'j list"

text \<open>
  \<open>with_key J obj key st f\<close>: fetch a key; on a missing key the function returns -1 and what has been
  stored so far in \<open>st\<close> stays. The flag of a result is \<open>False\<close> for the return value -1.
\<close>

definition with_key :: "('j, 'z) jansson_scheme \<Rightarrow> 'j \<Rightarrow> string \<Rightarrow> 's \<Rightarrow> ('j \<Rightarrow> 's \<times> bool) \<Rightarrow> 's \<times> bool" where
  "with_key J obj key st f = (case json_object_get J obj key of None \<Rightarrow> (st, False) | Some v \<Rightarrow> f v)"

definition store_id :: "string option \<Rightarrow> string \<Rightarrow> string option" where
  "store_id old str = (case old of None \<Rightarrow> Some str | Some o' \<Rightarrow> if o' \<noteq> str then Some str else Some o')"

definition decode_in_ifc :: "('j, 'z) jansson_scheme \<Rightarrow> 'j \<Rightarrow> in_ifc_stats \<Rightarrow> in_ifc_stats \<times> bool" where
  "decode_in_ifc J obj st0 =
     (if \<not> json_is_object J obj then (st0, False)
      else with_key J obj ''messages'' st0 (\<lambda>v1. let st1 = st0\<lparr>recv_msg_cnt := of_int (json_integer_value J v1)\<rparr>
      in with_key J obj ''buffers'' st1 (\<lambda>v2. let st2 = st1\<lparr>recv_buffer_cnt := of_int (json_integer_value J v2)\<rparr>
      in with_key J obj ''ifc_type'' st2 (\<lambda>v3. let st3 = st2\<lparr>in_ifc_type := of_int (json_integer_value J v3)\<rparr>
      in with_key J obj ''ifc_state'' st3 (\<lambda>v4. let st4 = st3\<lparr>in_ifc_state := of_int (json_integer_value J v4)\<rparr>
      in with_key J obj ''ifc_id'' st4 (\<lambda>v5.
           case json_string_value J v5 of
             None \<Rightarrow> (st4, False)
           | Some str \<Rightarrow> (st4\<lparr>in_ifc_id := store_id (in_ifc_id st4) str\<rparr>, True)))))))"

definition decode_out_ifc :: "('j, 'z) jansson_scheme \<Rightarrow> 'j \<Rightarrow> out_ifc_stats \<Rightarrow> out_ifc_stats \<times> bool" where
  "decode_out_ifc J obj st0 =
     (if \<not> json_is_object J obj then (st0, False)
      else with_key J obj ''sent-messages'' st0 (\<lambda>v1. let st1 = st0\<lparr>sent_msg_cnt := of_int (json_integer_value J v1)\<rparr>
      in with_key J obj ''dropped-messages'' st1 (\<lambda>v2. let st2 = st1\<lparr>dropped_msg_cnt := of_int (json_integer_value J v2)\<rparr>
      in with_key J obj ''buffers'' st2 (\<lambda>v3. let st3 = st2\<lparr>sent_buffer_cnt := of_int (json_integer_value J v3)\<rparr>
      in with_key J obj ''autoflushes'' st3 (\<lambda>v4. let st4 = st3\<lparr>autoflush_cnt := of_int (json_integer_value J v4)\<rparr>
      in with_key J obj ''num_clients'' st4 (\<lambda>v5. let st5 = st4\<lparr>num_clients := of_int (json_integer_value J v5)\<rparr>
      in with_key J obj ''ifc_type'' st5 (\<lambda>v6. let st6 = st5\<lparr>out_ifc_type := of_int (json_integer_value J v6)\<rparr>
      in with_key J obj ''ifc_id'' st6 (\<lambda>v7.
           case json_string_value J v7 of
             None \<Rightarrow> (st6, False)
           | Some str \<Rightarrow> (st6\<lparr>out_ifc_id := store_id (out_ifc_id st6) str\<rparr>, True)))))))))"

text \<open>
  The loop over the elements of an array: at most \<open>tot\<close> elements are read, element \<open>i\<close> goes to
  cell \<open>i\<close>; a cell that is not allocated is an \<open>Overrun\<close>.
\<close>

fun decode_array ::
  "('j \<Rightarrow> 'c \<Rightarrow> 'c \<times> bool) \<Rightarrow> nat \<Rightarrow> nat \<Rightarrow> 'j list \<Rightarrow> 'c list \<Rightarrow> ('c list \<times> os_event list) \<times> bool" where
  "decode_array f tot i [] cells_l = ((cells_l, []), True)"
| "decode_array f tot i (j # js) cells_l =
     (if i \<ge> tot then ((cells_l, []), True)
      else if i \<ge> length cells_l then ((cells_l, [Overrun]), False)
      else (let (st, ok) = f j (cells_l ! i)
            in if ok then decode_array f tot (Suc i) js (cells_l[i := st])
               else ((cells_l[i := st], []), False)))"

definition zero_in_stats :: in_ifc_stats where
  "zero_in_stats = \<lparr>in_ifc_state = 0, in_ifc_type = 0, in_ifc_id = None, recv_msg_cnt = 0, recv_buffer_cnt = 0\<rparr>"

definition zero_out_stats :: out_ifc_stats where
  "zero_out_stats = \<lparr>num_clients = 0, out_ifc_type = 0, out_ifc_id = None, sent_msg_cnt = 0,
     dropped_msg_cnt = 0, sent_buffer_cnt = 0, autoflush_cnt = 0\<rparr>"

text \<open>\<open>calloc_ok n\<close>: the allocation of \<open>n\<close> cells succeeds.\<close>

definition decode_in_cnt :: "(u32 \<Rightarrow> bool) \<Rightarrow> u32 \<Rightarrow> running_module \<Rightarrow> running_module \<times> bool" where
  "decode_in_cnt calloc_ok ifc_cnt m =
     (if ifc_cnt \<noteq> total_in_ifces_cnt m
      then (if calloc_ok ifc_cnt
            then (m\<lparr>in_ifces_data := Some (replicate (unat ifc_cnt) zero_in_stats), total_in_ifces_cnt := ifc_cnt\<rparr>, True)
            else (m\<lparr>in_ifces_data := None, total_in_ifces_cnt := 0\<rparr>, False))
      else (m, True))"

definition decode_out_cnt :: "(u32 \<Rightarrow> bool) \<Rightarrow> u32 \<Rightarrow> running_module \<Rightarrow> running_module \<times> bool" where
  "decode_out_cnt calloc_ok ifc_cnt m =
     (if ifc_cnt \<noteq> total_out_ifces_cnt m
      then (if calloc_ok ifc_cnt
            then (m\<lparr>out_ifces_data := Some (replicate (unat ifc_cnt) zero_out_stats), total_out_ifces_cnt := ifc_cnt\<rparr>, True)
            else (m\<lparr>out_ifces_data := None, total_out_ifces_cnt := 0\<rparr>, False))
      else (m, True))"

definition stat_list :: "'a list option \<Rightarrow> 'a list" where
  "stat_list d = (case d of None \<Rightarrow> [] | Some xs \<Rightarrow> xs)"

text \<open>Store the cells back; a \<open>NULL\<close> array has no cells and stays \<open>NULL\<close>.\<close>

definition decode_in_stats ::
  "('j, 'z) jansson_scheme \<Rightarrow> 'j \<Rightarrow> running_module \<Rightarrow> (running_module \<times> os_event list) \<times> bool" where
  "decode_in_stats J root m =
     (if 0 < total_in_ifces_cnt m
      then (case json_object_get J root ''in'' of
              None \<Rightarrow> ((m, []), False)
            | Some arr \<Rightarrow>
                if \<not> json_is_array J arr then ((m, []), False)
                else (let ((cs, es), ok) = decode_array (decode_in_ifc J) (unat (total_in_ifces_cnt m)) 0
                                             (json_elems J arr) (stat_list (in_ifces_data m))
                      in ((m\<lparr>in_ifces_data := map_option (\<lambda>_. cs) (in_ifces_data m)\<rparr>, es), ok)))
      else ((m, []), True))"

definition decode_out_stats ::
  "('j, 'z) jansson_scheme \<Rightarrow> 'j \<Rightarrow> running_module \<Rightarrow> (running_module \<times> os_event list) \<times> bool" where
  "decode_out_stats J root m =
     (if 0 < total_out_ifces_cnt m
      then (case json_object_get J root ''out'' of
              None \<Rightarrow> ((m, []), False)
            | Some arr \<Rightarrow>
                if \<not> json_is_array J arr then ((m, []), False)
                else (let ((cs, es), ok) = decode_array (decode_out_ifc J) (unat (total_out_ifces_cnt m)) 0
                                             (json_elems J arr) (stat_list (out_ifces_data m))
                      in ((m\<lparr>out_ifces_data := map_option (\<lambda>_. cs) (out_ifces_data m)\<rparr>, es), ok)))
      else ((m, []), True))"

definition service_decode_module_stats ::
  "('j, 'z) jansson_scheme \<Rightarrow> (u32 \<Rightarrow> bool) \<Rightarrow> string \<Rightarrow> running_module \<Rightarrow> (running_module \<times> os_event list) \<times> bool" where
  "service_decode_module_stats J calloc_ok data m =
     (case json_loads J data of
        None \<Rightarrow> ((m, []), False)
      | Some root \<Rightarrow>
          if \<not> json_is_object J root then ((m, []), False)
          else (case json_object_get J root ''in_cnt'' of
                  None \<Rightarrow> ((m, []), False)
                | Some v1 \<Rightarrow>
                    let (m1, ok1) = decode_in_cnt calloc_ok (of_int (json_integer_value J v1)) m
                    in if \<not> ok1 then ((m1, []), False)
                       else (case json_object_get J root ''out_cnt'' of
                               None \<Rightarrow> ((m1, []), False)
                             | Some v2 \<Rightarrow>
                                 let (m2, ok2) = decode_out_cnt calloc_ok (of_int (json_integer_value J v2)) m1
                                 in if \<not> ok2 then ((m2, []), False)
                                    else (let ((m3, es3), ok3) = decode_in_stats J root m2
                                          in if \<not> ok3 then ((m3, es3), False)
                                             else (let ((m4, es4), ok4) = decode_out_stats J root m3
                                                   in ((m4, es3 @ es4), ok4))))))"

text \<open>Decoding stays inside the statistics arrays.\<close>

lemma decode_array_safe:
  "tot \<le> length cells_l \<Longrightarrow>
     length (fst (fst (decode_array f tot i js cells_l))) = length cells_l \<and>
     snd (fst (decode_array f tot i js cells_l)) = []"
  by (induction f tot i js cells_l rule: decode_array.induct) (auto simp: Let_def split: prod.splits)

lemma stat_cells_list: "stat_cells d = length (stat_list d)"
  by (simp add: stat_cells_def stat_list_def split: option.split)

lemma stat_cells_map: "length cs = stat_cells d \<Longrightarrow> stat_cells (map_option (\<lambda>_. cs) d) = stat_cells d"
  by (cases d) (simp_all add: stat_cells_def)

text \<open>Everything but the statistics is untouched by decoding.\<close>

definition without_stats :: "running_module \<Rightarrow> running_module" where
  "without_stats m = m\<lparr>total_in_ifces_cnt := 0, in_ifces_data := None, total_out_ifces_cnt := 0, out_ifces_data := None\<rparr>"

lemma without_stats_updates [simp]:
  "without_stats (m\<lparr>in_ifces_data := d\<rparr>) = without_stats m"
  "without_stats (m\<lparr>total_in_ifces_cnt := n\<rparr>) = without_stats m"
  "without_stats (m\<lparr>out_ifces_data := d2\<rparr>) = without_stats m"
  "without_stats (m\<lparr>total_out_ifces_cnt := n\<rparr>) = without_stats m"
  by (simp_all add: without_stats_def)

lemma without_stats_fields:
  assumes "without_stats m' = without_stats m"
  shows "proc_ok m' = proc_ok m" "restart_ok m' = restart_ok m" "same_shape m m'"
    "module_pid m' = module_pid m" "sent_sigint m' = sent_sigint m"
  using assms unfolding without_stats_def proc_ok_def restart_ok_def same_shape_def
  by (cases m; cases m'; simp)+

lemma decode_cnt_ok:
  "stats_ok m \<Longrightarrow> stats_ok (fst (decode_in_cnt calloc_ok n m)) \<and>
     without_stats (fst (decode_in_cnt calloc_ok n m)) = without_stats m"
  "stats_ok m \<Longrightarrow> stats_ok (fst (decode_out_cnt calloc_ok n m)) \<and>
     without_stats (fst (decode_out_cnt calloc_ok n m)) = without_stats m"
  by (auto simp: decode_in_cnt_def decode_out_cnt_def stats_ok_def stat_cells_def)

lemma decode_in_stats_ok:
  assumes "stats_ok m"
  shows "stats_ok (fst (fst (decode_in_stats J root m))) \<and> snd (fst (decode_in_stats J root m)) = [] \<and>
    without_stats (fst (fst (decode_in_stats J root m))) = without_stats m"
proof -
  have "unat (total_in_ifces_cnt m) \<le> length (stat_list (in_ifces_data m))"
    using assms by (simp add: stats_ok_def stat_cells_list)
  from decode_array_safe[OF this] assms show ?thesis
    by (auto simp: decode_in_stats_def stats_ok_def stat_cells_list case_prod_unfold Let_def
        stat_list_def split: option.splits)
qed

lemma decode_out_stats_ok:
  assumes "stats_ok m"
  shows "stats_ok (fst (fst (decode_out_stats J root m))) \<and> snd (fst (decode_out_stats J root m)) = [] \<and>
    without_stats (fst (fst (decode_out_stats J root m))) = without_stats m"
proof -
  have "unat (total_out_ifces_cnt m) \<le> length (stat_list (out_ifces_data m))"
    using assms by (simp add: stats_ok_def stat_cells_list)
  from decode_array_safe[OF this] assms show ?thesis
    by (auto simp: decode_out_stats_def stats_ok_def stat_cells_list case_prod_unfold Let_def
        stat_list_def split: option.splits)
qed

lemma decode_stats_ok:
  assumes "stats_ok m"
  shows "stats_ok (fst (fst (service_decode_module_stats J calloc_ok data m))) \<and>
    snd (fst (service_decode_module_stats J calloc_ok data m)) = [] \<and>
    without_stats (fst (fst (service_decode_module_stats J calloc_ok data m))) = without_stats m"
proof -
  define m1 where "m1 = (\<lambda>v. fst (decode_in_cnt calloc_ok v m))"
  define m2 where "m2 = (\<lambda>v w. fst (decode_out_cnt calloc_ok w (m1 v)))"
  define m3 where "m3 = (\<lambda>root v w. fst (fst (decode_in_stats J root (m2 v w))))"
  have 1: "stats_ok (m1 v) \<and> without_stats (m1 v) = without_stats m" for v
    using decode_cnt_ok(1)[OF assms] by (simp add: m1_def)
  have 2: "stats_ok (m2 v w) \<and> without_stats (m2 v w) = without_stats m" for v w
    using decode_cnt_ok(2)[of "m1 v"] 1[of v] by (simp add: m2_def)
  have 3: "stats_ok (m3 root v w) \<and> snd (fst (decode_in_stats J root (m2 v w))) = [] \<and>
      without_stats (m3 root v w) = without_stats m" for root v w
    using decode_in_stats_ok[of "m2 v w" J root] 2[of v w] by (simp add: m3_def)
  have 4: "stats_ok (fst (fst (decode_out_stats J root (m3 root v w)))) \<and>
      snd (fst (decode_out_stats J root (m3 root v w))) = [] \<and>
      without_stats (fst (fst (decode_out_stats J root (m3 root v w)))) = without_stats m" for root v w
    using decode_out_stats_ok[of "m3 root v w" J root] 3[of root v w] by simp
  note safe = 1 [unfolded m1_def] 2 [unfolded m2_def m1_def] 3 [unfolded m3_def m2_def m1_def]
    4 [unfolded m3_def m2_def m1_def]
  from assms safe show ?thesis
    by (simp add: service_decode_module_stats_def case_prod_unfold Let_def split: option.split)
qed

lemma decode_mod_ok:
  assumes "mod_ok m"
  shows "mod_ok (fst (fst (service_decode_module_stats J calloc_ok data m)))"
  using decode_stats_ok[of m J calloc_ok data] assms
    without_stats_fields[of "fst (fst (service_decode_module_stats J calloc_ok data m))" m]
  by (simp add: mod_ok_def)

text \<open>
  C16. Whatever a module sends and whatever the JSON library returns for it, decoding accesses no
  cell outside the statistics arrays, leaves arrays whose lengths match the recorded interface
  counts, and changes nothing else of the module.
\<close>

theorem service_decode_module_stats_safe:
  assumes "stats_ok m"
  shows "snd (fst (service_decode_module_stats J calloc_ok data m)) = [] \<and>
    stats_ok (fst (fst (service_decode_module_stats J calloc_ok data m))) \<and>
    without_stats (fst (fst (service_decode_module_stats J calloc_ok data m))) = without_stats m"
  using decode_stats_ok[OF assms, of J calloc_ok data] by simp

text \<open>A small JSON type for examples.\<close>

datatype jval = JInt int | JStr string | JArr "jval list" | JObj "(string \<times> jval) list"

definition jval_lib :: "(string \<Rightarrow> jval option) \<Rightarrow> jval jansson" where
  "jval_lib parse = \<lparr>json_loads = parse,
     json_is_object = (\<lambda>v. case v of JObj _ \<Rightarrow> True | _ \<Rightarrow> False),
     json_is_array = (\<lambda>v. case v of JArr _ \<Rightarrow> True | _ \<Rightarrow> False),
     json_object_get = (\<lambda>v k. case v of JObj kvs \<Rightarrow> map_of kvs k | _ \<Rightarrow> None),
     json_integer_value = (\<lambda>v. case v of JInt i \<Rightarrow> i | _ \<Rightarrow> 0),
     json_string_value = (\<lambda>v. case v of JStr t \<Rightarrow> Some t | _ \<Rightarrow> None),
     json_elems = (\<lambda>v. case v of JArr vs \<Rightarrow> vs | _ \<Rightarrow> [])\<rparr>"

text \<open>A reply that claims one input interface and lists two.\<close>

definition long_reply :: jval where
  "long_reply = (let ifc = JObj [(''messages'', JInt 7), (''buffers'', JInt 2), (''ifc_type'', JInt 116),
       (''ifc_state'', JInt 1), (''ifc_id'', JStr ''p'')]
     in JObj [(''in_cnt'', JInt 1), (''out_cnt'', JInt 0), (''in'', JArr [ifc, ifc])])"

theorem service_decode_module_stats_safe_witness:
  "snd (fst (service_decode_module_stats (jval_lib (\<lambda>d. Some long_reply)) (\<lambda>n. True) ''x'' zero_module)) = [] \<and>
   in_ifces_data (fst (fst (service_decode_module_stats (jval_lib (\<lambda>d. Some long_reply)) (\<lambda>n. True) ''x'' zero_module)))
     = Some [\<lparr>in_ifc_state = 1, in_ifc_type = 116, in_ifc_id = Some ''p'', recv_msg_cnt = 7, recv_buffer_cnt = 2\<rparr>]"
proof -
  have "stats_ok zero_module" by (simp add: stats_ok_def stat_cells_def zero_module_def)
  from service_decode_module_stats_safe[OF this] show ?thesis
    by (simp add: service_decode_module_stats_def jval_lib_def long_reply_def decode_in_cnt_def decode_out_cnt_def
        decode_in_stats_def decode_out_stats_def decode_in_ifc_def with_key_def store_id_def zero_module_def
        stat_list_def zero_in_stats_def Let_def)
qed

subsection \<open>The reply of one module\<close>

text \<open>
  \<open>service_msg_header_t\<close>: a byte, three bytes of padding and a 32-bit size, little-endian.
\<close>

record service_msg_header =
  hdr_com :: u8
  hdr_data_size :: u32

definition header_size :: nat where
  "header_size = 8"

definition header_of :: "string \<Rightarrow> service_msg_header" where
  "header_of bs = \<lparr>hdr_com = of_nat (of_char (bs ! 0)),
     hdr_data_size = of_nat (of_char (bs ! 4) + 2 ^ 8 * of_char (bs ! 5) + 2 ^ 16 * of_char (bs ! 6) + 2 ^ 24 * of_char (bs ! 7))\<rparr>"

definition grow_buffer :: "u32 \<Rightarrow> u32 \<Rightarrow> u32" where
  "grow_buffer data_size buffer_size =
     (if data_size > buffer_size then buffer_size + ((data_size - buffer_size) + 1) else buffer_size)"

text \<open>
  The buffer after a successful receive: the data followed by the zeros \<open>memset\<close> wrote. Reading it as a
  C string is out of bounds when it holds no zero.
\<close>

definition buffer_after :: "u32 \<Rightarrow> string \<Rightarrow> string" where
  "buffer_after buffer_size data = data @ replicate (unat buffer_size - length data) (CHR 0x00)"

definition read_string :: "string \<Rightarrow> os_event list" where
  "read_string mem = (if CHR 0x00 \<in> set mem then [] else [Overrun])"

definition fits_buffer :: "u32 \<Rightarrow> u32 \<Rightarrow> os_event list" where
  "fits_buffer data_size buffer_size = (if data_size \<le> buffer_size then [] else [Overrun])"

definition reply_body ::
  "('j, 'z) jansson_scheme \<Rightarrow> (u32 \<Rightarrow> bool) \<Rightarrow> (nat \<Rightarrow> nat \<Rightarrow> io_result) \<Rightarrow> u32 \<Rightarrow> running_module
     \<Rightarrow> (running_module \<times> os_event list) \<times> u32" where
  "reply_body J calloc_ok recv buffer_size m =
     (if module_status m \<and> module_service_ifc_isconnected m
      then (case service_recv_data recv 0 header_size of
              (None, k) \<Rightarrow> (service_disconnect_from_module m, buffer_size)
            | (Some hb, k) \<Rightarrow>
                (let hdr = header_of hb
                 in if hdr_com hdr \<noteq> SERVICE_OK_REPLY then (service_disconnect_from_module m, buffer_size)
                    else (let bs = grow_buffer (hdr_data_size hdr) buffer_size;
                              es0 = fits_buffer (hdr_data_size hdr) bs
                          in case service_recv_data recv k (unat (hdr_data_size hdr)) of
                               (None, k') \<Rightarrow> (let (m1, es1) = service_disconnect_from_module m in ((m1, es0 @ es1), bs))
                             | (Some data, k') \<Rightarrow>
                                 (let mem = buffer_after bs data;
                                      ((m1, es1), ok) = service_decode_module_stats J calloc_ok
                                                          (takeWhile (\<lambda>c. c \<noteq> CHR 0x00) mem) m
                                  in if ok then ((m1, es0 @ read_string mem @ es1), bs)
                                     else (let (m2, es2) = service_disconnect_from_module m1
                                           in ((m2, es0 @ read_string mem @ es1 @ es2), bs))))))
      else ((m, []), buffer_size))"

text \<open>
  The request: a \<open>GET\<close> header is sent to every connected module; a failed send disconnects it. The
  result is \<open>None\<close> when \<open>service_send_data\<close> does not return.
\<close>

definition request_body ::
  "(nat \<Rightarrow> nat \<Rightarrow> nat \<Rightarrow> send_result) \<Rightarrow> nat \<Rightarrow> running_module \<Rightarrow> (running_module \<times> os_event list) option" where
  "request_body snd_call x m =
     (if module_service_ifc_isconnected m
      then (case service_send_data (snd_call x) 0 header_size of
              None \<Rightarrow> None
            | Some (ok, k) \<Rightarrow> Some (if ok then (m, []) else service_disconnect_from_module m))
      else Some (m, []))"

fun request_loop ::
  "(nat \<Rightarrow> nat \<Rightarrow> nat \<Rightarrow> send_result) \<Rightarrow> nat \<Rightarrow> nat \<Rightarrow> running_module list \<Rightarrow> (running_module list \<times> os_event list) option" where
  "request_loop snd_call x 0 ms = Some (ms, [])"
| "request_loop snd_call x (Suc n) [] = Some ([], [])"
| "request_loop snd_call x (Suc n) (m # ms) =
     (case request_body snd_call x m of
        None \<Rightarrow> None
      | Some (m', es) \<Rightarrow>
          (case request_loop snd_call (Suc x) n ms of
             None \<Rightarrow> None
           | Some (ms', es') \<Rightarrow> Some (m' # ms', es @ es')))"

text \<open>The replies are read in the order of the modules; the buffer is shared by all of them.\<close>

fun reply_loop ::
  "('j, 'z) jansson_scheme \<Rightarrow> (u32 \<Rightarrow> bool) \<Rightarrow> (nat \<Rightarrow> nat \<Rightarrow> nat \<Rightarrow> io_result) \<Rightarrow> nat \<Rightarrow> nat \<Rightarrow> u32
     \<Rightarrow> running_module list \<Rightarrow> (running_module list \<times> os_event list) \<times> u32" where
  "reply_loop J calloc_ok recv x 0 buffer_size ms = ((ms, []), buffer_size)"
| "reply_loop J calloc_ok recv x (Suc n) buffer_size [] = (([], []), buffer_size)"
| "reply_loop J calloc_ok recv x (Suc n) buffer_size (m # ms) =
     (let ((m', es), bs) = reply_body J calloc_ok (recv x) buffer_size m;
          ((ms', es'), bs') = reply_loop J calloc_ok recv (Suc x) n bs ms
      in ((m' # ms', es @ es'), bs'))"

lemma disconnect_shape: "same_shape m (fst (service_disconnect_from_module m))"
  by (simp add: disconnect_fst same_shape_def)

lemma disconnect_pid [simp]:
  "module_pid (fst (service_disconnect_from_module m)) = module_pid m"
  "sent_sigint (fst (service_disconnect_from_module m)) = sent_sigint m"
  by (simp_all add: disconnect_fst)

text \<open>What both message loops keep of every module.\<close>

definition msg_keeps :: "running_module \<Rightarrow> running_module \<Rightarrow> bool" where
  "msg_keeps m m' \<longleftrightarrow> same_shape m m' \<and> (mod_ok m \<longrightarrow> mod_ok m') \<and> module_pid m' = module_pid m \<and>
     sent_sigint m' = sent_sigint m"

lemma msg_keeps_refl [simp]: "msg_keeps m m"
  by (simp add: msg_keeps_def)

lemma msg_keeps_disconnect: "msg_keeps m m' \<Longrightarrow> msg_keeps m (fst (service_disconnect_from_module m'))"
  using disconnect_shape[of m'] disconnect_sweep.body_inv[of m']
  by (auto simp: msg_keeps_def intro: same_shape_trans)

lemma msg_keeps_decode:
  "mod_ok m \<Longrightarrow> msg_keeps m (fst (fst (service_decode_module_stats J calloc_ok data m)))"
  using decode_stats_ok[of m J calloc_ok data] decode_mod_ok[of m J calloc_ok data]
    without_stats_fields[of "fst (fst (service_decode_module_stats J calloc_ok data m))" m]
  by (simp add: msg_keeps_def mod_ok_def)

lemma reply_body_keeps:
  assumes "mod_ok m"
  shows "msg_keeps m (fst (fst (reply_body J calloc_ok recv buffer_size m)))"
  using msg_keeps_disconnect[OF msg_keeps_refl, of m] msg_keeps_decode[OF assms, of J calloc_ok]
    msg_keeps_disconnect[OF msg_keeps_decode[OF assms, of J calloc_ok]]
  by (simp add: reply_body_def case_prod_unfold Let_def split: option.split)

lemma reply_loop_keeps:
  "\<forall>m \<in> set ms. mod_ok m \<Longrightarrow>
     list_all2 msg_keeps ms (fst (fst (reply_loop J calloc_ok recv x n buffer_size ms)))"
proof (induction J calloc_ok recv x n buffer_size ms rule: reply_loop.induct)
  case (3 J calloc_ok recv x n buffer_size m ms)
  then show ?case
    using reply_body_keeps[of m J calloc_ok "recv x" buffer_size]
    by (simp add: case_prod_unfold Let_def prod_eq_iff)
qed (simp_all add: list_all2_refl)

lemma request_loop_keeps:
  "request_loop snd_call x n ms = Some (ms', es) \<Longrightarrow> list_all2 msg_keeps ms ms'"
proof (induction snd_call x n ms arbitrary: ms' es rule: request_loop.induct)
  case (3 snd_call x n m ms)
  then obtain m1 es1 ms1 es2 where "request_body snd_call x m = Some (m1, es1)"
      "request_loop snd_call (Suc x) n ms = Some (ms1, es2)" "ms' = m1 # ms1"
    by (auto split: option.splits)
  moreover from this have "msg_keeps m m1"
    using msg_keeps_disconnect[OF msg_keeps_refl, of m]
    by (auto simp: request_body_def split: if_splits option.splits)
  ultimately show ?case using 3 by simp
qed (auto simp: list_all2_refl)

lemma request_loop_returns:
  "\<forall>x. send_progress (snd_call x) \<Longrightarrow> \<exists>ms' es. request_loop snd_call x n ms = Some (ms', es)"
proof (induction snd_call x n ms rule: request_loop.induct)
  case (3 snd_call x n m ms)
  have "\<exists>ok k. service_send_data (snd_call x) 0 header_size = Some (ok, k)"
    using send_loop_returns[of "snd_call x" 0] 3(2) by (fastforce simp: service_send_data_def)
  then obtain m1 es1 where r: "request_body snd_call x m = Some (m1, es1)"
    by (fastforce simp: request_body_def)
  with 3(1)[OF r] 3(2) show ?case by auto
qed auto


text \<open>A module that answers with a header announcing 256 bytes and then sends 256 letters.\<close>

definition letters_socket :: "nat \<Rightarrow> nat \<Rightarrow> io_result" where
  "letters_socket k n = Io_Data (if k = 0
     then [CHR 0x0C, CHR 0x00, CHR 0x00, CHR 0x00, CHR 0x00, CHR 0x01, CHR 0x00, CHR 0x00]
     else replicate n (CHR ''x''))"


end
