(* ===== verification/Resources.thy ===== *)
theory Resources
  imports Service_Msg Complex_Main
begin

section \<open>Resource usage and the statistics text\<close>

text \<open>
  \<open>get_total_cpu_usage\<close> and \<open>update_modules_resources_usage\<close> (\<^verbatim>\<open>supervisor.c\<close>, lines 1103-1244), which
  read the files under \<^verbatim>\<open>/proc\<close>, and \<open>make_formated_statistics\<close> (lines 875-961). Files are the argument
  \<open>proc\<close>: the lines of the file at a path, \<open>None\<close> when it cannot be opened. The percentages are
  computed in \<open>double\<close>; binary64 rounding is written out on rationals. Proved: the resource update
  keeps every module's invariants, and the statistics text stays inside its buffer as long as no
  line is longer than 200 characters.
\<close>

subsection \<open>Tokens and numbers\<close>

text \<open>The tokens \<open>strtok\<close> yields for the delimiter \<open>" "\<close>.\<close>

fun strtok_from :: "string \<Rightarrow> string \<Rightarrow> string list" where
  "strtok_from acc [] = (if acc = [] then [] else [acc])"
| "strtok_from acc (c # cs) =
     (if c = CHR '' '' then (if acc = [] then [] else [acc]) @ strtok_from [] cs
      else strtok_from (acc @ [c]) cs)"

definition strtok_all :: "string \<Rightarrow> string list" where
  "strtok_all s = strtok_from [] s"

text \<open>
  \<open>strtoul (s, &endptr, 10)\<close>: \<open>None\<close> when no digit is found (\<open>endptr\<close> is the start and the value 0);
  values above \<open>ULONG_MAX\<close> saturate, a minus sign negates the unsigned value.
\<close>

definition strtoul :: "string \<Rightarrow> u64 option" where
  "strtoul s =
     (let t = dropWhile is_space s;
          (neg, u) = (case t of [] \<Rightarrow> (False, [])
                      | c # cs \<Rightarrow> if c = CHR ''-'' then (True, cs)
                                else if c = CHR ''+'' then (False, cs) else (False, t));
          ds = takeWhile is_digit u; v = scan_digits ds
      in if ds = [] then None
         else if v \<ge> 2 ^ 64 then Some (-1)
         else Some (if neg then - of_nat v else of_nat v))"

definition strtoul_value :: "string \<Rightarrow> u64" where
  "strtoul_value s = (case strtoul s of None \<Rightarrow> 0 | Some v \<Rightarrow> v)"

subsection \<open>Double precision\<close>

text \<open>
  Rounding a non-negative rational to binary64: 53 significant bits, ties to even. The exponents that
  occur here are far from the ends of the range.
\<close>

definition round_even :: "rat \<Rightarrow> int" where
  "round_even r =
     (let f = \<lfloor>r\<rfloor>; d = r - of_int f
      in if d < 1 / 2 then f else if d > 1 / 2 then f + 1 else if even f then f else f + 1)"

definition pow2 :: "int \<Rightarrow> rat" where
  "pow2 e = (if e \<ge> 0 then 2 ^ nat e else 1 / 2 ^ nat (- e))"

fun bits :: "nat \<Rightarrow> nat" where
  "bits n = (if n = 0 then 0 else Suc (bits (n div 2)))"

declare bits.simps [simp del]

definition dbl_exp :: "rat \<Rightarrow> int" where
  "dbl_exp r =
     (let (a, b) = quotient_of r; e = int (bits (nat a)) - int (bits (nat b)) - 53
      in if r / pow2 e \<ge> 2 ^ 53 then e + 1 else e)"

definition dbl :: "rat \<Rightarrow> rat" where
  "dbl r = (if r = 0 then 0 else (let e = dbl_exp r in of_int (round_even (r / pow2 e)) * pow2 e))"

definition cpu_percent :: "u64 \<Rightarrow> u64 \<Rightarrow> u64" where
  "cpu_percent used total_cpu =
     of_int \<lfloor>dbl (100 * dbl (dbl (of_nat (unat used)) / dbl (of_nat (unat total_cpu))))\<rfloor>"

subsection \<open>Reading the files\<close>

text \<open>The sum over the tokens; the flag is \<open>False\<close> for the return value -1.\<close>

fun sum_tokens :: "string list \<Rightarrow> u64 \<Rightarrow> u64 \<times> bool" where
  "sum_tokens [] acc = (acc, True)"
| "sum_tokens (t # ts) acc = (case strtoul t of None \<Rightarrow> (acc, False) | Some n \<Rightarrow> sum_tokens ts (acc + n))"

definition get_total_cpu_usage :: "(string \<Rightarrow> string list option) \<Rightarrow> u64 \<times> bool" where
  "get_total_cpu_usage proc =
     (case proc ''/proc/stat'' of
        None \<Rightarrow> (0, False)
      | Some [] \<Rightarrow> (0, False)
      | Some (line # lines) \<Rightarrow>
          (case strtok_all line of
             [] \<Rightarrow> (0, False)
           | t # ts \<Rightarrow> if t \<noteq> ''cpu'' then (0, False) else sum_tokens ts 0))"

text \<open>
  The loop over the fields of \<^verbatim>\<open>/proc/PID/stat\<close>: field \<open>y\<close> is in the first token of the list; a field
  that is no number is skipped without moving to the next token.
\<close>

definition store_field :: "u64 \<Rightarrow> nat \<Rightarrow> u64 \<Rightarrow> running_module \<Rightarrow> running_module" where
  "store_field diff_total y v m =
     (if y = 14 then m\<lparr>last_period_percent_cpu_usage_user_mode :=
                        cpu_percent (v - last_period_cpu_usage_user_mode m) diff_total,
                      last_period_cpu_usage_user_mode := v\<rparr>
      else if y = 15 then m\<lparr>last_period_percent_cpu_usage_kernel_mode :=
                        cpu_percent (v - last_period_cpu_usage_kernel_mode m) diff_total,
                      last_period_cpu_usage_kernel_mode := v\<rparr>
      else m\<lparr>virtual_memory_size := v\<rparr>)"

function stat_fields :: "u64 \<Rightarrow> nat \<Rightarrow> string list \<Rightarrow> running_module \<Rightarrow> running_module" where
  "stat_fields diff_total y toks m =
     (if y > 23 \<or> toks = [] then m
      else if y \<in> {14, 15, 23}
      then (case strtoul (hd toks) of
              None \<Rightarrow> stat_fields diff_total (Suc y) toks m
            | Some v \<Rightarrow> stat_fields diff_total (Suc y) (tl toks) (store_field diff_total y v m))
      else stat_fields diff_total (Suc y) (tl toks) m)"
  by pat_completeness auto

termination
  by (relation "measure (\<lambda>(d, y, toks, m). 24 - y)") auto

declare stat_fields.simps [simp del]

text \<open>The first positive number of the first line that mentions \<open>VmRSS\<close>.\<close>

fun first_positive :: "string list \<Rightarrow> u64 option" where
  "first_positive [] = None"
| "first_positive (t # ts) = (if strtoul_value t > 0 then Some (strtoul_value t) else first_positive ts)"

definition rss_of_lines :: "string list \<Rightarrow> u64 option" where
  "rss_of_lines lines =
     (case dropWhile (\<lambda>l. \<not> sublist ''VmRSS'' l) lines of
        [] \<Rightarrow> None | l # ls \<Rightarrow> first_positive (strtok_all l))"

definition resources_body :: "(string \<Rightarrow> string list option) \<Rightarrow> u64 \<Rightarrow> nat \<Rightarrow> running_module \<Rightarrow> running_module \<times> os_event list" where
  "resources_body proc diff_total x m =
     (if module_status m
      then (case proc (''/proc/'' @ print_int (module_pid m) @ ''/stat'') of
              None \<Rightarrow> (m, [])
            | Some [] \<Rightarrow> (m, [])
            | Some (line # lines) \<Rightarrow>
                if strtok_all line = [] then (m, [])
                else (let m1 = stat_fields diff_total 1 (strtok_all line) m
                      in case proc (''/proc/'' @ print_int (module_pid m1) @ ''/status'') of
                           None \<Rightarrow> (m1, [])
                         | Some ls \<Rightarrow>
                             (case rss_of_lines ls of
                                None \<Rightarrow> (m1, []) | Some v \<Rightarrow> (m1\<lparr>resident_set_size := v\<rparr>, []))))
      else (m, []))"

definition update_modules_resources_usage :: "(string \<Rightarrow> string list option) \<Rightarrow> sup \<Rightarrow> sup" where
  "update_modules_resources_usage proc s =
     (case get_total_cpu_usage proc of
        (new_total, False) \<Rightarrow> s
      | (new_total, True) \<Rightarrow>
          (let diff_total = new_total - last_total_cpu s
           in if diff_total = 0 then s
              else fst (sweep (resources_body proc diff_total) (s\<lparr>last_total_cpu := new_total\<rparr>))))"

text \<open>Only the resource fields change.\<close>

definition without_resources :: "running_module \<Rightarrow> running_module" where
  "without_resources m = m\<lparr>virtual_memory_size := 0, resident_set_size := 0,
     last_period_cpu_usage_kernel_mode := 0, last_period_cpu_usage_user_mode := 0,
     last_period_percent_cpu_usage_kernel_mode := 0, last_period_percent_cpu_usage_user_mode := 0\<rparr>"

lemma without_resources_store: "without_resources (store_field d y v m) = without_resources m"
  by (simp add: without_resources_def store_field_def)

lemma without_resources_fields: "without_resources (stat_fields d y toks m) = without_resources m"
proof (induction d y toks m rule: stat_fields.induct)
  case (1 d y toks m)
  show ?case
    using 1 by (subst stat_fields.simps) (auto simp: without_resources_store split: option.split)
qed

lemma without_resources_body: "without_resources (fst (resources_body proc d x m)) = without_resources m"
proof -
  have "without_resources (m'\<lparr>resident_set_size := v\<rparr>) = without_resources m'" for m' v
    by (simp add: without_resources_def)
  then show ?thesis
    by (auto simp: resources_body_def without_resources_fields Let_def split: option.split list.split)
qed

lemma without_resources_eq:
  assumes "without_resources m' = without_resources m"
  shows "msg_keeps m m'"
  using assms unfolding without_resources_def msg_keeps_def same_shape_def mod_ok_defs
  by (cases m; cases m'; simp)

interpretation resources_sweep: element_sweep "resources_body proc d" mod_ok for proc d
  by unfold_locales (use without_resources_eq[OF without_resources_body] in \<open>auto simp: msg_keeps_def\<close>)

subsection \<open>The statistics text\<close>

text \<open>
  The buffer of \<open>make_formated_statistics\<close>: the bytes written so far (\<open>ptr\<close> is their number) and
  \<open>size_of_buffer\<close>. The test for growing uses \<open>strlen\<close>, which stops at the first zero byte.
\<close>

definition c_string :: "string \<Rightarrow> string" where
  "c_string buf = takeWhile (\<lambda>c. c \<noteq> CHR 0x00) buf"

definition append_line :: "string \<Rightarrow> string \<times> nat \<Rightarrow> (string \<times> nat) \<times> os_event list" where
  "append_line line st =
     (let (buf, sz) = st;
          buf' = buf @ line;
          es = (if length buf' < sz then [] else [Overrun]);
          sz' = (if length (c_string buf') \<ge> (3 * sz) div 5 then sz + sz div 2 else sz)
      in ((buf', sz'), es))"

fun append_lines :: "string list \<Rightarrow> string \<times> nat \<Rightarrow> (string \<times> nat) \<times> os_event list" where
  "append_lines [] st = (st, [])"
| "append_lines (l # ls) st =
     (let (st1, es1) = append_line l st; (st2, es2) = append_lines ls st1 in (st2, es1 @ es2))"

definition print_u64 :: "u64 \<Rightarrow> string" where
  "print_u64 w = print_nat (unat w)"

definition print_str :: "string option \<Rightarrow> string \<Rightarrow> string" where
  "print_str so dflt = (case so of None \<Rightarrow> dflt | Some str \<Rightarrow> str)"

definition in_ifc_line :: "running_module \<Rightarrow> in_ifc_stats \<Rightarrow> string" where
  "in_ifc_line m st = print_str (module_name m) ''(null)'' @ '',in,'' @ [char_of (unat (in_ifc_type st))] @ '','' @
     print_str (in_ifc_id st) ''none'' @ '','' @ print_u64 (recv_msg_cnt st) @ '','' @ print_u64 (recv_buffer_cnt st) @ [CHR 0x0A]"

definition out_ifc_line :: "running_module \<Rightarrow> out_ifc_stats \<Rightarrow> string" where
  "out_ifc_line m st = print_str (module_name m) ''(null)'' @ '',out,'' @ [char_of (unat (out_ifc_type st))] @ '','' @
     print_str (out_ifc_id st) ''none'' @ '','' @ print_u64 (sent_msg_cnt st) @ '','' @ print_u64 (dropped_msg_cnt st) @ '','' @
     print_u64 (sent_buffer_cnt st) @ '','' @ print_u64 (autoflush_cnt st) @ [CHR 0x0A]"

text \<open>The arrays have the recorded lengths (\<open>stats_ok\<close>), so the loops read inside them.\<close>

definition ifc_lines :: "running_module \<Rightarrow> string list" where
  "ifc_lines m =
     (if module_status m \<and> module_service_ifc_isconnected m
      then map (in_ifc_line m) (take (unat (total_in_ifces_cnt m)) (stat_list (in_ifces_data m))) @
           map (out_ifc_line m) (take (unat (total_out_ifces_cnt m)) (stat_list (out_ifces_data m)))
      else [])"

definition cpu_lines :: "running_module \<Rightarrow> string list" where
  "cpu_lines m =
     (if module_status m
      then [print_str (module_name m) ''(null)'' @ '',cpu,'' @ print_u64 (last_period_percent_cpu_usage_kernel_mode m) @
            '','' @ print_u64 (last_period_percent_cpu_usage_user_mode m) @ [CHR 0x0A]]
      else [])"

definition mem_lines :: "running_module \<Rightarrow> string list" where
  "mem_lines m =
     (if module_status m
      then [print_str (module_name m) ''(null)'' @ '',mem,'' @ print_u64 (virtual_memory_size m div (1024 * 1024)) @ [CHR 0x0A]]
      else [])"

definition statistics_lines :: "u8 \<Rightarrow> sup \<Rightarrow> string list" where
  "statistics_lines stats_mask s =
     (if bit stats_mask 0 then concat (map ifc_lines (loaded s)) else []) @
     (if bit stats_mask 1 then concat (map cpu_lines (loaded s)) else []) @
     (if bit stats_mask 2 then concat (map mem_lines (loaded s)) else [])"

definition make_formated_statistics :: "u8 \<Rightarrow> sup \<Rightarrow> string \<times> os_event list" where
  "make_formated_statistics stats_mask s =
     (let ((buf, sz), es) = append_lines (statistics_lines stats_mask s) ([], 5 * DEFAULT_SIZE_OF_BUFFER)
      in (c_string buf, es))"

lemma c_string_id: "CHR 0x00 \<notin> set buf \<Longrightarrow> c_string buf = buf"
  by (auto simp: c_string_def takeWhile_eq_all_conv)

lemma append_lines_fit:
  assumes "\<forall>l \<in> set ls. length l \<le> 200 \<and> CHR 0x00 \<notin> set l"
  shows "500 \<le> sz \<Longrightarrow> length buf + 201 \<le> sz \<Longrightarrow> CHR 0x00 \<notin> set buf \<Longrightarrow>
    snd (append_lines ls (buf, sz)) = [] \<and> fst (fst (append_lines ls (buf, sz))) = buf @ concat ls"
  using assms
proof (induction ls arbitrary: buf sz)
  case (Cons l ls)
  let ?buf = "buf @ l"
  let ?sz = "if length ?buf \<ge> (3 * sz) div 5 then sz + sz div 2 else sz"
  have l: "length l \<le> 200" "CHR 0x00 \<notin> set l" using Cons.prems by auto
  have step: "append_line l (buf, sz) = ((?buf, ?sz), [])"
    using l Cons.prems by (simp add: append_line_def c_string_id)
  have "length ?buf < sz" using l Cons.prems by simp
  then have "500 \<le> ?sz \<and> length ?buf + 201 \<le> ?sz" using Cons.prems(1) by auto
  with Cons.IH[of ?sz ?buf] l Cons.prems step show ?case by (simp add: Let_def case_prod_unfold)
qed simp

text \<open>
  As long as no line of the statistics is longer than 200 characters and none contains a zero
  byte, \<open>make_formated_statistics\<close> writes only inside its growing buffer and returns the
  concatenation of all lines.
\<close>

theorem make_formated_statistics_fits:
  assumes "\<forall>l \<in> set (statistics_lines stats_mask s). length l \<le> 200 \<and> CHR 0x00 \<notin> set l"
  shows "make_formated_statistics stats_mask s = (concat (statistics_lines stats_mask s), [])"
proof -
  have "CHR 0x00 \<notin> set (concat (statistics_lines stats_mask s))" using assms by auto
  then show ?thesis
    using append_lines_fit[OF assms, of 500 "[]"]
    by (simp add: make_formated_statistics_def DEFAULT_SIZE_OF_BUFFER_def case_prod_unfold c_string_id)
qed

definition demo_sup :: "running_module \<Rightarrow> sup" where
  "demo_sup m = \<lparr>running_modules = [m, zero_module], running_modules_array_size = 2, loaded_modules_cnt = 1, profiles = [],
     loaded_profile_cnt = 0, module_restarts_num_config = 3, service_thread_continue = True,
     service_stop_all_modules = False, last_total_cpu = 0\<rparr>"

theorem make_formated_statistics_fits_witness:
  "make_formated_statistics 4 (demo_sup (zero_module\<lparr>module_name := Some ''m'', module_status := True,
     virtual_memory_size := 5242880\<rparr>)) = (''m,mem,5'' @ [CHR 0x0A], [])"
proof -
  let ?m = "zero_module\<lparr>module_name := Some ''m'', module_status := True, virtual_memory_size := 5242880\<rparr>"
  have b: "\<not> bit (4 :: u8) 0" "\<not> bit (4 :: u8) (Suc 0)" "bit (4 :: u8) 2" by (simp_all add: bit_numeral_rec numeral_2_eq_2 bit_simps)
  have l: "statistics_lines 4 (demo_sup ?m) = [''m,mem,5'' @ [CHR 0x0A]]"
    using b by (simp add: statistics_lines_def demo_sup_def loaded_def mem_lines_def print_str_def print_u64_def
        print_nat.simps digit_char_def char_of_def bit_Suc_0_iff)
  show ?thesis using make_formated_statistics_fits[of 4 "demo_sup ?m"] by (simp add: l)
qed

lemma append_lines_stuck:
  "CHR 0x00 \<in> set buf \<Longrightarrow> length (c_string buf) < (3 * sz) div 5 \<Longrightarrow> length buf < sz \<Longrightarrow>
     sz \<le> length buf + length (concat ls) \<Longrightarrow> Overrun \<in> set (snd (append_lines ls (buf, sz)))"
proof (induction ls arbitrary: buf)
  case (Cons l ls)
  have c: "c_string (buf @ l) = c_string buf" using Cons.prems(1) by (auto simp: c_string_def takeWhile_append1)
  show ?case
  proof (cases "length (buf @ l) < sz")
    case True
    with Cons c show ?thesis by (simp add: append_line_def Let_def case_prod_unfold)
  next
    case False
    then show ?thesis by (simp add: append_line_def Let_def case_prod_unfold)
  qed
qed simp

text \<open>
  A zero byte in the text (the interface type of a statistics cell the module announced but did
  not fill) stops the buffer from growing: if the first line contains one within its first 300
  characters, the buffer is overrun as soon as the text reaches 500 bytes.
\<close>

theorem make_formated_statistics_zero_byte:
  assumes "statistics_lines stats_mask s = l # ls" "CHR 0x00 \<in> set l" "length (c_string l) < 300"
    and "500 \<le> length (concat (l # ls))"
  shows "Overrun \<in> set (snd (make_formated_statistics stats_mask s))"
proof (cases "length l < 500")
  case True
  then show ?thesis
    using assms append_lines_stuck[of l 500 ls]
    by (simp add: make_formated_statistics_def DEFAULT_SIZE_OF_BUFFER_def append_line_def Let_def case_prod_unfold)
next
  case False
  then show ?thesis
    using assms by (simp add: make_formated_statistics_def DEFAULT_SIZE_OF_BUFFER_def append_line_def Let_def case_prod_unfold)
qed

text \<open>A module that announces 40 input interfaces and describes none.\<close>

definition silent_module :: running_module where
  "silent_module = zero_module\<lparr>module_name := Some ''m'', module_status := True,
     module_service_ifc_isconnected := True, total_in_ifces_cnt := 40,
     in_ifces_data := Some (replicate 40 zero_in_stats)\<rparr>"

theorem make_formated_statistics_zero_byte_witness:
  "Overrun \<in> set (snd (make_formated_statistics 1 (demo_sup silent_module)))"
proof -
  define l where "l = ''m,in,'' @ [CHR 0x00] @ '',none,0,0'' @ [CHR 0x0A]"
  have line: "in_ifc_line silent_module zero_in_stats = l"
    by (simp add: in_ifc_line_def silent_module_def zero_in_stats_def print_str_def print_u64_def print_nat.simps
        digit_char_def l_def char_of_def bit_Suc_0_iff)
  have "statistics_lines 1 (demo_sup silent_module) = replicate 40 l"
    using line by (simp add: statistics_lines_def demo_sup_def loaded_def ifc_lines_def silent_module_def
        zero_module_def stat_list_def map_replicate_const bit_0)
  also have "\<dots> = l # replicate 39 l" by (simp add: numeral_eq_Suc)
  finally have sl: "statistics_lines 1 (demo_sup silent_module) = l # replicate 39 l" .
  have "length (concat (replicate 39 l)) = 39 * length l" by (simp add: length_concat map_replicate sum_list_replicate)
  then show ?thesis
    using make_formated_statistics_zero_byte[OF sl] by (simp add: l_def c_string_def)
qed

end
