(* ===== verification/Service.thy ===== *)
theory Service
  imports Resources
begin

section \<open>The service thread\<close>

text \<open>
  One period of \<open>service_thread_routine\<close> (\<^verbatim>\<open>supervisor.c\<close>, lines 2153-2294), composed of the operations of
  the other theories in the order of the code, with the operating system's answers of that period
  as one record. Proved: a period keeps the invariant of the whole state; every signal is sent to
  a process group, and \<open>SIGKILL\<close> only to a group that was sent \<open>SIGINT\<close> before; a running module
  that is disabled gets both within one period when it does not exit; an enabled module that is
  not running is started.
\<close>

subsection \<open>Signals in a trace\<close>

text \<open>
  In \<open>es\<close>, continuing the trace \<open>tr\<close>: signals are \<open>SIGINT\<close> or \<open>SIGKILL\<close> and go to a process group (a
  negative identifier), and a \<open>SIGKILL\<close> follows a \<open>SIGINT\<close> to the same group.
\<close>

fun signal_ok :: "os_event list \<Rightarrow> os_event \<Rightarrow> bool" where
  "signal_ok tr (Kill p sg) \<longleftrightarrow> p < 0 \<and> (sg = 2 \<or> sg = 9 \<and> Kill p 2 \<in> set tr)"
| "signal_ok tr (Close fd) \<longleftrightarrow> True"
| "signal_ok tr (Unlink path) \<longleftrightarrow> True"
| "signal_ok tr (Fork x) \<longleftrightarrow> True"
| "signal_ok tr Overrun \<longleftrightarrow> True"

fun signals_ok :: "os_event list \<Rightarrow> os_event list \<Rightarrow> bool" where
  "signals_ok tr [] \<longleftrightarrow> True"
| "signals_ok tr (e # es) \<longleftrightarrow> signal_ok tr e \<and> signals_ok (tr @ [e]) es"

fun is_kill :: "os_event \<Rightarrow> bool" where
  "is_kill (Kill p sg) \<longleftrightarrow> True"
| "is_kill (Close fd) \<longleftrightarrow> False"
| "is_kill (Unlink path) \<longleftrightarrow> False"
| "is_kill (Fork x) \<longleftrightarrow> False"
| "is_kill Overrun \<longleftrightarrow> False"

definition no_kill :: "os_event list \<Rightarrow> bool" where
  "no_kill es \<longleftrightarrow> (\<forall>e \<in> set es. \<not> is_kill e)"

lemma no_kill_simps [simp]:
  "no_kill []" "no_kill (e # es) \<longleftrightarrow> \<not> is_kill e \<and> no_kill es" "no_kill (es @ es') \<longleftrightarrow> no_kill es \<and> no_kill es'"
  by (auto simp: no_kill_def)

lemma signal_ok_mono: "signal_ok tr e \<Longrightarrow> set tr \<subseteq> set tr' \<Longrightarrow> signal_ok tr' e"
  by (cases e) auto

lemma signals_ok_append [simp]: "signals_ok tr (es @ es') \<longleftrightarrow> signals_ok tr es \<and> signals_ok (tr @ es) es'"
  by (induction tr es rule: signals_ok.induct) auto

lemma no_kill_signals_ok: "no_kill es \<Longrightarrow> signals_ok tr es"
proof (induction es arbitrary: tr)
  case (Cons e es)
  then show ?case by (cases e) auto
qed simp

text \<open>A module marked as interrupted was sent \<open>SIGINT\<close> under its current process identifier.\<close>

definition sent_inv :: "os_event list \<Rightarrow> running_module \<Rightarrow> bool" where
  "sent_inv tr m \<longleftrightarrow> (sent_sigint m \<and> 0 < module_pid m \<longrightarrow> Kill (- module_pid m) 2 \<in> set tr)"

lemma sent_inv_mono: "sent_inv tr m \<Longrightarrow> sent_inv (tr @ es) m"
  by (auto simp: sent_inv_def)

lemma sent_inv_zero [simp]: "sent_inv tr zero_module"
  by (simp add: sent_inv_def zero_module_def)

definition service_inv :: "os_event list \<Rightarrow> sup \<Rightarrow> bool" where
  "service_inv tr s \<longleftrightarrow> wf_sup s \<and> all_mod_ok s \<and> (\<forall>m \<in> set (running_modules s). sent_inv tr m)"

subsection \<open>The contract of a loop over the modules\<close>

text \<open>
  What each loop of a period promises for one module, given that the operating system behaves
  (\<open>env_ok\<close>); proved once for the whole loop.
\<close>

locale module_sweep =
  fixes body :: "nat \<Rightarrow> running_module \<Rightarrow> running_module \<times> os_event list"
    and env_ok :: bool
  assumes keeps_ok: "env_ok \<Longrightarrow> mod_ok m \<Longrightarrow> mod_ok (fst (body x m))"
    and keeps_shape: "same_shape m (fst (body x m))"
    and keeps_signals: "env_ok \<Longrightarrow> mod_ok m \<Longrightarrow> sent_inv tr m \<Longrightarrow>
      signals_ok tr (snd (body x m)) \<and> sent_inv (tr @ snd (body x m)) (fst (body x m))"

sublocale module_sweep < element_sweep body "\<lambda>m. env_ok \<longrightarrow> mod_ok m"
  by unfold_locales (simp add: keeps_ok)

context module_sweep
begin

lemma loop_shape: "list_all2 same_shape ms (fst (for_upto body i n ms))"
  by (simp add: list_all2_conv_all_nth for_upto_nth keeps_shape)

lemma loop_signals:
  "env_ok \<Longrightarrow> \<forall>m \<in> set ms. mod_ok m \<and> sent_inv tr m \<Longrightarrow>
     signals_ok tr (snd (for_upto body i n ms)) \<and>
     (\<forall>m \<in> set (fst (for_upto body i n ms)). sent_inv (tr @ snd (for_upto body i n ms)) m)"
proof (induction ms arbitrary: i n tr)
  case Nil
  then show ?case by (cases n) simp_all
next
  case (Cons m ms)
  show ?case
  proof (cases n)
    case 0
    with Cons show ?thesis by simp
  next
    case (Suc k)
    obtain m1 es1 where b: "body i m = (m1, es1)" by fastforce
    obtain ms2 es2 where r: "for_upto body (Suc i) k ms = (ms2, es2)" by fastforce
    have 1: "signals_ok tr es1" "sent_inv (tr @ es1) m1"
      using keeps_signals[of m tr i] Cons.prems b by simp_all
    have "\<forall>m \<in> set ms. mod_ok m \<and> sent_inv (tr @ es1) m" using Cons.prems by (auto intro: sent_inv_mono)
    from Cons.IH[OF Cons.prems(1) this, of "Suc i" k] r
    have 2: "signals_ok (tr @ es1) es2" "\<forall>m \<in> set ms2. sent_inv ((tr @ es1) @ es2) m" by simp_all
    with 1 sent_inv_mono[OF 1(2), of es2] show ?thesis by (simp add: Suc b r)
  qed
qed

lemma sweep_service_inv:
  assumes "env_ok" "service_inv tr s"
  shows "service_inv (tr @ snd (sweep body s)) (fst (sweep body s)) \<and> signals_ok tr (snd (sweep body s))"
proof -
  let ?r = "for_upto body 0 (loaded_modules_cnt s) (running_modules s)"
  have all: "\<forall>m \<in> set (running_modules s). mod_ok m \<and> sent_inv tr m" "\<forall>m \<in> set (running_modules s). env_ok \<longrightarrow> mod_ok m"
    using assms by (auto simp: service_inv_def all_mod_ok_def)
  have "wf_sup (s\<lparr>running_modules := fst ?r\<rparr>)"
    using assms loop_shape by (intro wf_sup_same_shape) (simp_all add: service_inv_def)
  then show ?thesis
    using loop_signals[OF assms(1) all(1), of 0 "loaded_modules_cnt s"]
      sweep_inv[OF all(2), of 0 "loaded_modules_cnt s"] assms(1)
    by (simp add: sweep_def service_inv_def all_mod_ok_def case_prod_unfold Let_def)
qed

end

subsection \<open>The loops of a period meet the contract\<close>

lemma start_shape: "same_shape m (fst (service_start_module fork_pid x m))"
  by (simp add: service_start_module_def init_module_variables_def same_shape_def Let_def)

lemma start_sent: "\<not> sent_sigint (fst (service_start_module fork_pid x m))"
  "snd (service_start_module fork_pid x m) = [Fork x]"
  by (simp_all add: service_start_module_def init_module_variables_def Let_def)

lemma timer_step_shape: "same_shape m (restart_timer_step m)"
  by (simp add: same_shape_def)

lemma no_kill_close_sd [simp]: "no_kill (snd (close_sd m))"
  by (simp add: close_sd_def)

lemma no_kill_disconnect [simp]: "no_kill (snd (service_disconnect_from_module m))"
  by (simp add: service_disconnect_from_module_def case_prod_unfold Let_def)

text \<open>A body that sends no signal and keeps identifier and mark, or clears one of them, is harmless.\<close>

lemma quiet_body_signals:
  assumes "no_kill es" "sent_inv tr m"
    and "\<not> sent_sigint m' \<or> \<not> 0 < module_pid m' \<or> sent_sigint m' = sent_sigint m \<and> module_pid m' = module_pid m"
  shows "signals_ok tr es \<and> sent_inv (tr @ es) m'"
  using assms no_kill_signals_ok[OF assms(1), of tr] by (auto simp: sent_inv_def)

interpretation check_ms: module_sweep "check_status_body kill0" True for kill0
proof
  fix m x tr
  show "mod_ok m \<Longrightarrow> mod_ok (fst (check_status_body kill0 x m))" by (rule check_sweep.body_inv)
  show "same_shape m (fst (check_status_body kill0 x m))"
    by (simp add: check_status_body_def same_shape_def close_sd_def split: kill_result.split)
  show "sent_inv tr m \<Longrightarrow> signals_ok tr (snd (check_status_body kill0 x m)) \<and>
      sent_inv (tr @ snd (check_status_body kill0 x m)) (fst (check_status_body kill0 x m))"
    by (rule quiet_body_signals)
      (auto simp: check_status_body_def case_prod_unfold Let_def split: kill_result.split)
qed

interpretation clean_ms: module_sweep "clean_body waitp" True for waitp
proof
  fix m x tr
  show "mod_ok m \<Longrightarrow> mod_ok (fst (clean_body waitp x m))" by (rule clean_sweep.body_inv)
  show "same_shape m (fst (clean_body waitp x m))"
    by (simp add: clean_body_def same_shape_def split: wait_result.split)
  show "sent_inv tr m \<Longrightarrow> signals_ok tr (snd (clean_body waitp x m)) \<and>
      sent_inv (tr @ snd (clean_body waitp x m)) (fst (clean_body waitp x m))"
    by (rule quiet_body_signals) (auto simp: clean_body_def split: wait_result.split)
qed

interpretation update_ms: module_sweep "update_status_body ps cfg fork_pid" "fork_ok fork_pid" for ps cfg fork_pid
proof
  fix m x tr
  show "fork_ok fork_pid \<Longrightarrow> mod_ok m \<Longrightarrow> mod_ok (fst (update_status_body ps cfg fork_pid x m))"
    using update_sweep.body_inv by blast
  show "same_shape m (fst (update_status_body ps cfg fork_pid x m))"
    using start_shape[of "restart_timer_step m" fork_pid x] timer_step_shape[of m]
    by (auto simp: update_status_body_def Let_def same_shape_def)
  show "sent_inv tr m \<Longrightarrow> signals_ok tr (snd (update_status_body ps cfg fork_pid x m)) \<and>
      sent_inv (tr @ snd (update_status_body ps cfg fork_pid x m)) (fst (update_status_body ps cfg fork_pid x m))"
    by (rule quiet_body_signals) (auto simp: update_status_body_def start_sent Let_def)
qed

interpretation sigint_ms: module_sweep "sigint_body ps" True for ps
proof
  fix m x tr
  show "mod_ok m \<Longrightarrow> mod_ok (fst (sigint_body ps x m))" by (rule sigint_sweep.body_inv)
  show "same_shape m (fst (sigint_body ps x m))" by (simp add: sigint_body_def same_shape_def)
  show "mod_ok m \<Longrightarrow> sent_inv tr m \<Longrightarrow> signals_ok tr (snd (sigint_body ps x m)) \<and>
      sent_inv (tr @ snd (sigint_body ps x m)) (fst (sigint_body ps x m))"
    by (auto simp: sigint_body_def sent_inv_def mod_ok_defs)
qed

lemma no_kill_unlink [simp]: "no_kill (unlink_ifc_socket sock_path ifc)" "no_kill (unlink_service_socket sock_path m)"
  by (simp_all add: unlink_ifc_socket_def unlink_service_socket_def sprintf_into_def split: option.split)

lemma no_kill_concat: "\<forall>es \<in> set ess. no_kill es \<Longrightarrow> no_kill (concat ess)"
  by (auto simp: no_kill_def)

interpretation sigkill_ms: module_sweep "sigkill_body ps sock_path" True for ps sock_path
proof
  fix m x tr
  show "mod_ok m \<Longrightarrow> mod_ok (fst (sigkill_body ps sock_path x m))" by (rule sigkill_sweep.body_inv)
  show "same_shape m (fst (sigkill_body ps sock_path x m))" by (simp add: sigkill_body_def same_shape_def)
  assume m: "mod_ok m" "sent_inv tr m"
  let ?us = "concat (map (unlink_ifc_socket sock_path) (take (config_ifces_cnt m) (config_ifces m))) @
      unlink_service_socket sock_path m"
  have "no_kill ?us" by (simp add: no_kill_concat)
  then have us: "signals_ok t ?us" for t by (rule no_kill_signals_ok)
  show "signals_ok tr (snd (sigkill_body ps sock_path x m)) \<and>
      sent_inv (tr @ snd (sigkill_body ps sock_path x m)) (fst (sigkill_body ps sock_path x m))"
  proof (cases "module_status m \<and> stop_wanted ps m \<and> sent_sigint m")
    case True
    with m have "signal_ok tr (Kill (- module_pid m) 9)" by (auto simp: sent_inv_def mod_ok_defs)
    with True us[of "tr @ [Kill (- module_pid m) 9]"] m(2) show ?thesis
      by (auto simp: sigkill_body_def sent_inv_def)
  next
    case False
    with m show ?thesis by (auto simp: sigkill_body_def)
  qed
qed

interpretation resources_ms: module_sweep "resources_body proc d" True for proc d
proof
  fix m x tr
  have k: "msg_keeps m (fst (resources_body proc d x m))"
    by (rule without_resources_eq[OF without_resources_body])
  have e: "snd (resources_body proc d x m) = []"
    by (simp add: resources_body_def Let_def split: option.split list.split)
  show "mod_ok m \<Longrightarrow> mod_ok (fst (resources_body proc d x m))" using k by (simp add: msg_keeps_def)
  show "same_shape m (fst (resources_body proc d x m))" using k by (simp add: msg_keeps_def)
  show "sent_inv tr m \<Longrightarrow> signals_ok tr (snd (resources_body proc d x m)) \<and>
      sent_inv (tr @ snd (resources_body proc d x m)) (fst (resources_body proc d x m))"
    using k by (simp add: e msg_keeps_def sent_inv_def)
qed

interpretation connections_ms: module_sweep "check_connection_body sock_path conn" "conn_ok conn" for sock_path conn
proof
  fix m x tr
  show "conn_ok conn \<Longrightarrow> mod_ok m \<Longrightarrow> mod_ok (fst (check_connection_body sock_path conn x m))"
    using connection_sweep.body_inv by blast
  show "same_shape m (fst (check_connection_body sock_path conn x m))"
    by (simp add: check_connection_body_def service_connect_to_module_def close_sd_def same_shape_def Let_def
        split: conn_result.split)
  show "sent_inv tr m \<Longrightarrow> signals_ok tr (snd (check_connection_body sock_path conn x m)) \<and>
      sent_inv (tr @ snd (check_connection_body sock_path conn x m)) (fst (check_connection_body sock_path conn x m))"
    by (rule quiet_body_signals)
      (auto simp: check_connection_body_def service_connect_to_module_def close_sd_def sprintf_into_def Let_def
        split: conn_result.split)
qed

subsection \<open>One period\<close>

text \<open>
  What the outside world answers during one period. The four checks of a period see different
  moments, as do the two calls that reap children.
\<close>

record period_env =
  kill0_first :: "int \<Rightarrow> kill_result"
  kill0_second :: "int \<Rightarrow> kill_result"
  kill0_third :: "int \<Rightarrow> kill_result"
  kill0_fourth :: "int \<Rightarrow> kill_result"
  waitp_first :: "int \<Rightarrow> wait_result"
  waitp_second :: "int \<Rightarrow> wait_result"
  fork_result :: "nat \<Rightarrow> int"
  conn_answers :: "string \<Rightarrow> conn_result"
  proc_files :: "string \<Rightarrow> string list option"
  send_answers :: "nat \<Rightarrow> nat \<Rightarrow> nat \<Rightarrow> send_result"
  recv_answers :: "nat \<Rightarrow> nat \<Rightarrow> nat \<Rightarrow> io_result"

definition answers_ok :: "period_env \<Rightarrow> bool" where
  "answers_ok env \<longleftrightarrow> fork_ok (fork_result env) \<and> conn_ok (conn_answers env)"

definition bind_ev :: "sup \<times> os_event list \<Rightarrow> (sup \<Rightarrow> sup \<times> os_event list) \<Rightarrow> sup \<times> os_event list" where
  "bind_ev r f = (let (s, es) = r; (s', es') = f s in (s', es @ es'))"

text \<open>From the update of the modules' status to the loop that serves reloaded modules.\<close>

definition control_phase :: "(string \<Rightarrow> string) \<Rightarrow> period_env \<Rightarrow> sup \<Rightarrow> sup \<times> os_event list" where
  "control_phase sock_path env s =
     bind_ev (bind_ev (bind_ev (bind_ev (bind_ev (bind_ev
       (service_update_modules_status (fork_result env) s)
       service_stop_modules_sigint)
       (service_clean_after_children (waitp_first env)))
       (\<lambda>s. fst (service_check_modules_status (kill0_second env) s)))
       (service_stop_modules_sigkill sock_path))
       (service_clean_after_children (waitp_second env)))
       (serve_loop 0)"

text \<open>
  The exchange of requests and replies; \<open>None\<close> when sending a request does not return. The receive
  buffer's size is carried from one period to the next.
\<close>

definition request_phase :: "period_env \<Rightarrow> sup \<Rightarrow> (sup \<times> os_event list) option" where
  "request_phase env s =
     map_option (\<lambda>(ms, es). (s\<lparr>running_modules := ms\<rparr>, es))
       (request_loop (send_answers env) 0 (loaded_modules_cnt s) (running_modules s))"

definition reply_phase ::
  "('j, 'z) jansson_scheme \<Rightarrow> (u32 \<Rightarrow> bool) \<Rightarrow> period_env \<Rightarrow> u32 \<Rightarrow> sup \<Rightarrow> (sup \<times> os_event list) \<times> u32" where
  "reply_phase J calloc_ok env buffer_size s =
     (let ((ms, es), bs) = reply_loop J calloc_ok (recv_answers env) 0 (loaded_modules_cnt s) buffer_size (running_modules s)
      in ((s\<lparr>running_modules := ms\<rparr>, es), bs))"

definition statistics_phase ::
  "('j, 'z) jansson_scheme \<Rightarrow> (u32 \<Rightarrow> bool) \<Rightarrow> (string \<Rightarrow> string) \<Rightarrow> period_env \<Rightarrow> u32 \<Rightarrow> sup
     \<Rightarrow> ((sup \<times> os_event list) \<times> u32) option" where
  "statistics_phase J calloc_ok sock_path env buffer_size s =
     (let (s1, es1) = bind_ev (bind_ev (fst (service_check_modules_status (kill0_third env) s))
                        (\<lambda>s. (update_modules_resources_usage (proc_files env) s, [])))
                        (service_check_connections sock_path (conn_answers env))
      in case request_phase env s1 of
           None \<Rightarrow> None
         | Some (s2, es2) \<Rightarrow>
             (let (s3, es3) = fst (service_check_modules_status (kill0_fourth env) s2);
                  ((s4, es4), bs) = reply_phase J calloc_ok env buffer_size s3
              in Some ((s4, es1 @ es2 @ es3 @ es4), bs)))"

text \<open>
  \<open>Thread_Exit\<close>: the loop is left, all modules are disconnected and the thread ends.
\<close>

datatype 'a period_result = Thread_Exit "sup \<times> os_event list" | Period_Done 'a | Hangs

definition thread_exits :: "sup \<Rightarrow> nat \<Rightarrow> bool" where
  "thread_exits s running_modules_cnt \<longleftrightarrow>
     \<not> service_thread_continue s \<and> (\<not> service_stop_all_modules s \<or> running_modules_cnt = 0)"

definition disconnect_all :: "sup \<Rightarrow> sup \<times> os_event list" where
  "disconnect_all s = sweep (\<lambda>x. service_disconnect_from_module) s"

definition service_period ::
  "('j, 'z) jansson_scheme \<Rightarrow> (u32 \<Rightarrow> bool) \<Rightarrow> (string \<Rightarrow> string) \<Rightarrow> period_env \<Rightarrow> u32 \<Rightarrow> sup
     \<Rightarrow> ((sup \<times> os_event list) \<times> u32) period_result" where
  "service_period J calloc_ok sock_path env buffer_size s =
     (let ((s1, es1), running_modules_cnt) = service_check_modules_status (kill0_first env) s
      in if thread_exits s1 running_modules_cnt then Thread_Exit (bind_ev (s1, es1) disconnect_all)
         else (let (s2, es2) = bind_ev (s1, es1) (control_phase sock_path env)
               in case statistics_phase J calloc_ok sock_path env buffer_size s2 of
                    None \<Rightarrow> Hangs
                  | Some ((s3, es3), bs) \<Rightarrow> Period_Done ((s3, es2 @ es3), bs)))"

subsection \<open>The invariant of a period\<close>

definition step_ok :: "os_event list \<Rightarrow> sup \<times> os_event list \<Rightarrow> bool" where
  "step_ok tr r \<longleftrightarrow> service_inv (tr @ snd r) (fst r) \<and> signals_ok tr (snd r)"

lemma step_ok_start: "service_inv tr s \<Longrightarrow> step_ok tr (s, [])"
  by (simp add: step_ok_def)

lemma step_ok_bind:
  assumes "step_ok tr r" "\<And>t s. service_inv t s \<Longrightarrow> step_ok t (f s)"
  shows "step_ok tr (bind_ev r f)"
  using assms(1) assms(2)[of "tr @ snd r" "fst r"] by (simp add: step_ok_def bind_ev_def case_prod_unfold Let_def)

lemma step_ok_loops [inv_intros]:
  "service_inv tr s \<Longrightarrow> step_ok tr (fst (service_check_modules_status kill0 s))"
  "service_inv tr s \<Longrightarrow> step_ok tr (service_clean_after_children waitp s)"
  "service_inv tr s \<Longrightarrow> step_ok tr (service_stop_modules_sigint s)"
  "service_inv tr s \<Longrightarrow> step_ok tr (service_stop_modules_sigkill sock_path s)"
  "fork_ok fork_pid \<Longrightarrow> service_inv tr s \<Longrightarrow> step_ok tr (service_update_modules_status fork_pid s)"
  "conn_ok conn \<Longrightarrow> service_inv tr s \<Longrightarrow> step_ok tr (service_check_connections sock_path conn s)"
  by (simp_all add: step_ok_def service_check_modules_status_def service_clean_after_children_def
      service_stop_modules_sigint_def service_stop_modules_sigkill_def service_update_modules_status_def
      service_check_connections_def check_ms.sweep_service_inv clean_ms.sweep_service_inv
      sigint_ms.sweep_service_inv sigkill_ms.sweep_service_inv update_ms.sweep_service_inv
      connections_ms.sweep_service_inv)

text \<open>Serving reloaded modules.\<close>

lemma serve_module_no_kill: "no_kill (snd (serve_module y s))"
  by (simp add: serve_module_def case_prod_unfold Let_def)

lemma serve_loop_no_kill: "no_kill (snd (serve_loop y s))"
proof (induction y s rule: serve_loop.induct)
  case (1 y s)
  then show ?case
    using serve_module_no_kill by (subst serve_loop_unfold) (auto simp: prod_eq_iff)
qed

lemma serve_module_sent:
  assumes "wf_sup s" "y < loaded_modules_cnt s" "\<forall>m \<in> set (running_modules s). sent_inv tr m"
  shows "\<forall>m \<in> set (running_modules (fst (serve_module y s))). sent_inv tr m"
proof (cases rule: serve_module_cases[of s y])
  case removed
  with assms shift_array_all[of s y "sent_inv tr"] show ?thesis by simp
next
  case (kept m')
  have "running_modules s ! y \<in> set (running_modules s)" using assms by (simp add: wf_sup_def)
  with kept assms(3) have "sent_inv tr m'" by (auto simp: sent_inv_def)
  with kept(2) assms(3) show ?thesis
    using set_update_subset_insert[of "running_modules s" y m'] by (auto simp: set_module_def)
qed

lemma step_ok_serve [inv_intros]: "service_inv tr s \<Longrightarrow> step_ok tr (serve_loop y s)"
proof -
  assume inv: "service_inv tr s"
  have "service_inv tr (fst (serve_loop y s))"
  proof (rule serve_loop_keeps[of "service_inv tr"])
    show "service_inv tr s" by (rule inv)
    fix y t
    assume "service_inv tr t" "y < loaded_modules_cnt t"
    then show "service_inv tr (fst (serve_module y t))"
      using serve_module_ok[of t y] serve_module_sent[of t y tr] by (simp add: service_inv_def)
  qed
  then show ?thesis
    using serve_loop_no_kill[of y s] no_kill_signals_ok sent_inv_mono
    by (auto simp: step_ok_def service_inv_def)
qed

text \<open>The message loops.\<close>

lemma service_inv_msg:
  assumes "service_inv tr s" "list_all2 msg_keeps (running_modules s) ms"
  shows "service_inv tr (s\<lparr>running_modules := ms\<rparr>)"
proof -
  have "list_all2 same_shape (running_modules s) ms"
    using assms(2) by (rule list_all2_mono) (simp add: msg_keeps_def)
  then have "wf_sup (s\<lparr>running_modules := ms\<rparr>)" using assms(1) by (intro wf_sup_same_shape) (simp_all add: service_inv_def)
  moreover have "mod_ok m' \<and> sent_inv tr m'" if m': "m' \<in> set ms" for m'
  proof -
    from m' assms(2) obtain m where "m \<in> set (running_modules s)" "msg_keeps m m'"
      by (metis in_set_conv_nth list_all2_conv_all_nth)
    with assms(1) show ?thesis by (auto simp: msg_keeps_def service_inv_def all_mod_ok_def sent_inv_def)
  qed
  ultimately show ?thesis by (simp add: service_inv_def all_mod_ok_def)
qed

lemma request_loop_no_kill: "request_loop snd_call x n ms = Some (ms', es) \<Longrightarrow> no_kill es"
proof (induction snd_call x n ms arbitrary: ms' es rule: request_loop.induct)
  case (3 snd_call x n m ms)
  then obtain m1 es1 ms1 es2 where r: "request_body snd_call x m = Some (m1, es1)"
      "request_loop snd_call (Suc x) n ms = Some (ms1, es2)" "es = es1 @ es2"
    by (auto split: option.splits)
  moreover from r(1) have "no_kill es1"
    using no_kill_disconnect[of m]
    by (auto simp: request_body_def simp del: no_kill_disconnect split: if_splits option.splits)
  ultimately show ?case using 3 by auto
qed auto

lemma reply_body_no_kill:
  assumes "mod_ok m"
  shows "no_kill (snd (fst (reply_body J calloc_ok recv buffer_size m)))"
  using decode_stats_ok[of m J calloc_ok] assms
  by (simp add: reply_body_def fits_buffer_def read_string_def case_prod_unfold Let_def mod_ok_def split: option.split)

lemma reply_loop_no_kill:
  "\<forall>m \<in> set ms. mod_ok m \<Longrightarrow> no_kill (snd (fst (reply_loop J calloc_ok recv x n buffer_size ms)))"
proof (induction J calloc_ok recv x n buffer_size ms rule: reply_loop.induct)
  case (3 J calloc_ok recv x n buffer_size m ms)
  then show ?case
    using reply_body_no_kill[of m J calloc_ok "recv x" buffer_size]
    by (simp add: case_prod_unfold Let_def prod_eq_iff)
qed simp_all

lemma step_ok_request:
  assumes "service_inv tr s" "request_phase env s = Some r"
  shows "step_ok tr r"
proof -
  obtain ms es where l: "request_loop (send_answers env) 0 (loaded_modules_cnt s) (running_modules s) = Some (ms, es)"
      "r = (s\<lparr>running_modules := ms\<rparr>, es)"
    using assms(2) by (auto simp: request_phase_def)
  have "service_inv tr (s\<lparr>running_modules := ms\<rparr>)"
    by (rule service_inv_msg[OF assms(1) request_loop_keeps[OF l(1)]])
  then show ?thesis
    using l no_kill_signals_ok[OF request_loop_no_kill[OF l(1)]]
    by (auto simp: step_ok_def service_inv_def intro: sent_inv_mono)
qed

lemma step_ok_reply:
  assumes "service_inv tr s"
  shows "step_ok tr (fst (reply_phase J calloc_ok env buffer_size s))"
proof -
  let ?r = "reply_loop J calloc_ok (recv_answers env) 0 (loaded_modules_cnt s) buffer_size (running_modules s)"
  have ok: "\<forall>m \<in> set (running_modules s). mod_ok m" using assms by (simp add: service_inv_def all_mod_ok_def)
  have "service_inv tr (s\<lparr>running_modules := fst (fst ?r)\<rparr>)"
    by (rule service_inv_msg[OF assms reply_loop_keeps[OF ok]])
  then show ?thesis
    using no_kill_signals_ok[OF reply_loop_no_kill[OF ok]]
    by (auto simp: step_ok_def service_inv_def reply_phase_def case_prod_unfold Let_def intro: sent_inv_mono)
qed

lemma step_ok_resources: "service_inv tr s \<Longrightarrow> step_ok tr (update_modules_resources_usage proc s, [])"
proof -
  assume inv: "service_inv tr s"
  have "service_inv tr (fst (sweep (resources_body proc d) (s\<lparr>last_total_cpu := n\<rparr>)))" for d n
  proof -
    let ?s = "s\<lparr>last_total_cpu := n\<rparr>"
    have "service_inv tr ?s" using inv by (simp add: service_inv_def wf_sup_def all_mod_ok_def loaded_def)
    moreover have "snd (sweep (resources_body proc d) ?s) = []"
    proof -
      have "e \<notin> set (snd (for_upto (resources_body proc d) 0 k ms))" for e k ms
        by (simp add: for_upto_events resources_body_def Let_def split: option.split list.split)
      then have "set (snd (for_upto (resources_body proc d) 0 k ms)) = {}" for k ms by (intro equals0I) metis
      then show ?thesis by (simp add: sweep_def case_prod_unfold Let_def)
    qed
    ultimately show ?thesis using resources_ms.sweep_service_inv[of tr ?s proc d] by simp
  qed
  with inv show ?thesis
    by (auto simp: step_ok_def update_modules_resources_usage_def Let_def split: prod.split bool.split)
qed

interpretation disconnect_ms: module_sweep "\<lambda>x. service_disconnect_from_module" True
proof
  fix m x tr
  show "mod_ok m \<Longrightarrow> mod_ok (fst (service_disconnect_from_module m))" by (rule disconnect_sweep.body_inv)
  show "same_shape m (fst (service_disconnect_from_module m))" by (rule disconnect_shape)
  show "sent_inv tr m \<Longrightarrow> signals_ok tr (snd (service_disconnect_from_module m)) \<and>
      sent_inv (tr @ snd (service_disconnect_from_module m)) (fst (service_disconnect_from_module m))"
    by (rule quiet_body_signals) auto
qed

lemma step_okD: "step_ok tr r \<Longrightarrow> service_inv (tr @ snd r) (fst r)"
  by (simp add: step_ok_def)

lemma step_ok_disconnect_all [inv_intros]: "service_inv tr s \<Longrightarrow> step_ok tr (disconnect_all s)"
  by (simp add: step_ok_def disconnect_all_def disconnect_ms.sweep_service_inv)

lemma step_ok_control [inv_intros]:
  "answers_ok env \<Longrightarrow> service_inv tr s \<Longrightarrow> step_ok tr (control_phase sock_path env s)"
  unfolding control_phase_def answers_ok_def by (intro step_ok_bind inv_intros) auto

lemma step_ok_statistics:
  assumes "answers_ok env" "service_inv tr s"
    and "statistics_phase J calloc_ok sock_path env buffer_size s = Some (r, bs)"
  shows "step_ok tr r"
proof -
  define r1 where "r1 = bind_ev (bind_ev (fst (service_check_modules_status (kill0_third env) s))
      (\<lambda>s. (update_modules_resources_usage (proc_files env) s, []))) (service_check_connections sock_path (conn_answers env))"
  have 1: "step_ok tr r1"
    unfolding r1_def using assms(1,2)
    by (intro step_ok_bind) (auto simp: answers_ok_def intro: inv_intros step_ok_resources)
  from assms(3) obtain r2 where r2: "request_phase env (fst r1) = Some r2"
    by (auto simp: statistics_phase_def r1_def[symmetric] case_prod_unfold Let_def split: option.splits)
  define r3 where "r3 = fst (service_check_modules_status (kill0_fourth env) (fst r2))"
  define r4 where "r4 = fst (reply_phase J calloc_ok env buffer_size (fst r3))"
  have r: "r = (fst r4, snd r1 @ snd r2 @ snd r3 @ snd r4)"
    using assms(3) r2 by (auto simp: statistics_phase_def r1_def[symmetric] r3_def r4_def case_prod_unfold Let_def)
  have 2: "step_ok (tr @ snd r1) r2" by (rule step_ok_request[OF step_okD[OF 1] r2])
  have 3: "step_ok ((tr @ snd r1) @ snd r2) r3" unfolding r3_def by (rule step_ok_loops(1)[OF step_okD[OF 2]])
  have 4: "step_ok (((tr @ snd r1) @ snd r2) @ snd r3) r4" unfolding r4_def by (rule step_ok_reply[OF step_okD[OF 3]])
  show ?thesis using 1 2 3 4 by (simp add: r step_ok_def)
qed

lemma period_done_ok:
  assumes "answers_ok env" "service_inv tr s"
    and "service_period J calloc_ok sock_path env buffer_size s = Period_Done ((s', es), bs)"
  shows "service_inv (tr @ es) s' \<and> signals_ok tr es"
proof -
  define r1 where "r1 = fst (service_check_modules_status (kill0_first env) s)"
  define r2 where "r2 = bind_ev r1 (control_phase sock_path env)"
  have 2: "step_ok tr r2"
    unfolding r2_def r1_def using assms(1,2) by (intro step_ok_bind) (auto intro: inv_intros)
  obtain r3 where r3: "statistics_phase J calloc_ok sock_path env buffer_size (fst r2) = Some (r3, bs)"
      "s' = fst r3" "es = snd r2 @ snd r3"
    using assms(3)
    by (auto simp: service_period_def r2_def r1_def case_prod_unfold Let_def split: if_splits option.splits)
  have "step_ok (tr @ snd r2) r3"
    by (rule step_ok_statistics[OF assms(1) step_okD[OF 2] r3(1)])
  with 2 r3 show ?thesis by (simp add: step_ok_def)
qed

text \<open>
  C9. A period of the service thread keeps the invariant of the whole state: arrays of the recorded
  sizes, distinct module names, valid profile pointers, a process identifier for every module
  reported as running, a descriptor for every connected module, bounded restart counters and
  consistent statistics arrays; and in its sequence of system calls every signal goes to a process
  group, \<open>SIGKILL\<close> only to one that has been sent \<open>SIGINT\<close> before.
\<close>

theorem service_period_invariant:
  assumes "answers_ok env" "service_inv tr s"
    and "service_period J calloc_ok sock_path env buffer_size s = Period_Done ((s', es), bs)"
  shows "service_inv (tr @ es) s' \<and> signals_ok tr es"
  using assms by (rule period_done_ok)

lemma thread_exit_ok:
  assumes "service_inv tr s" "service_period J calloc_ok sock_path env buffer_size s = Thread_Exit r"
  shows "step_ok tr r"
proof -
  have "r = bind_ev (fst (service_check_modules_status (kill0_first env) s)) disconnect_all"
    using assms(2) by (auto simp: service_period_def case_prod_unfold Let_def split: if_splits option.splits)
  then show ?thesis using assms(1) by (auto intro!: step_ok_bind inv_intros)
qed

lemma statistics_phase_returns:
  assumes "\<forall>x. send_progress (send_answers env x)"
  shows "\<exists>r. statistics_phase J calloc_ok sock_path env buffer_size t = Some r"
proof -
  have "\<exists>r. request_phase env t = Some r" for t
    using request_loop_returns[of "send_answers env" 0 "loaded_modules_cnt t" "running_modules t"] assms
    by (auto simp: request_phase_def)
  then show ?thesis
    by (auto simp: statistics_phase_def case_prod_unfold Let_def split: option.split)
qed

lemma service_period_done:
  assumes "\<forall>x. send_progress (send_answers env x)" "service_thread_continue s"
  shows "\<exists>s' es bs. service_period J calloc_ok sock_path env buffer_size s = Period_Done ((s', es), bs)"
proof -
  let ?s2 = "fst (bind_ev (fst (service_check_modules_status (kill0_first env) s)) (control_phase sock_path env))"
  obtain r where "statistics_phase J calloc_ok sock_path env buffer_size ?s2 = Some r"
    using statistics_phase_returns[OF assms(1)] by blast
  moreover have "service_thread_continue (fst (fst (service_check_modules_status (kill0_first env) s)))"
    using assms(2) by (simp add: service_check_modules_status_def sweep_def case_prod_unfold Let_def)
  ultimately show ?thesis
    by (simp add: service_period_def thread_exits_def case_prod_unfold Let_def)
qed

lemma period_not_hangs:
  assumes "\<forall>x. send_progress (send_answers env x)"
  shows "service_period J calloc_ok sock_path env buffer_size s \<noteq> Hangs"
  using statistics_phase_returns[OF assms, of J calloc_ok sock_path buffer_size
      "fst (bind_ev (fst (service_check_modules_status (kill0_first env) s)) (control_phase sock_path env))"]
  by (auto simp: service_period_def case_prod_unfold Let_def)

text \<open>
  A period ends: when \<open>send\<close> accepts at least one byte or fails, the thread either completes the
  period or leaves its loop.
\<close>

theorem service_period_returns:
  assumes "\<forall>x. send_progress (send_answers env x)"
  shows "service_period J calloc_ok sock_path env buffer_size s \<noteq> Hangs"
  using assms by (rule period_not_hangs)

text \<open>A world in which no process exists and every call fails.\<close>

definition dead_env :: period_env where
  "dead_env = \<lparr>kill0_first = (\<lambda>p. Kill_ESRCH), kill0_second = (\<lambda>p. Kill_ESRCH), kill0_third = (\<lambda>p. Kill_ESRCH),
     kill0_fourth = (\<lambda>p. Kill_ESRCH), waitp_first = (\<lambda>p. Wait_ECHILD), waitp_second = (\<lambda>p. Wait_ECHILD),
     fork_result = (\<lambda>x. -1), conn_answers = (\<lambda>p. Socket_Failed), proc_files = (\<lambda>p. None),
     send_answers = (\<lambda>x k n. Send_Error), recv_answers = (\<lambda>x k n. Io_Error)\<rparr>"

lemma dead_env_ok: "answers_ok dead_env" "\<forall>x. send_progress (send_answers dead_env x)"
  by (simp_all add: answers_ok_def dead_env_def fork_ok_def conn_ok_def send_progress_def)

lemma service_inv_two_removed: "service_inv [] two_removed"
  using wf_two_removed
  by (auto simp: service_inv_def all_mod_ok_def two_removed_def fresh_module_def zero_module_def mod_ok_defs
      stat_cells_def sent_inv_def)

theorem service_period_invariant_witness:
  "\<exists>s' es bs. service_period (jval_lib (\<lambda>d. None)) (\<lambda>n. True) (\<lambda>p. p) dead_env 256 two_removed = Period_Done ((s', es), bs) \<and>
     service_inv es s' \<and> signals_ok [] es"
proof -
  have "service_thread_continue two_removed" by (simp add: two_removed_def)
  from service_period_done[OF dead_env_ok(2) this, of "jval_lib (\<lambda>d. None)" "\<lambda>n. True" "\<lambda>p. p" 256]
  obtain s' es bs where r: "service_period (jval_lib (\<lambda>d. None)) (\<lambda>n. True) (\<lambda>p. p) dead_env 256 two_removed = Period_Done ((s', es), bs)"
    by blast
  with service_period_invariant[OF dead_env_ok(1) service_inv_two_removed r] show ?thesis by auto
qed

theorem service_period_returns_witness:
  "service_period (jval_lib (\<lambda>d. None)) (\<lambda>n. True) (\<lambda>p. p) dead_env 256 two_removed \<noteq> Hangs"
  by (rule service_period_returns[OF dead_env_ok(2)])

subsection \<open>What a period does to a module\<close>

lemma sweep_nth:
  "x < loaded_modules_cnt s \<Longrightarrow> x < length (running_modules s) \<Longrightarrow>
     running_modules (fst (sweep body s)) ! x = fst (body x (running_modules s ! x))"
  by (simp add: sweep_def case_prod_unfold Let_def for_upto_nth)

lemma sweep_event:
  "x < loaded_modules_cnt s \<Longrightarrow> x < length (running_modules s) \<Longrightarrow>
     e \<in> set (snd (body x (running_modules s ! x))) \<Longrightarrow> e \<in> set (snd (sweep body s))"
  by (auto simp: sweep_def case_prod_unfold Let_def for_upto_events)

lemma sweep_frame [simp]:
  "loaded_modules_cnt (fst (sweep body s)) = loaded_modules_cnt s"
  "length (running_modules (fst (sweep body s))) = length (running_modules s)"
  "profiles (fst (sweep body s)) = profiles s"
  "module_restarts_num_config (fst (sweep body s)) = module_restarts_num_config s"
  by (simp_all add: sweep_def case_prod_unfold Let_def)

lemma bind_ev_simps: "fst (bind_ev r f) = fst (f (fst r))" "snd (bind_ev r f) = snd r @ snd (f (fst r))"
  by (simp_all add: bind_ev_def case_prod_unfold Let_def)

lemma period_events:
  assumes "service_period J calloc_ok sock_path env buffer_size s = Period_Done ((s', es), bs)"
    and "e \<in> set (snd (control_phase sock_path env (fst (sweep (check_status_body (kill0_first env)) s))))"
  shows "e \<in> set es"
  using assms
  by (auto simp: service_period_def service_check_modules_status_def case_prod_unfold Let_def bind_ev_simps
      split: if_splits option.splits)

text \<open>A disabled module that is alive at both checks is interrupted and then killed.\<close>

lemma control_phase_kills:
  assumes "x < loaded_modules_cnt s" "x < length (running_modules s)"
    and m: "m = running_modules s ! x" "0 < module_pid m" "module_status m" "\<not> module_root_perm_needed m"
    and "stop_wanted (profiles s) m" "kill0_second env (module_pid m) = Kill_Ok"
  shows "Kill (- module_pid m) 9 \<in> set (snd (control_phase sock_path env s))"
    and "\<not> sent_sigint m \<Longrightarrow> Kill (- module_pid m) 2 \<in> set (snd (control_phase sock_path env s))"
proof -
  let ?upd = "update_status_body (profiles s) (module_restarts_num_config s) (fork_result env)"
  define s2 where "s2 = fst (sweep ?upd s)"
  define s3 where "s3 = fst (sweep (sigint_body (profiles s)) s2)"
  define s4 where "s4 = fst (sweep (clean_body (waitp_first env)) s3)"
  define s5 where "s5 = fst (sweep (check_status_body (kill0_second env)) s4)"
  have x: "x < loaded_modules_cnt t \<and> x < length (running_modules t)" if "t \<in> {s, s2, s3, s4, s5}" for t
    using that assms(1,2) by (auto simp: s2_def s3_def s4_def s5_def)
  have m2: "running_modules s2 ! x = restart_timer_step m"
    using sweep_nth[of x s ?upd] x m by (simp add: s2_def update_status_body_def Let_def)
  have sw: "stop_wanted (profiles s) (restart_timer_step m)"
    using assms(7) by (simp add: stop_wanted_def profile_is_disabled_def profile_ref_def)
  have m3: "running_modules s3 ! x = fst (sigint_body (profiles s) x (restart_timer_step m))"
    using sweep_nth[of x s2 "sigint_body (profiles s)"] x m2 by (simp add: s3_def)
  have m4: "running_modules s4 ! x = fst (clean_body (waitp_first env) x (running_modules s3 ! x))"
    using sweep_nth[of x s3] x by (simp add: s4_def)
  have m5: "running_modules s5 ! x = fst (check_status_body (kill0_second env) x (running_modules s4 ! x))"
    using sweep_nth[of x s4] x by (simp add: s5_def)
  have "module_pid (running_modules s4 ! x) = module_pid m \<and> sent_sigint (running_modules s4 ! x) \<and>
      stop_wanted (profiles s) (running_modules s4 ! x)"
    using m sw unfolding m4 m3
    by (auto simp: sigint_body_def clean_body_def stop_wanted_def profile_is_disabled_def profile_ref_def
        split: wait_result.split)
  then have "module_pid (running_modules s5 ! x) = module_pid m \<and> sent_sigint (running_modules s5 ! x) \<and>
      stop_wanted (profiles s) (running_modules s5 ! x) \<and> module_status (running_modules s5 ! x)"
    using m(2) assms(8) unfolding m5
    by (simp add: check_status_body_def stop_wanted_def profile_is_disabled_def profile_ref_def)
  then have "Kill (- module_pid m) 9 \<in> set (snd (sweep (sigkill_body (profiles s) sock_path) s5))"
    using x by (intro sweep_event[of x]) (auto simp: sigkill_body_def)
  then show "Kill (- module_pid m) 9 \<in> set (snd (control_phase sock_path env s))"
    by (simp add: control_phase_def bind_ev_simps service_update_modules_status_def service_stop_modules_sigint_def
        service_clean_after_children_def service_check_modules_status_def service_stop_modules_sigkill_def
        s2_def s3_def s4_def s5_def)
  assume "\<not> sent_sigint m"
  then have "Kill (- module_pid m) 2 \<in> set (snd (sweep (sigint_body (profiles s)) s2))"
    using x m sw m2 by (intro sweep_event[of x]) (auto simp: sigint_body_def)
  then show "Kill (- module_pid m) 2 \<in> set (snd (control_phase sock_path env s))"
    by (simp add: control_phase_def bind_ev_simps service_update_modules_status_def service_stop_modules_sigint_def
        s2_def)
qed

text \<open>
  C10. Stopping. A loaded module whose process is alive and which is disabled, itself or through its
  profile, is sent \<open>SIGINT\<close> in the period (unless it has been sent one already) and, when it is
  still alive half a second later, \<open>SIGKILL\<close> in the same period.
\<close>

theorem disabled_module_is_killed:
  assumes "wf_sup s" "x < loaded_modules_cnt s" "m = running_modules s ! x" "0 < module_pid m"
    and "kill0_first env (module_pid m) = Kill_Ok" "kill0_second env (module_pid m) = Kill_Ok"
    and "stop_wanted (profiles s) m"
    and "service_period J calloc_ok sock_path env buffer_size s = Period_Done ((s', es), bs)"
  shows "Kill (- module_pid m) 9 \<in> set es \<and> (sent_sigint m \<or> Kill (- module_pid m) 2 \<in> set es)"
proof -
  let ?s1 = "fst (sweep (check_status_body (kill0_first env)) s)"
  let ?m1 = "m\<lparr>module_status := True, module_root_perm_needed := False\<rparr>"
  have x: "x < length (running_modules s)" using assms by (simp add: wf_sup_def)
  have m1: "?m1 = running_modules ?s1 ! x"
    using sweep_nth[OF assms(2) x, of "check_status_body (kill0_first env)"] assms by (simp add: check_status_body_def)
  have sw: "stop_wanted (profiles ?s1) ?m1"
    using assms(7) by (simp add: stop_wanted_def profile_is_disabled_def profile_ref_def)
  note k = control_phase_kills[of x ?s1 ?m1 env sock_path, OF _ _ m1]
  have "Kill (- module_pid m) 9 \<in> set es"
    by (rule period_events[OF assms(8)]) (use k(1) x sw assms in simp)
  moreover have "Kill (- module_pid m) 2 \<in> set es" if "\<not> sent_sigint m"
    by (rule period_events[OF assms(8)]) (use k(2) x sw assms that in simp)
  ultimately show ?thesis by blast
qed

text \<open>
  C11. Starting. A loaded module that is enabled, whose profile is enabled, which is not running and
  whose restart counter is not at its limit is started in the period.
\<close>

theorem enabled_module_is_started:
  assumes "service_inv tr s" "x < loaded_modules_cnt s" "m = running_modules s ! x"
    and "module_enabled m" "profile_is_enabled (profiles s) m"
    and "0 < module_pid m \<longrightarrow> kill0_first env (module_pid m) = Kill_ESRCH"
    and "module_restart_cnt (restart_timer_step m) \<noteq> max_restarts (module_restarts_num_config s) m"
    and "service_period J calloc_ok sock_path env buffer_size s = Period_Done ((s', es), bs)"
  shows "Fork x \<in> set es"
proof -
  let ?s1 = "fst (sweep (check_status_body (kill0_first env)) s)"
  define m1 where "m1 = fst (check_status_body (kill0_first env) x m)"
  have x: "x < length (running_modules s)" using assms by (simp add: service_inv_def wf_sup_def)
  have "mod_ok m" using assms x by (auto simp: service_inv_def all_mod_ok_def)
  then have st: "\<not> module_status m1"
    using assms(6) by (auto simp: m1_def check_status_body_def close_sd_def mod_ok_defs)
  have m1: "running_modules ?s1 ! x = m1"
    using sweep_nth[OF assms(2) x] assms(3) by (simp add: m1_def)
  have same: "module_enabled m1 = module_enabled m" "profile_is_enabled (profiles s) m1 = profile_is_enabled (profiles s) m"
      "max_restarts (module_restarts_num_config s) m1 = max_restarts (module_restarts_num_config s) m"
      "module_restart_cnt (restart_timer_step m1) = module_restart_cnt (restart_timer_step m)"
    by (auto simp: m1_def check_status_body_def close_sd_def profile_is_enabled_def profile_ref_def max_restarts_def
        restart_timer_step_def split: kill_result.split)
  have "Fork x \<in> set (snd (update_status_body (profiles s) (module_restarts_num_config s) (fork_result env) x m1))"
    using st same assms(4,5,7) by (simp add: update_status_body_def Let_def start_sent)
  then have "Fork x \<in> set (snd (service_update_modules_status (fork_result env) ?s1))"
    unfolding service_update_modules_status_def using assms(2) x m1 by (intro sweep_event[of x]) simp_all
  then show ?thesis
    by (intro period_events[OF assms(8)]) (simp add: control_phase_def bind_ev_simps)
qed

text \<open>A state with one module under an enabled profile.\<close>

definition one_module :: "running_module \<Rightarrow> sup" where
  "one_module m = (demo_sup m)\<lparr>profiles := [\<lparr>profile_name = ''p'', profile_enabled = True\<rparr>], loaded_profile_cnt := 1\<rparr>"

definition alive_env :: period_env where
  "alive_env = dead_env\<lparr>kill0_first := (\<lambda>p. Kill_Ok), kill0_second := (\<lambda>p. Kill_Ok)\<rparr>"

lemma wf_one_module:
  "wf_ifces m \<Longrightarrow> module_profile m = Some 0 \<Longrightarrow> module_name m = Some nm \<Longrightarrow> wf_sup (one_module m)"
  by (simp add: wf_sup_def one_module_def demo_sup_def loaded_def wf_profile_def size_ok_def wf_ifces_def zero_module_def)

definition disabled_running :: running_module where
  "disabled_running = zero_module\<lparr>module_name := Some ''m'', module_profile := Some 0, module_pid := 42, module_status := True\<rparr>"

theorem disabled_module_is_killed_witness:
  "\<exists>s' es bs. service_period (jval_lib (\<lambda>d. None)) (\<lambda>n. True) (\<lambda>p. p) alive_env 256 (one_module disabled_running) =
       Period_Done ((s', es), bs) \<and> Kill (-42) 2 \<in> set es \<and> Kill (-42) 9 \<in> set es"
proof -
  let ?s = "one_module disabled_running"
  have wf: "wf_sup ?s"
    by (rule wf_one_module) (simp_all add: disabled_running_def zero_module_def wf_ifces_def size_ok_def)
  have f: "x < loaded_modules_cnt ?s \<longleftrightarrow> x = 0" "running_modules ?s ! 0 = disabled_running" "service_thread_continue ?s" for x
    by (auto simp: one_module_def demo_sup_def)
  have d: "module_pid disabled_running = 42" "\<not> sent_sigint disabled_running" "stop_wanted (profiles ?s) disabled_running"
    by (simp_all add: disabled_running_def zero_module_def stop_wanted_def)
  have "\<forall>x. send_progress (send_answers alive_env x)" using dead_env_ok(2) by (simp add: alive_env_def)
  from service_period_done[OF this f(3), of "jval_lib (\<lambda>d. None)" "\<lambda>n. True" "\<lambda>p. p" 256]
  obtain s' es bs where r: "service_period (jval_lib (\<lambda>d. None)) (\<lambda>n. True) (\<lambda>p. p) alive_env 256 ?s = Period_Done ((s', es), bs)"
    by blast
  have a: "kill0_first alive_env p = Kill_Ok" "kill0_second alive_env p = Kill_Ok" for p
    by (simp_all add: alive_env_def)
  from disabled_module_is_killed[OF wf _ f(2)[symmetric] _ _ _ _ r] d f(1) a
  have "Kill (-42) 2 \<in> set es \<and> Kill (-42) 9 \<in> set es" by auto
  with r show ?thesis by blast
qed

theorem enabled_module_is_started_witness:
  "\<exists>s' es bs. service_period (jval_lib (\<lambda>d. None)) (\<lambda>n. True) (\<lambda>p. p) dead_env 256 (one_module crashing_module) =
       Period_Done ((s', es), bs) \<and> Fork 0 \<in> set es"
proof -
  let ?s = "one_module crashing_module"
  have wf: "wf_sup ?s"
    by (rule wf_one_module) (simp_all add: crashing_module_def zero_module_def wf_ifces_def size_ok_def)
  have inv: "service_inv [] ?s"
    using wf by (simp add: service_inv_def all_mod_ok_def one_module_def demo_sup_def crashing_module_def
        zero_module_def mod_ok_defs stat_cells_def sent_inv_def)
  have f: "x < loaded_modules_cnt ?s \<longleftrightarrow> x = 0" "running_modules ?s ! 0 = crashing_module" "service_thread_continue ?s" for x
    by (auto simp: one_module_def demo_sup_def)
  have c: "module_enabled crashing_module" "profile_is_enabled (profiles ?s) crashing_module" "\<not> 0 < module_pid crashing_module"
    "module_restart_cnt (restart_timer_step crashing_module) \<noteq> max_restarts (module_restarts_num_config ?s) crashing_module"
    by (simp_all add: crashing_module_def zero_module_def profile_is_enabled_def profile_ref_def one_module_def
        restart_timer_step_def max_restarts_def NUM_SERVICE_IFC_PERIODS_def)
  from service_period_done[OF dead_env_ok(2) f(3), of "jval_lib (\<lambda>d. None)" "\<lambda>n. True" "\<lambda>p. p" 256]
  obtain s' es bs where r: "service_period (jval_lib (\<lambda>d. None)) (\<lambda>n. True) (\<lambda>p. p) dead_env 256 ?s = Period_Done ((s', es), bs)"
    by blast
  have "Fork 0 \<in> set es"
    by (rule enabled_module_is_started[OF inv _ f(2)[symmetric] c(1,2) _ c(4) r]) (use c(3) f(1) in simp_all)
  with r show ?thesis by blast
qed

end
