(* ===== verification/Interactive.thy ===== *)
theory Interactive
  imports Service
begin

section \<open>The interactive operations\<close>

text \<open>
  The operations of the menu that change the state (\<^verbatim>\<open>supervisor.c\<close>, lines 2627-3007): starting and
  stopping the configuration, enabling, disabling and restarting selected modules and profiles, with
  the lists they print first. The user's line goes through \<open>parse_numbers_user_selection\<close>; a
  selection on which that parser has undefined behaviour gives \<open>Undefined\<close>. Each operation holds the
  lock of the module array, so it is one step. Proved: what exactly a selection changes, and that
  every operation keeps the invariant of the service thread.
\<close>

subsection \<open>Starting and stopping the configuration\<close>

definition start_body :: "running_module \<Rightarrow> running_module" where
  "start_body m = (if \<not> module_enabled m then m\<lparr>module_restart_cnt := -1, module_enabled := True\<rparr> else m)"

definition stop_body :: "running_module \<Rightarrow> running_module" where
  "stop_body m = (if module_enabled m then m\<lparr>module_enabled := False\<rparr> else m)"

definition interactive_start_configuration :: "sup \<Rightarrow> sup" where
  "interactive_start_configuration s = fst (sweep (\<lambda>x m. (start_body m, [])) s)"

definition interactive_stop_configuration :: "sup \<Rightarrow> sup" where
  "interactive_stop_configuration s = fst (sweep (\<lambda>x m. (stop_body m, [])) s)"

subsection \<open>Counting\<close>

definition get_num_disabled_modules :: "sup \<Rightarrow> nat" where
  "get_num_disabled_modules s = length (filter (\<lambda>m. \<not> module_enabled m) (loaded s))"

definition get_num_disabled_profiles :: "sup \<Rightarrow> nat" where
  "get_num_disabled_profiles s = length (filter (\<lambda>p. \<not> profile_enabled p) (profiles s))"

definition get_num_enabled_running_modules :: "sup \<Rightarrow> nat" where
  "get_num_enabled_running_modules s = length (filter (\<lambda>m. module_enabled m \<and> module_status m) (loaded s))"

subsection \<open>The printed lists\<close>

text \<open>
  Modules are listed under their profiles in the order of the profiles, with the number to type;
  profiles are numbered after the modules. A module without a profile is not listed.
\<close>

datatype list_entry = Note string | Profile_Label string | Module_Entry nat "string option" | Blank | Profile_Entry nat string

definition modules_of_profile :: "(running_module \<Rightarrow> bool) \<Rightarrow> nat \<Rightarrow> sup \<Rightarrow> nat list" where
  "modules_of_profile P i s =
     filter (\<lambda>x. module_profile (running_modules s ! x) = Some i \<and> P (running_modules s ! x)) [0..<loaded_modules_cnt s]"

definition list_modules :: "(running_module \<Rightarrow> bool) \<Rightarrow> sup \<Rightarrow> list_entry list" where
  "list_modules P s =
     concat (map (\<lambda>i. let xs = modules_of_profile P i s
                      in if xs = [] then []
                         else Profile_Label (profile_name (profiles s ! i)) #
                              map (\<lambda>x. Module_Entry x (module_name (running_modules s ! x))) xs @ [Blank])
              [0..<length (profiles s)])"

definition list_profiles :: "(modules_profile \<Rightarrow> bool) \<Rightarrow> sup \<Rightarrow> list_entry list" where
  "list_profiles P s =
     concat (map (\<lambda>i. if P (profiles s ! i)
                      then [Profile_Entry (loaded_modules_cnt s + i) (profile_name (profiles s ! i))] else [])
              [0..<length (profiles s)])"

definition disabled_listing :: "sup \<Rightarrow> list_entry list" where
  "disabled_listing s =
     (if loaded_modules_cnt s = 0 then [Note ''No module is loaded.'']
      else if get_num_disabled_modules s = 0 then [Note ''All modules are enabled.'']
      else list_modules (\<lambda>m. \<not> module_enabled m) s) @
     (if loaded_profile_cnt s = 0 then [Note ''No profile is loaded.'']
      else if get_num_disabled_profiles s = 0 then [Note ''All profiles are enabled.'']
      else list_profiles (\<lambda>p. \<not> profile_enabled p) s)"

definition enabled_listing :: "sup \<Rightarrow> list_entry list" where
  "enabled_listing s =
     (if loaded_modules_cnt s = 0 then [Note ''No module is loaded.'']
      else if loaded_modules_cnt s - get_num_disabled_modules s = 0 then [Note ''All modules are disabled.'']
      else list_modules module_enabled s) @
     (if loaded_profile_cnt s = 0 then [Note ''No profile is loaded.'']
      else if loaded_profile_cnt s - get_num_disabled_profiles s = 0 then [Note ''All profiles are disabled.'']
      else list_profiles profile_enabled s)"

definition running_listing :: "sup \<Rightarrow> list_entry list" where
  "running_listing s = list_modules (\<lambda>m. module_enabled m \<and> module_status m) s"

subsection \<open>Applying a selection\<close>

definition set_profile :: "nat \<Rightarrow> bool \<Rightarrow> sup \<Rightarrow> sup" where
  "set_profile k b s = s\<lparr>profiles := (profiles s)[k := (profiles s ! k)\<lparr>profile_enabled := b\<rparr>]\<rparr>"

definition enable_one :: "int \<Rightarrow> sup \<Rightarrow> sup" where
  "enable_one n s =
     (if n \<ge> int (loaded_modules_cnt s + loaded_profile_cnt s) \<or> n < 0 then s
      else if n \<ge> int (loaded_modules_cnt s) then set_profile (nat n - loaded_modules_cnt s) True s
      else (let m = running_modules s ! nat n
            in if module_enabled m then s
               else set_module (nat n) (m\<lparr>module_enabled := True, module_restart_cnt := -1\<rparr>) s))"

definition disable_one :: "int \<Rightarrow> sup \<Rightarrow> sup" where
  "disable_one n s =
     (if n \<ge> int (loaded_modules_cnt s + loaded_profile_cnt s) \<or> n < 0 then s
      else if n \<ge> int (loaded_modules_cnt s) then set_profile (nat n - loaded_modules_cnt s) False s
      else (let m = running_modules s ! nat n
            in if \<not> module_enabled m \<or> module_root_perm_needed m then s
               else set_module (nat n) (m\<lparr>module_enabled := False\<rparr>) s))"

definition restart_one :: "int \<Rightarrow> sup \<Rightarrow> sup" where
  "restart_one n s =
     (if n \<ge> int (loaded_modules_cnt s) \<or> n < 0 then s
      else (let m = running_modules s ! nat n
            in if \<not> module_enabled m \<or> \<not> module_status m \<or> module_root_perm_needed m then s
               else set_module (nat n) (m\<lparr>module_served_by_service_thread := False, module_enabled := False,
                      init_module := True\<rparr>) s))"

definition apply_selection :: "(int \<Rightarrow> sup \<Rightarrow> sup) \<Rightarrow> string option \<Rightarrow> sup \<Rightarrow> sup c_ret" where
  "apply_selection f input s =
     (case parse_numbers_user_selection input of
        Undefined \<Rightarrow> Undefined
      | Ret None \<Rightarrow> Ret s
      | Ret (Some nums) \<Rightarrow> Ret (fold f nums s))"

definition interactive_set_enabled :: "string option \<Rightarrow> sup \<Rightarrow> sup c_ret" where
  "interactive_set_enabled input s =
     (if get_num_disabled_profiles s = 0 \<and> get_num_disabled_modules s = 0 then Ret s
      else apply_selection enable_one input s)"

definition interactive_set_disabled :: "string option \<Rightarrow> sup \<Rightarrow> sup c_ret" where
  "interactive_set_disabled input s =
     (if loaded_profile_cnt s - get_num_disabled_profiles s = 0 \<and> loaded_modules_cnt s - get_num_disabled_modules s = 0
      then Ret s else apply_selection disable_one input s)"

definition interactive_restart_module :: "string option \<Rightarrow> sup \<Rightarrow> sup c_ret" where
  "interactive_restart_module input s =
     (if loaded_modules_cnt s = 0 \<or> get_num_enabled_running_modules s = 0 then Ret s
      else apply_selection restart_one input s)"

subsection \<open>What a selection changes\<close>

definition enabled_again :: "running_module \<Rightarrow> running_module" where
  "enabled_again m = (if module_enabled m then m else m\<lparr>module_enabled := True, module_restart_cnt := -1\<rparr>)"

definition disabled_now :: "running_module \<Rightarrow> running_module" where
  "disabled_now m = (if module_enabled m \<and> \<not> module_root_perm_needed m then m\<lparr>module_enabled := False\<rparr> else m)"

definition to_restart :: "running_module \<Rightarrow> running_module" where
  "to_restart m = (if module_enabled m \<and> module_status m \<and> \<not> module_root_perm_needed m
     then m\<lparr>module_served_by_service_thread := False, module_enabled := False, init_module := True\<rparr> else m)"

text \<open>
  The three operations have one form: \<open>g\<close> is applied to the selected modules and, where profiles can be
  selected, \<open>h\<close> to the selected profiles.
\<close>

locale selection =
  fixes one :: "int \<Rightarrow> sup \<Rightarrow> sup"
    and g :: "running_module \<Rightarrow> running_module"
    and h :: "modules_profile \<Rightarrow> modules_profile"
  assumes one_module: "0 \<le> n \<Longrightarrow> n < int (loaded_modules_cnt s) \<Longrightarrow>
      one n s = set_module (nat n) (g (running_modules s ! nat n)) s"
    and one_profile: "int (loaded_modules_cnt s) \<le> n \<Longrightarrow> n < int (loaded_modules_cnt s + loaded_profile_cnt s) \<Longrightarrow>
      one n s = s\<lparr>profiles := (profiles s)[nat n - loaded_modules_cnt s := h (profiles s ! (nat n - loaded_modules_cnt s))]\<rparr>"
    and one_outside: "n < 0 \<or> int (loaded_modules_cnt s + loaded_profile_cnt s) \<le> n \<Longrightarrow> one n s = s"
    and g_idem: "g (g m) = g m"
    and h_idem: "h (h p) = h p"
begin

lemma one_cases:
  obtains "one n s = s" "n < 0 \<or> int (loaded_modules_cnt s + loaded_profile_cnt s) \<le> n"
  | x where "n = int x" "x < loaded_modules_cnt s" "one n s = set_module x (g (running_modules s ! x)) s"
  | k where "n = int (loaded_modules_cnt s + k)" "k < loaded_profile_cnt s"
      "one n s = s\<lparr>profiles := (profiles s)[k := h (profiles s ! k)]\<rparr>"
proof -
  consider "n < 0 \<or> int (loaded_modules_cnt s + loaded_profile_cnt s) \<le> n" | "0 \<le> n" "n < int (loaded_modules_cnt s)"
    | "int (loaded_modules_cnt s) \<le> n" "n < int (loaded_modules_cnt s + loaded_profile_cnt s)"
    by linarith
  then show ?thesis
  proof cases
    case 1
    then show ?thesis using that(1) one_outside by simp
  next
    case 2
    then show ?thesis using that(2)[of "nat n"] one_module by simp
  next
    case 3
    then show ?thesis using that(3)[of "nat n - loaded_modules_cnt s"] one_profile by (simp add: nat_less_iff)
  qed
qed

lemma one_frame:
  "loaded_modules_cnt (one n s) = loaded_modules_cnt s" "loaded_profile_cnt (one n s) = loaded_profile_cnt s"
  "length (running_modules (one n s)) = length (running_modules s)" "length (profiles (one n s)) = length (profiles s)"
  by (rule one_cases[of n s]; simp add: set_module_def)+

lemma one_modules:
  "x < loaded_modules_cnt s \<Longrightarrow> x < length (running_modules s) \<Longrightarrow>
     running_modules (one n s) ! x = (if n = int x then g (running_modules s ! x) else running_modules s ! x)"
  by (rule one_cases[of n s]) (auto simp: set_module_def nth_list_update)

lemma one_profiles:
  "length (profiles s) = loaded_profile_cnt s \<Longrightarrow> k < loaded_profile_cnt s \<Longrightarrow>
     profiles (one n s) ! k = (if n = int (loaded_modules_cnt s + k) then h (profiles s ! k) else profiles s ! k)"
  by (rule one_cases[of n s]) (auto simp: set_module_def nth_list_update)

lemma fold_frame:
  "loaded_modules_cnt (fold one nums s) = loaded_modules_cnt s"
  "length (running_modules (fold one nums s)) = length (running_modules s)"
  "length (profiles (fold one nums s)) = length (profiles s)"
  by (induction nums arbitrary: s) (simp_all add: one_frame)

lemma fold_modules:
  "x < loaded_modules_cnt s \<Longrightarrow> x < length (running_modules s) \<Longrightarrow>
     running_modules (fold one nums s) ! x = (if int x \<in> set nums then g (running_modules s ! x) else running_modules s ! x)"
  by (induction nums arbitrary: s) (auto simp: one_frame one_modules g_idem)

lemma fold_profiles:
  "length (profiles s) = loaded_profile_cnt s \<Longrightarrow> k < loaded_profile_cnt s \<Longrightarrow>
     profiles (fold one nums s) ! k =
       (if int (loaded_modules_cnt s + k) \<in> set nums then h (profiles s ! k) else profiles s ! k)"
proof (induction nums arbitrary: s)
  case (Cons n nums)
  then show ?case by (auto simp: one_frame one_profiles h_idem)
qed simp

lemma apply_printed:
  assumes "wf_sup s" "its \<noteq> []" "\<forall>it \<in> set its. item_high it < INT_MAX"
  obtains s' where "apply_selection one (Some (print_selection its)) s = Ret s'"
    "loaded_modules_cnt s' = loaded_modules_cnt s"
    "\<forall>x < loaded_modules_cnt s. running_modules s' ! x =
       (if int x \<in> selected its then g (running_modules s ! x) else running_modules s ! x)"
    "\<forall>k < length (profiles s). profiles s' ! k =
       (if int (loaded_modules_cnt s + k) \<in> selected its then h (profiles s ! k) else profiles s ! k)"
proof -
  obtain nums where "parse_numbers_user_selection (Some (print_selection its)) = Ret (Some nums)" "set nums = selected its"
    using parse_selection[OF assms(2,3)] by blast
  with assms(1) that[of "fold one nums s"] show ?thesis
    by (simp add: apply_selection_def fold_frame fold_modules fold_profiles wf_sup_def)
qed

end

interpretation enable: selection enable_one enabled_again "\<lambda>p. p\<lparr>profile_enabled := True\<rparr>"
  by unfold_locales (auto simp: enable_one_def enabled_again_def set_profile_def set_module_def Let_def)

interpretation disable: selection disable_one disabled_now "\<lambda>p. p\<lparr>profile_enabled := False\<rparr>"
  by unfold_locales (auto simp: disable_one_def disabled_now_def set_profile_def set_module_def Let_def)

interpretation restart: selection restart_one to_restart "\<lambda>p. p"
  by unfold_locales (auto simp: restart_one_def to_restart_def set_module_def Let_def)



text \<open>
  Restarting. For a selection written in the syntax of the prompt, \<open>interactive_restart_module\<close> marks
  exactly the selected modules that are enabled, running and may be signalled: they are disabled
  and flagged so that the service thread stops them and enables them again.
\<close>

theorem interactive_restart_module_effect:
  assumes "wf_sup s" "its \<noteq> []" "\<forall>it \<in> set its. item_high it < INT_MAX"
    and "\<exists>m \<in> set (loaded s). module_enabled m \<and> module_status m"
  shows "\<exists>s'. interactive_restart_module (Some (print_selection its)) s = Ret s' \<and>
    (\<forall>x < loaded_modules_cnt s. running_modules s' ! x =
       (if int x \<in> selected its \<and> module_enabled (running_modules s ! x) \<and> module_status (running_modules s ! x) \<and>
           \<not> module_root_perm_needed (running_modules s ! x)
        then (running_modules s ! x)\<lparr>module_served_by_service_thread := False, module_enabled := False, init_module := True\<rparr>
        else running_modules s ! x))"
proof -
  have "get_num_enabled_running_modules s \<noteq> 0" "loaded_modules_cnt s \<noteq> 0"
    using assms(4) by (auto simp: get_num_enabled_running_modules_def filter_empty_conv loaded_def intro: gr0I)
  then have eq: "interactive_restart_module (Some (print_selection its)) s = apply_selection restart_one (Some (print_selection its)) s"
    by (simp add: interactive_restart_module_def)
  show ?thesis
    unfolding eq by (rule restart.apply_printed[OF assms(1-3)]) (auto simp: to_restart_def)
qed

definition enabled_running :: running_module where
  "enabled_running = disabled_running\<lparr>module_enabled := True\<rparr>"

theorem interactive_restart_module_effect_witness:
  "\<exists>s'. interactive_restart_module (Some (print_selection [One 0])) (one_module enabled_running) = Ret s' \<and>
     init_module (running_modules s' ! 0) \<and> \<not> module_enabled (running_modules s' ! 0)"
proof -
  let ?s = "one_module enabled_running"
  have m: "module_enabled enabled_running" "module_status enabled_running" "\<not> module_root_perm_needed enabled_running"
    by (simp_all add: enabled_running_def disabled_running_def zero_module_def)
  have f: "loaded_modules_cnt ?s = 1" "running_modules ?s ! 0 = enabled_running" "loaded ?s = [enabled_running]"
    by (simp_all add: one_module_def demo_sup_def loaded_def)
  have wf: "wf_sup ?s"
    by (rule wf_one_module) (simp_all add: enabled_running_def disabled_running_def zero_module_def wf_ifces_def size_ok_def)
  have sel: "0 \<in> selected [One 0]" by (simp add: selected_def)
  from interactive_restart_module_effect[OF wf, of "[One 0]"]
  obtain s' where s': "interactive_restart_module (Some (print_selection [One 0])) ?s = Ret s'"
    and r: "running_modules s' ! 0 =
       (if int 0 \<in> selected [One 0] \<and> module_enabled enabled_running \<and> module_status enabled_running \<and> \<not> module_root_perm_needed enabled_running
        then enabled_running\<lparr>module_served_by_service_thread := False, module_enabled := False, init_module := True\<rparr>
        else enabled_running)"
    using m f by (auto simp: INT_MAX_def)
  from r sel m have "running_modules s' ! 0 =
      enabled_running\<lparr>module_served_by_service_thread := False, module_enabled := False, init_module := True\<rparr>" by simp
  with s' show ?thesis by simp
qed

subsection \<open>The invariant of the service thread\<close>

text \<open>Flags and counters the user changes are outside the invariant, except that the counter may be reset.\<close>

lemma msg_keeps_bodies:
  "msg_keeps m (start_body m)" "msg_keeps m (stop_body m)" "msg_keeps m (enabled_again m)" "msg_keeps m (disabled_now m)"
  "msg_keeps m (to_restart m)"
  by (auto simp: msg_keeps_def start_body_def stop_body_def enabled_again_def disabled_now_def to_restart_def
      same_shape_def mod_ok_defs)

lemma msg_keeps_update:
  "msg_keeps (ms ! x) m' \<Longrightarrow> list_all2 msg_keeps ms (ms[x := m'])"
  by (cases "x < length ms") (auto simp: list_all2_conv_all_nth nth_list_update)

lemma service_inv_set_module:
  "service_inv tr s \<Longrightarrow> msg_keeps (running_modules s ! x) m' \<Longrightarrow> service_inv tr (set_module x m' s)"
  unfolding set_module_def by (intro service_inv_msg msg_keeps_update)

lemma service_inv_set_profiles:
  "service_inv tr s \<Longrightarrow> length ps = length (profiles s) \<Longrightarrow> service_inv tr (s\<lparr>profiles := ps\<rparr>)"
  by (simp add: service_inv_def wf_sup_def all_mod_ok_def loaded_def)

lemma service_inv_one [inv_intros]:
  "service_inv tr s \<Longrightarrow> service_inv tr (enable_one n s)"
  "service_inv tr s \<Longrightarrow> service_inv tr (disable_one n s)"
  "service_inv tr s \<Longrightarrow> service_inv tr (restart_one n s)"
  subgoal by (rule enable.one_cases[of n s]) (simp_all add: service_inv_set_module service_inv_set_profiles msg_keeps_bodies)
  subgoal by (rule disable.one_cases[of n s]) (simp_all add: service_inv_set_module service_inv_set_profiles msg_keeps_bodies)
  subgoal by (rule restart.one_cases[of n s]) (simp_all add: service_inv_set_module service_inv_set_profiles msg_keeps_bodies)
  done

lemma service_inv_selection:
  assumes "\<And>n s. service_inv tr s \<Longrightarrow> service_inv tr (f n s)" "service_inv tr s"
    "apply_selection f input s = Ret s'"
  shows "service_inv tr s'"
proof -
  have "service_inv tr (fold f nums s)" for nums
    using assms(2) by (induction nums arbitrary: s) (simp_all add: assms(1))
  with assms show ?thesis by (auto simp: apply_selection_def split: c_ret.splits option.splits)
qed

lemma service_inv_sweep_msg:
  assumes "service_inv tr s" "\<And>m. msg_keeps m (g m)"
  shows "service_inv tr (fst (sweep (\<lambda>x m. (g m, [])) s))"
proof -
  have "list_all2 msg_keeps (running_modules s) (fst (for_upto (\<lambda>x m. (g m, [])) 0 (loaded_modules_cnt s) (running_modules s)))"
    using assms(2) by (auto simp: list_all2_conv_all_nth for_upto_nth)
  from service_inv_msg[OF assms(1) this] show ?thesis by (simp add: sweep_def case_prod_unfold Let_def)
qed

lemma service_inv_interactive [inv_intros]:
  "service_inv tr s \<Longrightarrow> service_inv tr (interactive_start_configuration s)"
  "service_inv tr s \<Longrightarrow> service_inv tr (interactive_stop_configuration s)"
  "service_inv tr s \<Longrightarrow> interactive_set_enabled input s = Ret s' \<Longrightarrow> service_inv tr s'"
  "service_inv tr s \<Longrightarrow> interactive_set_disabled input s = Ret s' \<Longrightarrow> service_inv tr s'"
  "service_inv tr s \<Longrightarrow> interactive_restart_module input s = Ret s' \<Longrightarrow> service_inv tr s'"
  unfolding interactive_start_configuration_def interactive_stop_configuration_def interactive_set_enabled_def
    interactive_set_disabled_def interactive_restart_module_def
  by (auto intro: service_inv_sweep_msg msg_keeps_bodies service_inv_selection inv_intros split: if_splits)

end
