(* ===== verification/Xml_Config.thy ===== *)
theory Xml_Config
  imports Interactive
begin

section \<open>Configuration documents and their validation\<close>

text \<open>
  A configuration document as the tree libxml2 builds from it, and \<open>validate_configuration\<close> with the
  functions it calls (\<^verbatim>\<open>supervisor.c\<close>, lines 3947-3997, 4075-4165, 4260-4410, 4539-4638 and 4851-4998).
  Two functions of libxml2 are arguments, collected in a record: \<open>node_list_string\<close> is
  \<open>xmlNodeListGetString (doc, list, 1)\<close> and \<open>get_prop\<close> is \<open>xmlGetProp\<close>; \<open>None\<close> is \<open>NULL\<close>. Proved: what an
  accepted document guarantees, which is what the second phase of a reload relies on.
\<close>

subsection \<open>Documents\<close>

datatype node_type = XML_ELEMENT_NODE | XML_TEXT_NODE | XML_COMMENT_NODE | XML_OTHER_NODE

datatype xml_node =
  Xml_Node (xtype: node_type) (xname: string) (xchildren: "xml_node list")
    (xprops: "(string \<times> string) list") (xcontent: string)

record libxml =
  node_list_string :: "xml_node list \<Rightarrow> string option"
  get_prop :: "xml_node \<Rightarrow> string \<Rightarrow> string option"

definition is_elem :: "string \<Rightarrow> xml_node \<Rightarrow> bool" where
  "is_elem nm n \<longleftrightarrow> xtype n = XML_ELEMENT_NODE \<and> xname n = nm"

text \<open>The value of an element: the string of its list of children.\<close>

definition node_value :: "libxml \<Rightarrow> xml_node \<Rightarrow> string option" where
  "node_value lib n = node_list_string lib (xchildren n)"

subsection \<open>Checking the children of one element\<close>

text \<open>
  The four functions that check an element share one loop over the children: an element whose name is
  in \<open>rules\<close> may occur once and its rule must accept it; elements in \<open>repeatable\<close>, comments and text are
  passed over; any other node is an error (\<open>None\<close>). A rule may use and extend the state \<open>st\<close> (the
  names seen in the whole document). The result holds the state and the names that occurred
  (those whose entry of \<open>basic_elements\<close> is 1).
\<close>

fun check_elements ::
  "(string \<times> (xml_node \<Rightarrow> 'st \<Rightarrow> 'st option)) list \<Rightarrow> string list \<Rightarrow> string list \<Rightarrow> xml_node list \<Rightarrow> 'st
     \<Rightarrow> ('st \<times> string list) option" where
  "check_elements rules repeatable seen [] st = Some (st, seen)"
| "check_elements rules repeatable seen (n # ns) st =
     (case (if xtype n = XML_ELEMENT_NODE then map_of rules (xname n) else None) of
        Some f \<Rightarrow>
          if xname n \<in> set seen then None
          else (case f n st of None \<Rightarrow> None
                | Some st' \<Rightarrow> check_elements rules repeatable (xname n # seen) ns st')
      | None \<Rightarrow>
          if xtype n = XML_ELEMENT_NODE \<and> xname n \<in> set repeatable \<or> xtype n = XML_COMMENT_NODE \<or> xtype n = XML_TEXT_NODE
          then check_elements rules repeatable seen ns st
          else None)"

text \<open>Rules: no condition, a value, a value that satisfies a predicate, a value not seen before.\<close>

definition any_rule :: "xml_node \<Rightarrow> 'st \<Rightarrow> 'st option" where
  "any_rule n st = Some st"

definition value_rule :: "libxml \<Rightarrow> (string \<Rightarrow> bool) \<Rightarrow> xml_node \<Rightarrow> 'st \<Rightarrow> 'st option" where
  "value_rule lib P n st = (case node_value lib n of None \<Rightarrow> None | Some key \<Rightarrow> if P key then Some st else None)"

definition unique_rule :: "libxml \<Rightarrow> xml_node \<Rightarrow> string list \<Rightarrow> string list option" where
  "unique_rule lib n names =
     (case node_value lib n of None \<Rightarrow> None | Some key \<Rightarrow> if key \<in> set names then None else Some (names @ [key]))"

definition restarts_value :: "string \<Rightarrow> bool" where
  "restarts_value key \<longleftrightarrow>
     (case sscanf_d key of None \<Rightarrow> False | Some number \<Rightarrow> 0 \<le> number \<and> number \<le> MAX_MODULE_RESTARTS_NUM)"

definition bool_value :: "string \<Rightarrow> bool" where
  "bool_value key \<longleftrightarrow> key = ''true'' \<or> key = ''false''"

definition reload_check_supervisor_element :: "libxml \<Rightarrow> xml_node list \<Rightarrow> bool" where
  "reload_check_supervisor_element lib children \<longleftrightarrow>
     check_elements [(''module-restarts'', value_rule lib restarts_value)] [] [] children () \<noteq> None"

definition reload_check_interface_element :: "libxml \<Rightarrow> xml_node list \<Rightarrow> bool" where
  "reload_check_interface_element lib children \<longleftrightarrow>
     check_elements
       [(''note'', value_rule lib (\<lambda>key. True)),
        (''type'', value_rule lib (\<lambda>key. key \<in> {''TCP'', ''UNIXSOCKET'', ''FILE'', ''BLACKHOLE'', ''TLS''})),
        (''direction'', value_rule lib (\<lambda>key. key = ''IN'' \<or> key = ''OUT'')),
        (''params'', any_rule)]
       [] [] children () \<noteq> None"

definition module_rules :: "libxml \<Rightarrow> (string \<times> (xml_node \<Rightarrow> string list \<Rightarrow> string list option)) list" where
  "module_rules lib =
     [(''name'', unique_rule lib),
      (''enabled'', value_rule lib bool_value),
      (''path'', value_rule lib (\<lambda>key. True)),
      (''trapinterfaces'', any_rule),
      (''module-restarts'', value_rule lib restarts_value),
      (''params'', any_rule)]"

definition reload_check_module_element :: "libxml \<Rightarrow> xml_node list \<Rightarrow> string list \<Rightarrow> string list option" where
  "reload_check_module_element lib children names =
     (case check_elements (module_rules lib) [] [] children names of
        None \<Rightarrow> None
      | Some (names', seen) \<Rightarrow>
          if ''name'' \<in> set seen \<and> ''path'' \<in> set seen \<and> ''enabled'' \<in> set seen then Some names' else None)"

definition modules_rules :: "libxml \<Rightarrow> (string \<times> (xml_node \<Rightarrow> string list \<Rightarrow> string list option)) list" where
  "modules_rules lib = [(''name'', unique_rule lib), (''enabled'', value_rule lib bool_value)]"

definition reload_check_modules_element :: "libxml \<Rightarrow> xml_node list \<Rightarrow> string list \<Rightarrow> string list option" where
  "reload_check_modules_element lib children names =
     (case check_elements (modules_rules lib) [''module''] [] children names of
        None \<Rightarrow> None
      | Some (names', seen) \<Rightarrow>
          if ''name'' \<in> set seen \<and> ''enabled'' \<in> set seen then Some names' else None)"

subsection \<open>Validation of a document\<close>

fun check_interfaces :: "libxml \<Rightarrow> xml_node list \<Rightarrow> bool" where
  "check_interfaces lib [] \<longleftrightarrow> True"
| "check_interfaces lib (n # ns) \<longleftrightarrow>
     (if is_elem ''interface'' n then xchildren n \<noteq> [] \<and> reload_check_interface_element lib (xchildren n)
      else xtype n = XML_COMMENT_NODE \<or> xtype n = XML_TEXT_NODE) \<and> check_interfaces lib ns"

definition check_trapinterfaces :: "libxml \<Rightarrow> xml_node list \<Rightarrow> bool" where
  "check_trapinterfaces lib atrs \<longleftrightarrow>
     list_all (\<lambda>n. is_elem ''trapinterfaces'' n \<longrightarrow> check_interfaces lib (xchildren n)) atrs"

fun check_modules :: "libxml \<Rightarrow> xml_node list \<Rightarrow> string list \<Rightarrow> string list option" where
  "check_modules lib [] names = Some names"
| "check_modules lib (n # ns) names =
     (if is_elem ''module'' n then
        (if xchildren n = [] then None
         else (case reload_check_module_element lib (xchildren n) names of
                 None \<Rightarrow> None
               | Some names' \<Rightarrow> if check_trapinterfaces lib (xchildren n) then check_modules lib ns names' else None))
      else check_modules lib ns names)"

text \<open>
  The loop over the children of the root; \<open>sup_seen\<close>: a \<open>supervisor\<close> element has occurred. The result
  holds the profile and the module names of the document.
\<close>

fun check_root_children ::
  "libxml \<Rightarrow> bool \<Rightarrow> xml_node list \<Rightarrow> string list \<Rightarrow> string list \<Rightarrow> (string list \<times> string list) option" where
  "check_root_children lib sup_seen [] pnames mnames = Some (pnames, mnames)"
| "check_root_children lib sup_seen (n # ns) pnames mnames =
     (if is_elem ''supervisor'' n then
        (if sup_seen \<or> xchildren n = [] \<or> \<not> reload_check_supervisor_element lib (xchildren n) then None
         else check_root_children lib True ns pnames mnames)
      else if is_elem ''modules'' n then
        (if xchildren n = [] then None
         else (case reload_check_modules_element lib (xchildren n) pnames of
                 None \<Rightarrow> None
               | Some pnames' \<Rightarrow>
                   (case check_modules lib (xchildren n) mnames of
                      None \<Rightarrow> None
                    | Some mnames' \<Rightarrow> check_root_children lib sup_seen ns pnames' mnames')))
      else if xtype n = XML_COMMENT_NODE \<or> xtype n = XML_TEXT_NODE then check_root_children lib sup_seen ns pnames mnames
      else None)"

definition validate_configuration :: "libxml \<Rightarrow> xml_node option \<Rightarrow> bool" where
  "validate_configuration lib root_node =
     (case root_node of
        None \<Rightarrow> False
      | Some rt \<Rightarrow>
          xname rt = ''nemea-supervisor'' \<and> xchildren rt \<noteq> [] \<and>
          check_root_children lib False (xchildren rt) [] [] \<noteq> None)"

subsection \<open>What an accepted document guarantees\<close>

text \<open>
  libxml2 names text nodes \<open>text\<close> and comments \<open>comment\<close> (\<open>xmlStringText\<close>, \<open>xmlStringComment\<close>); the second
  phase of a reload, which looks at names only, relies on it.
\<close>

definition plain_node :: "xml_node \<Rightarrow> bool" where
  "plain_node n \<longleftrightarrow> (xtype n = XML_TEXT_NODE \<longrightarrow> xname n = ''text'') \<and> (xtype n = XML_COMMENT_NODE \<longrightarrow> xname n = ''comment'')"

fun plain_names :: "xml_node \<Rightarrow> bool" where
  "plain_names (Xml_Node ty nm ch ps ct) \<longleftrightarrow> plain_node (Xml_Node ty nm ch ps ct) \<and> list_all plain_names ch"

lemma plain_children: "plain_names n \<Longrightarrow> c \<in> set (xchildren n) \<Longrightarrow> plain_names c"
  by (cases n) (simp add: list_all_iff)

lemma plain_names_node: "plain_names n \<Longrightarrow> plain_node n"
  by (cases n) simp

text \<open>The values of the elements of a name among the children, and the elements that describe modules.\<close>

definition elem_values :: "libxml \<Rightarrow> string \<Rightarrow> xml_node list \<Rightarrow> string option list" where
  "elem_values lib nm ns = map (node_value lib) (filter (is_elem nm) ns)"

definition module_elems :: "xml_node list \<Rightarrow> xml_node list" where
  "module_elems ns = concat (map (\<lambda>n. if is_elem ''modules'' n then filter (is_elem ''module'') (xchildren n) else []) ns)"

definition elem_name :: "libxml \<Rightarrow> xml_node \<Rightarrow> string" where
  "elem_name lib e = (case elem_values lib ''name'' (xchildren e) of Some key # ks \<Rightarrow> key | _ \<Rightarrow> [])"

definition doc_names :: "libxml \<Rightarrow> xml_node \<Rightarrow> string list" where
  "doc_names lib rt = map (elem_name lib) (module_elems (xchildren rt))"

text \<open>Only elements, text and comments; for them the name tells whether a node is an element.\<close>

definition known_nodes :: "xml_node list \<Rightarrow> bool" where
  "known_nodes ns \<longleftrightarrow> (\<forall>n \<in> set ns. xtype n \<noteq> XML_OTHER_NODE)"

lemma known_named:
  assumes "known_nodes ns" "\<forall>n \<in> set ns. plain_node n" "nm \<noteq> ''text''" "nm \<noteq> ''comment''" "n \<in> set ns"
  shows "xname n = nm \<longleftrightarrow> is_elem nm n"
  using assms by (cases "xtype n") (auto simp: known_nodes_def plain_node_def is_elem_def)

lemma check_elements_known: "check_elements rules rep seen ns st = Some r \<Longrightarrow> known_nodes ns"
  by (induction rules rep seen ns st rule: check_elements.induct) (auto simp: known_nodes_def split: option.splits if_splits)

text \<open>A module element with exactly one name, path and enabled flag and at most one list of interfaces.\<close>

definition good_elem :: "libxml \<Rightarrow> xml_node \<Rightarrow> bool" where
  "good_elem lib e \<longleftrightarrow>
     elem_values lib ''name'' (xchildren e) = [Some (elem_name lib e)] \<and>
     (\<exists>p. elem_values lib ''path'' (xchildren e) = [Some p]) \<and>
     (\<exists>b. elem_values lib ''enabled'' (xchildren e) = [Some b] \<and> bool_value b) \<and>
     length (elem_values lib ''trapinterfaces'' (xchildren e)) \<le> 1 \<and> known_nodes (xchildren e)"

lemma elem_values_Cons:
  "elem_values lib nm (n # ns) = (if is_elem nm n then node_value lib n # elem_values lib nm ns else elem_values lib nm ns)"
  by (simp add: elem_values_def)

lemma elem_values_Nil [simp]: "elem_values lib nm [] = []"
  by (simp add: elem_values_def)

text \<open>An element with a rule occurs at most once, and it is recorded exactly when it occurs.\<close>

lemma check_elements_once:
  "check_elements rules rep seen ns st = Some (st', seen') \<Longrightarrow> map_of rules nm = Some f \<Longrightarrow>
     (nm \<in> set seen' \<longleftrightarrow> nm \<in> set seen \<or> elem_values lib nm ns \<noteq> []) \<and>
     length (elem_values lib nm ns) \<le> (if nm \<in> set seen then 0 else 1)"
proof (induction rules rep seen ns st rule: check_elements.induct)
  case (2 rules rep seen n ns st)
  then show ?case
    by (cases "xname n = nm") (auto simp: elem_values_Cons is_elem_def split: option.splits if_splits)
qed simp

text \<open>The value of an element with a value rule satisfies the rule.\<close>

lemma check_elements_value:
  "check_elements rules rep seen ns st = Some (st', seen') \<Longrightarrow> map_of rules nm = Some (value_rule lib P) \<Longrightarrow>
     v \<in> set (elem_values lib nm ns) \<Longrightarrow> \<exists>key. v = Some key \<and> P key"
proof (induction rules rep seen ns st rule: check_elements.induct)
  case (2 rules rep seen n ns st)
  then show ?case
    by (cases "xname n = nm") (auto simp: elem_values_Cons is_elem_def value_rule_def split: option.splits if_splits)
qed simp

text \<open>A rule that leaves the state alone, and the state after the whole loop.\<close>

definition only_name_counts :: "libxml \<Rightarrow> (string \<times> (xml_node \<Rightarrow> string list \<Rightarrow> string list option)) list \<Rightarrow> bool" where
  "only_name_counts lib rules \<longleftrightarrow> map_of rules ''name'' = Some (unique_rule lib) \<and>
     (\<forall>nm f n st st'. nm \<noteq> ''name'' \<longrightarrow> map_of rules nm = Some f \<longrightarrow> f n st = Some st' \<longrightarrow> st' = st)"

lemma only_name_rules: "only_name_counts lib (module_rules lib)" "only_name_counts lib (modules_rules lib)"
  by (auto simp: only_name_counts_def module_rules_def modules_rules_def value_rule_def any_rule_def
      split: if_splits option.splits)

lemma check_elements_names:
  "check_elements rules rep seen ns names = Some (names', seen') \<Longrightarrow> only_name_counts lib rules \<Longrightarrow>
     distinct names \<Longrightarrow>
     \<exists>keys. elem_values lib ''name'' ns = map Some keys \<and> names' = names @ keys \<and> distinct names'"
proof (induction rules rep seen ns names rule: check_elements.induct)
  case (2 rules rep seen n ns names)
  show ?case
  proof (cases "is_elem ''name'' n")
    case True
    then have r: "map_of rules (xname n) = Some (unique_rule lib)" "xtype n = XML_ELEMENT_NODE"
      using "2.prems"(2) by (simp_all add: is_elem_def only_name_counts_def)
    with "2.prems" obtain key where k: "node_value lib n = Some key" "key \<notin> set names" "xname n \<notin> set seen"
      and c: "check_elements rules rep (xname n # seen) ns (names @ [key]) = Some (names', seen')"
      by (auto simp: unique_rule_def split: option.splits if_splits)
    have u: "unique_rule lib n names = Some (names @ [key])" using k by (simp add: unique_rule_def)
    have "\<exists>keys. elem_values lib ''name'' ns = map Some keys \<and> names' = (names @ [key]) @ keys \<and> distinct names'"
      using "2.IH"(2)[of "unique_rule lib", OF _ k(3) u c "2.prems"(2)] r k "2.prems"(3) by simp
    then obtain keys where "elem_values lib ''name'' ns = map Some keys" "names' = (names @ [key]) @ keys" "distinct names'"
      by blast
    then show ?thesis using True k by (intro exI[of _ "key # keys"]) (simp add: elem_values_Cons)
  next
    case False
    show ?thesis
      using 2 False unfolding only_name_counts_def is_elem_def
      by (auto simp: elem_values_Cons is_elem_def split: option.splits if_splits) blast+
  qed
qed simp

lemma module_element_good:
  assumes "reload_check_module_element lib (xchildren e) names = Some names'" "distinct names"
  shows "good_elem lib e" "names' = names @ [elem_name lib e]" "distinct names'"
proof -
  obtain seen where c: "check_elements (module_rules lib) [] [] (xchildren e) names = Some (names', seen)"
    and s: "''name'' \<in> set seen" "''path'' \<in> set seen" "''enabled'' \<in> set seen"
    using assms(1) by (auto simp: reload_check_module_element_def split: option.splits if_splits)
  have rules: "map_of (module_rules lib) ''path'' = Some (value_rule lib (\<lambda>key. True))"
    "map_of (module_rules lib) ''enabled'' = Some (value_rule lib bool_value)"
    "map_of (module_rules lib) ''name'' = Some (unique_rule lib)"
    "map_of (module_rules lib) ''trapinterfaces'' = Some any_rule" by (simp_all add: module_rules_def)
  note once = check_elements_once[OF c, of _ _ lib] and val = check_elements_value[OF c]
  obtain keys where k: "elem_values lib ''name'' (xchildren e) = map Some keys" "names' = names @ keys" "distinct names'"
    using check_elements_names[OF c only_name_rules(1) assms(2)] by blast
  have one: "\<exists>v. elem_values lib nm (xchildren e) = [v]" if "map_of (module_rules lib) nm = Some f" "nm \<in> set seen" for nm f
    using once[OF that(1)] that(2) by (cases "elem_values lib nm (xchildren e)") auto
  from one[OF rules(3) s(1)] k(1) obtain key where key: "keys = [key]" by auto
  then have n: "elem_name lib e = key" using k(1) by (simp add: elem_name_def)
  show "names' = names @ [elem_name lib e]" "distinct names'" using k key n by simp_all
  have "\<exists>p. elem_values lib ''path'' (xchildren e) = [Some p]" using one[OF rules(1) s(2)] val[OF rules(1)] by fastforce
  moreover have "\<exists>b. elem_values lib ''enabled'' (xchildren e) = [Some b] \<and> bool_value b"
    using one[OF rules(2) s(3)] val[OF rules(2)] by fastforce
  ultimately show "good_elem lib e" using k key n once[OF rules(4)] check_elements_known[OF c] by (simp add: good_elem_def)
qed

lemma check_modules_names:
  "check_modules lib ns names = Some names' \<Longrightarrow> distinct names \<Longrightarrow>
     names' = names @ map (elem_name lib) (filter (is_elem ''module'') ns) \<and> distinct names' \<and>
     (\<forall>e \<in> set (filter (is_elem ''module'') ns). good_elem lib e)"
proof (induction lib ns names rule: check_modules.induct)
  case (2 lib n ns names)
  show ?case
  proof (cases "is_elem ''module'' n")
    case True
    with "2.prems"(1) obtain names1 where c: "reload_check_module_element lib (xchildren n) names = Some names1"
      and x: "xchildren n \<noteq> []" "check_trapinterfaces lib (xchildren n)" and r: "check_modules lib ns names1 = Some names'"
      by (auto split: if_splits option.splits)
    note g = module_element_good[OF c "2.prems"(2)]
    from "2.IH"(1)[OF True x(1) c x(2) r g(3)] g True show ?thesis by (auto simp del: distinct_append)
  qed (use 2 in \<open>auto simp del: distinct_append\<close>)
qed simp

lemma module_elems_Cons:
  "module_elems (n # ns) = (if is_elem ''modules'' n then filter (is_elem ''module'') (xchildren n) @ module_elems ns
     else module_elems ns)"
  by (simp add: module_elems_def)

lemma check_root_names:
  "check_root_children lib b ns pn mn = Some (pn', mn') \<Longrightarrow> distinct mn \<Longrightarrow>
     mn' = mn @ map (elem_name lib) (module_elems ns) \<and> distinct mn' \<and> (\<forall>e \<in> set (module_elems ns). good_elem lib e) \<and>
     known_nodes ns \<and> (\<forall>n \<in> set ns. is_elem ''modules'' n \<longrightarrow> known_nodes (xchildren n))"
proof (induction lib b ns pn mn rule: check_root_children.induct)
  case (2 lib b n ns pn mn)
  show ?case
  proof (cases "is_elem ''modules'' n")
    case True
    then have ns: "\<not> is_elem ''supervisor'' n" by (simp add: is_elem_def)
    with True "2.prems"(1) obtain pn1 mn1 where c: "reload_check_modules_element lib (xchildren n) pn = Some pn1"
      "check_modules lib (xchildren n) mn = Some mn1" and x: "xchildren n \<noteq> []"
      and r: "check_root_children lib b ns pn1 mn1 = Some (pn', mn')"
      by (auto split: if_splits option.splits)
    note g = check_modules_names[OF c(2) "2.prems"(2)]
    have k: "known_nodes (xchildren n)"
      using c(1) check_elements_known by (fastforce simp: reload_check_modules_element_def split: option.splits)
    from "2.IH"(2)[OF ns True x c r] g True k show ?thesis
      by (auto simp: module_elems_Cons known_nodes_def is_elem_def simp del: distinct_append)
  next
    case False
    with 2 show ?thesis by (auto simp: module_elems_Cons known_nodes_def is_elem_def simp del: distinct_append split: if_splits)
  qed
qed (simp add: module_elems_def known_nodes_def)

lemma accepted_document:
  assumes "validate_configuration lib (Some rt)"
  shows "distinct (doc_names lib rt)" "\<forall>e \<in> set (module_elems (xchildren rt)). good_elem lib e"
    "known_nodes (xchildren rt)" "\<forall>n \<in> set (xchildren rt). is_elem ''modules'' n \<longrightarrow> known_nodes (xchildren n)"
  using assms check_root_names[of lib False "xchildren rt" "[]" "[]"]
  by (auto simp: validate_configuration_def doc_names_def)

end
