(* ===== verification/Reload.thy ===== *)
theory Reload
  imports Xml_Config
begin

section \<open>Reloading the configuration\<close>

text \<open>
  \<open>reload_configuration\<close> and the functions of its second phase (\<^verbatim>\<open>supervisor.c\<close>, lines 3999-4073,
  4167-4258, 4412-4537, 4640-4725, 4727-4767, 4814-4849 and 5184-5558): a validated document is
  applied to the loaded modules. Modules are compared by name; new ones are inserted at the end of the
  array, changed ones are marked for a restart, missing ones for removal. The second phase compares
  node names only, as the code does. Each definition works on the module the code addresses as
  \<open>running_modules[current_module_idx]\<close>.
\<close>

subsection \<open>Attributes of a module\<close>

datatype reload_choice = RELOAD_INIT_LOAD_CONFIG | RELOAD_DEFAULT_CONFIG_FILE | RELOAD_CALLBACK_ROOT_ELEM

fun reload_process_supervisor_element :: "libxml \<Rightarrow> xml_node list \<Rightarrow> int \<Rightarrow> int" where
  "reload_process_supervisor_element lib [] cfg = cfg"
| "reload_process_supervisor_element lib (n # ns) cfg =
     reload_process_supervisor_element lib ns
       (if xname n = ''module-restarts'' then
          (case node_value lib n of
             None \<Rightarrow> cfg
           | Some key \<Rightarrow>
               (case sscanf_d key of
                  None \<Rightarrow> cfg
                | Some number \<Rightarrow> if 0 \<le> number \<and> number \<le> MAX_MODULE_RESTARTS_NUM then number else cfg))
        else cfg)"

text \<open>
  \<open>reload_process_module_atribute\<close>: the new value of the attribute and whether the module was marked as
  modified, for the value \<open>key\<close> of the element and the old value.
\<close>

definition reload_process_module_atribute :: "bool \<Rightarrow> string option \<Rightarrow> string option \<Rightarrow> string option \<times> bool" where
  "reload_process_module_atribute new_module key old =
     (if \<not> new_module then
        (case (old, key) of
           (Some o', Some k) \<Rightarrow> if k \<noteq> o' then (Some k, True) else (old, False)
         | (None, None) \<Rightarrow> (old, False)
         | (None, Some k) \<Rightarrow> (Some k, True)
         | (Some o', None) \<Rightarrow> (None, True))
      else (key, False))"

definition reload_resolve_module_enabled :: "bool \<Rightarrow> string option \<Rightarrow> running_module \<Rightarrow> running_module" where
  "reload_resolve_module_enabled new_module key m =
     (case key of
        None \<Rightarrow> m\<lparr>module_enabled := False\<rparr>
      | Some k \<Rightarrow>
          (let config_module_enabled = strncmp_eq ''true'' k;
               m1 = (if new_module
                     then (if config_module_enabled then m\<lparr>module_restart_cnt := -1\<rparr> else m)
                     else (if config_module_enabled \<noteq> module_enabled m \<and> config_module_enabled
                           then m\<lparr>module_restart_cnt := -1\<rparr> else m))
           in m1\<lparr>module_enabled := config_module_enabled\<rparr>))"

subsection \<open>Interfaces of a module\<close>

text \<open>
  \<open>reload_process_module_interface_atribute\<close> without \<open>module_ifc_insert\<close>: \<open>True\<close> when the element agrees
  with the stored value, \<open>False\<close> for the return value -1.
\<close>

definition ifc_atr_agrees :: "string option \<Rightarrow> string option \<Rightarrow> bool" where
  "ifc_atr_agrees key old =
     (case (old, key) of (Some o', Some k) \<Rightarrow> k = o' | (None, None) \<Rightarrow> True | _ \<Rightarrow> False)"

text \<open>The loop over the children of an \<open>interface\<close> element, comparing and inserting.\<close>

fun ifc_agrees :: "libxml \<Rightarrow> xml_node list \<Rightarrow> interface_t \<Rightarrow> bool" where
  "ifc_agrees lib [] ifc \<longleftrightarrow> True"
| "ifc_agrees lib (n # ns) ifc \<longleftrightarrow>
     (if xname n = ''note'' then ifc_atr_agrees (node_value lib n) (ifc_note ifc)
      else if xname n = ''type'' then ifc_atr_agrees (node_value lib n) (ifc_type ifc)
      else if xname n = ''direction'' then ifc_atr_agrees (node_value lib n) (ifc_direction ifc)
      else if xname n = ''params'' then ifc_atr_agrees (node_value lib n) (ifc_params ifc)
      else True) \<and> ifc_agrees lib ns ifc"

fun ifc_insert :: "libxml \<Rightarrow> xml_node list \<Rightarrow> interface_t \<Rightarrow> interface_t" where
  "ifc_insert lib [] ifc = ifc"
| "ifc_insert lib (n # ns) ifc =
     ifc_insert lib ns
       (if xname n = ''note'' then ifc\<lparr>ifc_note := node_value lib n\<rparr>
        else if xname n = ''type'' then ifc\<lparr>ifc_type := node_value lib n\<rparr>
        else if xname n = ''direction'' then ifc\<lparr>ifc_direction := node_value lib n\<rparr>
        else if xname n = ''params'' then ifc\<lparr>ifc_params := node_value lib n\<rparr>
        else ifc)"

text \<open>
  The loop over the children of \<open>trapinterfaces\<close>. On the first disagreement the stored interfaces are
  freed, \<open>ifc_cnt\<close> restarts at 0 and the loop goes back to the first child, but the step to the next
  sibling at the end of the loop body is still taken.
\<close>

function ifc_loop ::
  "libxml \<Rightarrow> xml_node list \<Rightarrow> bool \<Rightarrow> xml_node list \<Rightarrow> nat \<Rightarrow> running_module \<Rightarrow> (running_module \<times> bool) \<times> nat" where
  "ifc_loop lib children insert_mode [] ifc_cnt m = ((m, insert_mode), ifc_cnt)"
| "ifc_loop lib children insert_mode (n # ns) ifc_cnt m =
     (if xname n \<noteq> ''interface'' then ifc_loop lib children insert_mode ns ifc_cnt m
      else (let m1 = reload_check_module_allocated_interfaces ifc_cnt m;
                ifc = config_ifces m1 ! ifc_cnt
            in if insert_mode
               then ifc_loop lib children insert_mode ns (Suc ifc_cnt)
                      (m1\<lparr>config_ifces := (config_ifces m1)[ifc_cnt := ifc_insert lib (xchildren n) ifc]\<rparr>)
               else if ifc_agrees lib (xchildren n) ifc
               then ifc_loop lib children insert_mode ns (Suc ifc_cnt) m1
               else ifc_loop lib children True (tl children) 0
                      ((free_module_interfaces_on_index m1)\<lparr>module_modified_by_reload := True\<rparr>)))"
  by pat_completeness auto

termination
  by (relation "inv_image ({(False, True)} <*lex*> measure length) (\<lambda>(lib, children, ins, ns, c, m). (\<not> ins, ns))")
    (auto simp: wf_same_fst intro: finite_acyclic_wf)

text \<open>The count of interfaces is compared first for a module that is already loaded.\<close>

definition reload_check_modules_interfaces_count ::
  "xml_node list \<Rightarrow> running_module \<Rightarrow> bool \<Rightarrow> running_module \<times> bool" where
  "reload_check_modules_interfaces_count children m insert_mode =
     (let new_module_ifc_cnt = length (filter (\<lambda>n. xname n = ''interface'') children)
      in if config_ifces_cnt m \<noteq> new_module_ifc_cnt
         then ((free_module_interfaces_on_index (m\<lparr>module_modified_by_reload := True\<rparr>))\<lparr>config_ifces_cnt := 0\<rparr>, True)
         else (m, insert_mode))"

definition reload_trapinterfaces :: "libxml \<Rightarrow> bool \<Rightarrow> xml_node list \<Rightarrow> running_module \<Rightarrow> bool \<Rightarrow> running_module \<times> bool" where
  "reload_trapinterfaces lib new_module children m insert_mode =
     (let (m1, ins1) = (if \<not> new_module then reload_check_modules_interfaces_count children m insert_mode
                        else (m, insert_mode));
          ((m2, ins2), ifc_cnt) = ifc_loop lib children ins1 children 0 m1
      in (m2\<lparr>config_ifces_cnt := ifc_cnt\<rparr>, ins2))"

definition direction_code :: "string option \<Rightarrow> int" where
  "direction_code d =
     (case d of
        None \<Rightarrow> INVALID_MODULE_IFC_ATTR
      | Some t \<Rightarrow>
          if strncmp_eq t ''IN'' then IN_MODULE_IFC_DIRECTION
          else if strncmp_eq t ''OUT'' then OUT_MODULE_IFC_DIRECTION
          else if strncmp_eq t ''SERVICE'' then SERVICE_MODULE_IFC_DIRECTION
          else INVALID_MODULE_IFC_ATTR)"

definition type_code :: "string option \<Rightarrow> int" where
  "type_code ty =
     (case ty of
        None \<Rightarrow> INVALID_MODULE_IFC_ATTR
      | Some t \<Rightarrow>
          if strncmp_eq t ''TCP'' then TCP_MODULE_IFC_TYPE
          else if strncmp_eq t ''UNIXSOCKET'' then UNIXSOCKET_MODULE_IFC_TYPE
          else if strncmp_eq t ''FILE'' then FILE_MODULE_IFC_TYPE
          else if strncmp_eq t ''SERVICE'' then SERVICE_MODULE_IFC_TYPE
          else if strncmp_eq t ''BLACKHOLE'' then BLACKHOLE_MODULE_IFC_TYPE
          else if strncmp_eq t ''TLS'' then TLS_MODULE_IFC_TYPE
          else INVALID_MODULE_IFC_ATTR)"

definition reload_count_module_interfaces :: "running_module \<Rightarrow> running_module" where
  "reload_count_module_interfaces m =
     m\<lparr>config_ifces :=
         map (\<lambda>ifc. ifc\<lparr>int_ifc_direction := direction_code (ifc_direction ifc), int_ifc_type := type_code (ifc_type ifc)\<rparr>)
           (take (config_ifces_cnt m) (config_ifces m)) @ drop (config_ifces_cnt m) (config_ifces m)\<rparr>"

subsection \<open>Finding the module an element describes\<close>

text \<open>
  The counters \<open>basic_elements\<close> of \<open>reload_find_and_check_module_basic_elements\<close> (-1 for an empty
  element) and the variables it sets; \<open>found_idx\<close> is \<open>current_module_idx\<close> (\<open>None\<close> for -1).
\<close>

record basic_vars =
  name_elems :: int
  path_elems :: int
  trapifc_elems :: int
  found_idx :: "nat option"
  new_module :: bool
  module_ifc_insert :: bool

definition basic_start :: "bool \<Rightarrow> bool \<Rightarrow> basic_vars" where
  "basic_start new ins = \<lparr>name_elems = 0, path_elems = 0, trapifc_elems = 0, found_idx = None,
     new_module = new, module_ifc_insert = ins\<rparr>"

text \<open>One child of the module element; the flag is \<open>move_to_next_module\<close>.\<close>

definition basic_child :: "libxml \<Rightarrow> sup \<Rightarrow> xml_node \<Rightarrow> bool \<Rightarrow> basic_vars \<Rightarrow> basic_vars \<times> bool" where
  "basic_child lib s n is_last v =
     (let (v1, move) =
        (if xname n = ''name'' then
           (case node_value lib n of
              None \<Rightarrow> (v\<lparr>name_elems := -1\<rparr>, True)
            | Some key \<Rightarrow>
                (let v1 = v\<lparr>name_elems := name_elems v + 1\<rparr>
                 in if name_elems v1 = 1 then
                      (case find_loaded_module s key of
                         None \<Rightarrow> (v1\<lparr>found_idx := Some (loaded_modules_cnt s), new_module := True, module_ifc_insert := True\<rparr>, False)
                       | Some idx \<Rightarrow>
                           (v1\<lparr>found_idx := Some idx, new_module := False, module_ifc_insert := False\<rparr>,
                            module_checked_by_reload (running_modules s ! idx)))
                    else (v1, True)))
         else if xname n = ''path'' then
           (case node_value lib n of
              None \<Rightarrow> (v\<lparr>path_elems := -1\<rparr>, True)
            | Some key \<Rightarrow> (v\<lparr>path_elems := path_elems v + 1\<rparr>, path_elems v + 1 > 1))
         else if xname n = ''trapinterfaces'' then
           (v\<lparr>trapifc_elems := trapifc_elems v + 1\<rparr>, trapifc_elems v + 1 > 1)
         else (v, False))
      in (v1, move \<or> (is_last \<and> (name_elems v1 = 0 \<or> path_elems v1 = 0))))"

lemma drop2_shorter: "drop 2 xs = e # es \<Longrightarrow> Suc (length es) < length xs"
  using length_drop[of 2 xs] by simp

text \<open>
  The loop over the children. \<open>elems\<close> are the siblings from the current module element on; when the
  element is unusable, the loop moves two siblings ahead and starts again there. \<open>None\<close>: there is no
  further element (\<open>last_module\<close>).
\<close>

function basic_loop ::
  "libxml \<Rightarrow> sup \<Rightarrow> xml_node list \<Rightarrow> xml_node list \<Rightarrow> basic_vars \<Rightarrow> (basic_vars \<times> xml_node list) option" where
  "basic_loop lib s elems [] v = Some (v, elems)"
| "basic_loop lib s elems (n # ns) v =
     (let (v1, move) = basic_child lib s n (ns = []) v
      in if \<not> move then basic_loop lib s elems ns v1
         else (case drop 2 elems of
                 [] \<Rightarrow> None
               | e # es \<Rightarrow> basic_loop lib s (e # es) (xchildren e) (basic_start (new_module v1) (module_ifc_insert v1))))"
  by pat_completeness auto

termination
  by (relation "inv_image (measure length <*lex*> measure length) (\<lambda>(lib, s, elems, ns, v). (elems, ns))")
    (auto dest!: drop2_shorter [OF sym] drop2_shorter)

definition forget_ifces :: "running_module \<Rightarrow> running_module" where
  "forget_ifces m = (free_module_interfaces_on_index (m\<lparr>module_modified_by_reload := True\<rparr>))\<lparr>config_ifces_cnt := 0\<rparr>"

text \<open>The whole function: \<open>None\<close> for the return value -1.\<close>

definition reload_find_and_check_module_basic_elements ::
  "libxml \<Rightarrow> sup \<Rightarrow> xml_node list \<Rightarrow> basic_vars \<Rightarrow> ((sup \<times> basic_vars) \<times> xml_node list) option" where
  "reload_find_and_check_module_basic_elements lib s elems v0 =
     (case basic_loop lib s elems (case elems of [] \<Rightarrow> [] | e # es \<Rightarrow> xchildren e) v0 of
        None \<Rightarrow> None
      | Some (v, elems') \<Rightarrow>
          if name_elems v \<noteq> 1 \<or> path_elems v \<noteq> 1 \<or> trapifc_elems v > 1 then None
          else (case found_idx v of
                  None \<Rightarrow> None
                | Some idx \<Rightarrow>
                    if \<not> new_module v \<and> trapifc_elems v = 0 \<and> config_ifces_cnt (running_modules s ! idx) > 0
                    then Some ((set_module idx (forget_ifces (running_modules s ! idx)) s, v\<lparr>module_ifc_insert := True\<rparr>), elems')
                    else Some ((s, v), elems')))"

subsection \<open>Applying a module element\<close>

text \<open>One child of the module element; \<open>ins\<close> is \<open>module_ifc_insert\<close>.\<close>

definition process_module_child ::
  "libxml \<Rightarrow> bool \<Rightarrow> xml_node \<Rightarrow> running_module \<times> bool \<Rightarrow> running_module \<times> bool" where
  "process_module_child lib new n mi =
     (let (m, ins) = mi; key = node_value lib n
      in if xname n = ''enabled'' then (reload_resolve_module_enabled new key m, ins)
         else if xname n = ''module-restarts'' then
           (case key of
              None \<Rightarrow> (m, ins)
            | Some k \<Rightarrow>
                (case sscanf_d k of
                   None \<Rightarrow> (m, ins)
                 | Some number \<Rightarrow> if number \<ge> 0 then (m\<lparr>module_max_restarts_per_minute := number\<rparr>, ins) else (m, ins)))
         else if xname n = ''params'' then
           (let (val, modified) = reload_process_module_atribute new key (module_params m)
            in (m\<lparr>module_params := val, module_modified_by_reload := module_modified_by_reload m \<or> modified\<rparr>, ins))
         else if xname n = ''name'' then
           (if new then (case key of None \<Rightarrow> (m, ins) | Some k \<Rightarrow> (m\<lparr>module_name := Some k\<rparr>, ins)) else (m, ins))
         else if xname n = ''path'' then
           (let (val, modified) = reload_process_module_atribute new key (module_path m)
            in (m\<lparr>module_path := val, module_modified_by_reload := module_modified_by_reload m \<or> modified\<rparr>, ins))
         else if xname n = ''trapinterfaces'' then reload_trapinterfaces lib new (xchildren n) m ins
         else (m, ins))"

definition process_module_children ::
  "libxml \<Rightarrow> bool \<Rightarrow> xml_node list \<Rightarrow> running_module \<times> bool \<Rightarrow> running_module \<times> bool" where
  "process_module_children lib new ns mi = fold (process_module_child lib new) ns mi"

definition restore_pid :: "libxml \<Rightarrow> reload_choice \<Rightarrow> xml_node \<Rightarrow> running_module \<Rightarrow> running_module" where
  "restore_pid lib choice elem m =
     (if choice = RELOAD_INIT_LOAD_CONFIG
      then (case get_prop lib elem ''module_pid'' of None \<Rightarrow> m | Some key \<Rightarrow> m\<lparr>module_pid := atoi key\<rparr>)
      else m)"

text \<open>From the check of the module's identity to the assignment of its profile.\<close>

definition apply_module ::
  "libxml \<Rightarrow> reload_choice \<Rightarrow> nat option \<Rightarrow> xml_node \<Rightarrow> nat \<Rightarrow> basic_vars \<Rightarrow> sup \<Rightarrow> sup" where
  "apply_module lib choice profile elem idx v s =
     (let m0 = restore_pid lib choice elem ((running_modules s ! idx)\<lparr>module_checked_by_reload := True\<rparr>);
          (m1, ins) = process_module_children lib (new_module v) (xchildren elem) (m0, module_ifc_insert v);
          m2 = (if ins then reload_count_module_interfaces m1 else m1);
          m3 = (case profile of None \<Rightarrow> m2 | Some p \<Rightarrow> m2\<lparr>module_profile := Some p\<rparr>);
          s1 = set_module idx m3 s
      in if idx = loaded_modules_cnt s then s1\<lparr>loaded_modules_cnt := loaded_modules_cnt s + 1\<rparr> else s1)"

lemma basic_loop_length:
  "basic_loop lib s elems ns v = Some (v', elems') \<Longrightarrow> length elems' \<le> length elems"
proof (induction lib s elems ns v rule: basic_loop.induct)
  case (2 lib s elems n ns v)
  obtain v1 move where c: "basic_child lib s n (ns = []) v = (v1, move)" by fastforce
  show ?case
  proof (cases move)
    case False
    with 2 c show ?thesis by simp
  next
    case True
    with 2(3) c obtain e es where d: "drop 2 elems = e # es" by (auto split: list.splits)
    from 2(2)[OF c[symmetric] refl _ d] True 2(3) c d have "length elems' \<le> length (e # es)" by simp
    with drop2_shorter[OF d] show ?thesis by simp
  qed
qed simp

lemma find_basic_length:
  "reload_find_and_check_module_basic_elements lib s elems v0 = Some (r, elems') \<Longrightarrow> length elems' \<le> length elems"
  by (auto simp: reload_find_and_check_module_basic_elements_def dest!: basic_loop_length
      split: option.splits if_splits)

text \<open>The loop over the children of a \<open>modules\<close> element; it is left when no usable module follows.\<close>

function modules_loop ::
  "libxml \<Rightarrow> reload_choice \<Rightarrow> nat option \<Rightarrow> xml_node list \<Rightarrow> basic_vars \<Rightarrow> sup \<Rightarrow> sup \<times> basic_vars" where
  "modules_loop lib choice profile [] v s = (s, v)"
| "modules_loop lib choice profile (e # es) v s =
     (if xname e \<noteq> ''module'' then modules_loop lib choice profile es v s
      else (let s1 = check_running_modules_allocated_memory s
            in case reload_find_and_check_module_basic_elements lib s1 (e # es)
                      (basic_start (new_module v) (module_ifc_insert v)) of
                 None \<Rightarrow> (s1, v)
               | Some ((s2, v2), elems) \<Rightarrow>
                   (case elems of
                      [] \<Rightarrow> (s2, v2)
                    | elem # rest \<Rightarrow>
                        (case found_idx v2 of
                           None \<Rightarrow> (s2, v2)
                         | Some idx \<Rightarrow> modules_loop lib choice profile rest v2 (apply_module lib choice profile elem idx v2 s2)))))"
  by pat_completeness auto

termination
proof (relation "measure (\<lambda>(lib, choice, profile, es, v, s). length es)")
qed (auto dest!: find_basic_length)

subsection \<open>Profiles\<close>

text \<open>
  The loop of \<open>reload_find_and_check_modules_profile_basic_elements\<close>: the two counters (-1 for an empty
  element), the name and the enabled flag; it is left at the first surplus or empty element.
\<close>

fun profile_loop :: "libxml \<Rightarrow> xml_node list \<Rightarrow> int \<Rightarrow> string \<Rightarrow> int \<Rightarrow> bool \<Rightarrow> (int \<times> string) \<times> (int \<times> bool)" where
  "profile_loop lib [] nc nm ec en = ((nc, nm), (ec, en))"
| "profile_loop lib (n # ns) nc nm ec en =
     (if xname n = ''name'' then
        (case node_value lib n of
           None \<Rightarrow> ((-1, nm), (ec, en))
         | Some key \<Rightarrow> if nc + 1 = 1 then profile_loop lib ns (nc + 1) key ec en else ((nc + 1, nm), (ec, en)))
      else if xname n = ''enabled'' then
        (case node_value lib n of
           None \<Rightarrow> ((nc, nm), (-1, en))
         | Some key \<Rightarrow> if ec + 1 = 1 then profile_loop lib ns nc nm (ec + 1) (key = ''true'') else ((nc, nm), (ec + 1, en)))
      else profile_loop lib ns nc nm ec en)"

definition reload_find_and_check_modules_profile_basic_elements :: "libxml \<Rightarrow> xml_node list \<Rightarrow> modules_profile option" where
  "reload_find_and_check_modules_profile_basic_elements lib children =
     (let ((nc, nm), (ec, en)) = profile_loop lib children 0 [] 0 False
      in if nc \<noteq> 1 \<or> ec \<noteq> 1 then None else Some \<lparr>profile_name = nm, profile_enabled = en\<rparr>)"

subsection \<open>The whole reload\<close>

text \<open>The flags every slot of the array is reset to, and the profiles dropped, before a document is applied.\<close>

definition reset_module :: "running_module \<Rightarrow> running_module" where
  "reset_module m = m\<lparr>module_checked_by_reload := False, module_modified_by_reload := False, module_profile := None,
     module_max_restarts_per_minute := -1, module_is_my_child := True, module_root_perm_needed := False,
     init_module := False, remove_module := False\<rparr>"

definition reset_for_reload :: "sup \<Rightarrow> sup" where
  "reset_for_reload s = s\<lparr>running_modules := map reset_module (running_modules s), profiles := [], loaded_profile_cnt := 0\<rparr>"

definition apply_modules_element :: "libxml \<Rightarrow> reload_choice \<Rightarrow> xml_node \<Rightarrow> basic_vars \<Rightarrow> sup \<Rightarrow> sup \<times> basic_vars" where
  "apply_modules_element lib choice n v s =
     (case reload_find_and_check_modules_profile_basic_elements lib (xchildren n) of
        None \<Rightarrow> modules_loop lib choice None (xchildren n) v s
      | Some p \<Rightarrow>
          modules_loop lib choice (Some (length (profiles s))) (xchildren n) v
            (s\<lparr>profiles := profiles s @ [p], loaded_profile_cnt := loaded_profile_cnt s + 1\<rparr>))"

fun root_loop :: "libxml \<Rightarrow> reload_choice \<Rightarrow> xml_node list \<Rightarrow> basic_vars \<Rightarrow> sup \<Rightarrow> sup" where
  "root_loop lib choice [] v s = s"
| "root_loop lib choice (n # ns) v s =
     (if xname n = ''supervisor'' then
        root_loop lib choice ns v
          (s\<lparr>module_restarts_num_config := reload_process_supervisor_element lib (xchildren n) (module_restarts_num_config s)\<rparr>)
      else if xname n = ''modules'' then
        (let (s', v') = apply_modules_element lib choice n v s in root_loop lib choice ns v' s')
      else root_loop lib choice ns v s)"

text \<open>The loops after the document has been applied.\<close>

definition mark_missing :: "running_module \<Rightarrow> running_module" where
  "mark_missing m = (if \<not> module_checked_by_reload m then m\<lparr>module_enabled := False, remove_module := True\<rparr> else m)"

definition mark_modified :: "running_module \<Rightarrow> running_module" where
  "mark_modified m =
     (let m1 = m\<lparr>module_served_by_service_thread := False\<rparr>
      in if module_modified_by_reload m1 \<and> module_running m1
         then (if module_enabled m1 then m1\<lparr>module_running := False, module_enabled := False, init_module := True\<rparr>
               else m1\<lparr>module_running := False\<rparr>)
         else m1)"

definition init_restored :: "reload_choice \<Rightarrow> running_module \<Rightarrow> running_module" where
  "init_restored choice m =
     (if choice = RELOAD_INIT_LOAD_CONFIG \<and> 0 < module_pid m then init_module_variables m else m)"

definition map_first :: "nat \<Rightarrow> ('a \<Rightarrow> 'a) \<Rightarrow> 'a list \<Rightarrow> 'a list" where
  "map_first n f xs = map f (take n xs) @ drop n xs"

definition finish_reload :: "reload_choice \<Rightarrow> nat \<Rightarrow> sup \<Rightarrow> sup" where
  "finish_reload choice original_loaded_modules_cnt s =
     (let ms1 = map_first original_loaded_modules_cnt mark_missing (running_modules s);
          ms2 = map_first (loaded_modules_cnt s) mark_modified ms1;
          ms3 = map_first (loaded_modules_cnt s) (init_restored choice) ms2
      in s\<lparr>running_modules := ms3\<rparr>)"

definition apply_configuration :: "libxml \<Rightarrow> reload_choice \<Rightarrow> xml_node \<Rightarrow> sup \<Rightarrow> sup" where
  "apply_configuration lib choice rt s =
     finish_reload choice (loaded_modules_cnt s)
       (root_loop lib choice (xchildren rt) (basic_start False False) (reset_for_reload s))"

text \<open>
  Where the document comes from: \<open>backup\<close> is the result of \<open>create_backup_file_path\<close>, \<open>parse\<close> is
  \<open>xmlParseFile\<close> followed by \<open>xmlDocGetRootElement\<close>, \<open>generated\<close> tells whether
  \<open>generate_config_file\<close> succeeded and \<open>gener_file\<close> is the file it writes. \<open>None\<close>: the function returns
  \<open>FALSE\<close> before validating.
\<close>

definition parse_default :: "(string \<Rightarrow> xml_node option option) \<Rightarrow> bool \<Rightarrow> string \<Rightarrow> xml_node option option" where
  "parse_default parse generated gener_file = (if generated then parse gener_file else None)"

definition load_document ::
  "reload_choice \<Rightarrow> string option \<Rightarrow> (string \<Rightarrow> xml_node option option) \<Rightarrow> bool \<Rightarrow> string \<Rightarrow> xml_node option
     \<Rightarrow> xml_node option option \<times> os_event list" where
  "load_document choice backup parse generated gener_file node =
     (case choice of
        RELOAD_INIT_LOAD_CONFIG \<Rightarrow>
          (case backup of
             None \<Rightarrow> (parse_default parse generated gener_file, [])
           | Some f \<Rightarrow>
               (case parse f of
                  None \<Rightarrow> (parse_default parse generated gener_file, [])
                | Some doc \<Rightarrow> (Some doc, [Unlink f])))
      | RELOAD_DEFAULT_CONFIG_FILE \<Rightarrow> (parse_default parse generated gener_file, [])
      | RELOAD_CALLBACK_ROOT_ELEM \<Rightarrow> (Some node, []))"

text \<open>The state after the reload and the returned value.\<close>

definition reload_document :: "libxml \<Rightarrow> reload_choice \<Rightarrow> xml_node option \<Rightarrow> sup \<Rightarrow> sup \<times> bool" where
  "reload_document lib choice doc s =
     (if validate_configuration lib doc then (apply_configuration lib choice (the doc) s, True) else (s, False))"

definition reload_configuration ::
  "libxml \<Rightarrow> reload_choice \<Rightarrow> string option \<Rightarrow> (string \<Rightarrow> xml_node option option) \<Rightarrow> bool \<Rightarrow> string \<Rightarrow> xml_node option
     \<Rightarrow> sup \<Rightarrow> (sup \<times> bool) \<times> os_event list" where
  "reload_configuration lib choice backup parse generated gener_file node s =
     (let (src, es) = load_document choice backup parse generated gener_file node
      in case src of None \<Rightarrow> ((s, False), es) | Some doc \<Rightarrow> (reload_document lib choice doc s, es))"

subsection \<open>What the functions keep of a module\<close>

text \<open>Everything the invariant of the state says about one module, its name apart.\<close>

definition reload_keeps :: "running_module \<Rightarrow> running_module \<Rightarrow> bool" where
  "reload_keeps m m' \<longleftrightarrow> (wf_ifces m \<longrightarrow> wf_ifces m' \<and> (mod_ok m \<longrightarrow> mod_ok m') \<and>
     module_pid m' = module_pid m \<and> module_status m' = module_status m \<and> sent_sigint m' = sent_sigint m \<and>
     module_profile m' = module_profile m \<and> remove_module m' = remove_module m \<and>
     module_checked_by_reload m' = module_checked_by_reload m)"

lemma reload_keeps_refl [simp]: "reload_keeps m m"
  by (simp add: reload_keeps_def)

lemma reload_keeps_trans: "reload_keeps a b \<Longrightarrow> reload_keeps b c \<Longrightarrow> reload_keeps a c"
  by (simp add: reload_keeps_def)

text \<open>Changes outside the fields the invariant reads.\<close>

lemma reload_keeps_simple:
  "reload_keeps m (m\<lparr>module_enabled := b\<rparr>)"
  "reload_keeps m (m\<lparr>module_restart_cnt := -1\<rparr>)"
  "reload_keeps m (m\<lparr>module_max_restarts_per_minute := n\<rparr>)"
  "reload_keeps m (m\<lparr>module_params := t\<rparr>)"
  "reload_keeps m (m\<lparr>module_path := t\<rparr>)"
  "reload_keeps m (m\<lparr>module_name := t\<rparr>)"
  "reload_keeps m (m\<lparr>module_modified_by_reload := b\<rparr>)"
  by (auto simp: reload_keeps_def wf_ifces_def mod_ok_defs)

lemma reload_keeps_enabled: "reload_keeps m (reload_resolve_module_enabled new key m)"
  by (auto simp: reload_resolve_module_enabled_def reload_keeps_def wf_ifces_def mod_ok_defs Let_def split: option.split)

lemma name_enabled: "module_name (reload_resolve_module_enabled new key m) = module_name m"
  by (auto simp: reload_resolve_module_enabled_def Let_def split: option.split)

text \<open>Changes of the interface array: what must be shown is its shape.\<close>

definition without_ifces :: "running_module \<Rightarrow> running_module" where
  "without_ifces m = m\<lparr>config_ifces := [], config_ifces_cnt := 0, config_ifces_arr_size := 0, module_modified_by_reload := False\<rparr>"

lemma without_ifces_updates [simp]:
  "without_ifces (m\<lparr>config_ifces := xs\<rparr>) = without_ifces m"
  "without_ifces (m\<lparr>config_ifces_cnt := n\<rparr>) = without_ifces m"
  "without_ifces (m\<lparr>config_ifces_arr_size := n\<rparr>) = without_ifces m"
  "without_ifces (m\<lparr>module_modified_by_reload := b\<rparr>) = without_ifces m"
  by (simp_all add: without_ifces_def)

lemma without_ifces_fields:
  assumes "without_ifces m' = without_ifces m"
  shows "mod_ok m' = mod_ok m \<and> module_pid m' = module_pid m \<and> module_status m' = module_status m \<and>
    sent_sigint m' = sent_sigint m \<and> module_profile m' = module_profile m \<and> module_name m' = module_name m \<and>
    remove_module m' = remove_module m \<and> module_checked_by_reload m' = module_checked_by_reload m"
  using assms unfolding without_ifces_def mod_ok_defs by (cases m; cases m'; simp)

lemma reload_keeps_ifces:
  assumes "wf_ifces m \<Longrightarrow> without_ifces m' = without_ifces m \<and> wf_ifces m'"
  shows "reload_keeps m m'"
  using without_ifces_fields[of m' m] assms by (auto simp: reload_keeps_def)

lemma wf_ifces_arr: "wf_ifces m \<longleftrightarrow> ifces_arr_ok m \<and> config_ifces_cnt m \<le> config_ifces_arr_size m"
  by (auto simp: wf_ifces_def ifces_arr_ok_def)

lemma free_ifces_shape:
  "without_ifces (free_module_interfaces_on_index m) = without_ifces m"
  "ifces_arr_ok (free_module_interfaces_on_index m) = ifces_arr_ok m"
  "config_ifces_arr_size (free_module_interfaces_on_index m) = config_ifces_arr_size m"
  "config_ifces_cnt (free_module_interfaces_on_index m) = config_ifces_cnt m"
  by (auto simp: free_module_interfaces_on_index_def ifces_arr_ok_def)

lemma ensure_ifces_shape:
  assumes "ifces_arr_ok m" "n \<le> config_ifces_arr_size m"
  shows "without_ifces (reload_check_module_allocated_interfaces n m) = without_ifces m"
    "ifces_arr_ok (reload_check_module_allocated_interfaces n m)"
    "n < config_ifces_arr_size (reload_check_module_allocated_interfaces n m)"
  using ifces_arr.ensure_ok[of "(n, m)"] ifces_arr.ensure_room[of "(n, m)"] assms
  by (auto simp: reload_check_module_allocated_interfaces_def ifces_arr_ok_def Let_def)

text \<open>The loop over the interfaces stays inside the array it grows.\<close>

lemma ifc_loop_shape:
  "ifces_arr_ok m \<Longrightarrow> c \<le> config_ifces_arr_size m \<Longrightarrow> ifc_loop lib children ins ns c m = ((m', ins'), c') \<Longrightarrow>
     without_ifces m' = without_ifces m \<and> ifces_arr_ok m' \<and> c' \<le> config_ifces_arr_size m'"
proof (induction lib children ins ns c m rule: ifc_loop.induct)
  case (2 lib children ins n ns c m)
  show ?case
  proof (cases "xname n = ''interface''")
    case True
    define m1 where "m1 = reload_check_module_allocated_interfaces c m"
    note sh = ensure_ifces_shape[OF "2.prems"(1,2), folded m1_def]
    show ?thesis
    proof (cases ins)
      case ins: True
      let ?m2 = "m1\<lparr>config_ifces := (config_ifces m1)[c := ifc_insert lib (xchildren n) (config_ifces m1 ! c)]\<rparr>"
      have "ifces_arr_ok ?m2" "Suc c \<le> config_ifces_arr_size ?m2" using sh by (auto simp: ifces_arr_ok_def)
      with "2.IH"(2)[OF _ m1_def refl] True ins "2.prems"(3) sh show ?thesis by (simp add: Let_def m1_def[symmetric])
    next
      case ins: False
      show ?thesis
      proof (cases "ifc_agrees lib (xchildren n) (config_ifces m1 ! c)")
        case agree: True
        with "2.IH"(3)[OF _ m1_def refl] True ins "2.prems"(3) sh show ?thesis by (simp add: Let_def m1_def[symmetric])
      next
        case agree: False
        let ?m2 = "(free_module_interfaces_on_index m1)\<lparr>module_modified_by_reload := True\<rparr>"
        have "ifces_arr_ok ?m2" using sh free_ifces_shape[of m1] by (simp add: ifces_arr_ok_def)
        with "2.IH"(4)[OF _ m1_def refl] True ins agree "2.prems"(3) sh free_ifces_shape(1)[of m1] show ?thesis
          by (simp add: Let_def m1_def[symmetric])
      qed
    qed
  qed (use 2 in simp)
qed simp

lemma ifces_count_shape:
  assumes "wf_ifces m"
  shows "without_ifces (fst (reload_check_modules_interfaces_count children m ins)) = without_ifces m"
    "wf_ifces (fst (reload_check_modules_interfaces_count children m ins))"
  using assms
  by (auto simp: reload_check_modules_interfaces_count_def free_module_interfaces_on_index_def wf_ifces_def Let_def)

lemma trapinterfaces_shape:
  assumes "wf_ifces m"
  shows "without_ifces (fst (reload_trapinterfaces lib new children m ins)) = without_ifces m \<and>
    wf_ifces (fst (reload_trapinterfaces lib new children m ins))"
proof -
  define r where "r = (if \<not> new then reload_check_modules_interfaces_count children m ins else (m, ins))"
  have 1: "without_ifces (fst r) = without_ifces m" "wf_ifces (fst r)"
    using ifces_count_shape[OF assms] assms by (simp_all add: r_def)
  obtain m2 ins2 c where l: "ifc_loop lib children (snd r) children 0 (fst r) = ((m2, ins2), c)"
    by (metis prod.exhaust)
  have "without_ifces m2 = without_ifces (fst r) \<and> ifces_arr_ok m2 \<and> c \<le> config_ifces_arr_size m2"
    using ifc_loop_shape[OF _ _ l] 1(2) by (simp add: wf_ifces_arr)
  then show ?thesis
    using 1 l by (simp add: reload_trapinterfaces_def r_def[symmetric] case_prod_unfold Let_def wf_ifces_arr ifces_arr_ok_def)
qed

lemma count_ifces_shape:
  "without_ifces (reload_count_module_interfaces m) = without_ifces m \<and> (wf_ifces m \<longrightarrow> wf_ifces (reload_count_module_interfaces m))"
  by (auto simp: reload_count_module_interfaces_def wf_ifces_def)

lemma forget_ifces_shape:
  "without_ifces (forget_ifces m) = without_ifces m \<and> (wf_ifces m \<longrightarrow> wf_ifces (forget_ifces m))"
  by (auto simp: forget_ifces_def free_module_interfaces_on_index_def wf_ifces_def)

lemma trapinterfaces_keeps: "reload_keeps m (fst (reload_trapinterfaces lib new children m ins))"
  using trapinterfaces_shape by (intro reload_keeps_ifces) blast

lemma reload_keeps_attr:
  "reload_keeps m (m\<lparr>module_params := a, module_modified_by_reload := b\<rparr>)"
  "reload_keeps m (m\<lparr>module_path := a, module_modified_by_reload := b\<rparr>)"
  by (auto simp: reload_keeps_def wf_ifces_def mod_ok_defs)

lemma child_keeps: "reload_keeps (fst mi) (fst (process_module_child lib new n mi))"
  by (simp add: process_module_child_def case_prod_unfold Let_def trapinterfaces_keeps reload_keeps_attr
      reload_keeps_enabled reload_keeps_simple split: option.split)

lemma children_keep: "reload_keeps (fst mi) (fst (process_module_children lib new ns mi))"
  unfolding process_module_children_def
proof (induction ns arbitrary: mi)
  case (Cons n ns)
  show ?case using reload_keeps_trans[OF child_keeps Cons.IH[of "process_module_child lib new n mi"]] by simp
qed simp

text \<open>The name of a module after its children have been processed.\<close>

definition name_keys :: "libxml \<Rightarrow> xml_node list \<Rightarrow> string option list" where
  "name_keys lib ns = map (node_value lib) (filter (\<lambda>n. xname n = ''name'') ns)"

lemma name_keys_simps [simp]:
  "name_keys lib [] = []"
  "name_keys lib (n # ns) = (if xname n = ''name'' then node_value lib n # name_keys lib ns else name_keys lib ns)"
  "name_keys lib (ns @ ns') = name_keys lib ns @ name_keys lib ns'"
  by (simp_all add: name_keys_def)

lemma trapinterfaces_name:
  "wf_ifces m \<Longrightarrow> module_name (fst (reload_trapinterfaces lib new children m ins)) = module_name m"
  using trapinterfaces_shape[of m lib new children ins] without_ifces_fields by blast

lemma child_name:
  assumes "wf_ifces (fst mi)"
  shows "module_name (fst (process_module_child lib new n mi)) =
    (if new \<and> xname n = ''name'' \<and> node_value lib n \<noteq> None then node_value lib n else module_name (fst mi))"
  using assms
  by (simp add: process_module_child_def case_prod_unfold Let_def name_enabled trapinterfaces_name split: option.split)

lemma child_wf: "wf_ifces (fst mi) \<Longrightarrow> wf_ifces (fst (process_module_child lib new n mi))"
  using child_keeps[of mi lib new n] by (simp add: reload_keeps_def)

lemma children_same_name:
  "wf_ifces (fst mi) \<Longrightarrow> \<not> new \<or> name_keys lib ns = [] \<Longrightarrow>
     module_name (fst (process_module_children lib new ns mi)) = module_name (fst mi)"
  unfolding process_module_children_def
proof (induction ns arbitrary: mi)
  case (Cons n ns)
  then show ?case using child_name[of mi lib new n] child_wf[of mi lib new n] by (auto split: if_splits)
qed simp

lemma children_new_name:
  "wf_ifces (fst mi) \<Longrightarrow> name_keys lib ns = [Some key] \<Longrightarrow>
     module_name (fst (process_module_children lib True ns mi)) = Some key"
proof (induction ns arbitrary: mi)
  case (Cons n ns)
  let ?mi = "process_module_child lib True n mi"
  have step: "process_module_children lib True (n # ns) mi = process_module_children lib True ns ?mi"
    by (simp add: process_module_children_def)
  show ?case
  proof (cases "xname n = ''name''")
    case True
    with Cons.prems have "name_keys lib ns = []" "node_value lib n = Some key" by simp_all
    then show ?thesis
      using children_same_name[of ?mi True lib ns] child_wf[OF Cons.prems(1), of lib True n]
        child_name[OF Cons.prems(1), of lib True n] True step by simp
  next
    case False
    then show ?thesis using Cons child_wf[OF Cons.prems(1), of lib True n] step by simp
  qed
qed simp

subsection \<open>Which module an element is applied to\<close>

text \<open>What the counters say about the children of the element seen so far.\<close>

definition basic_ok :: "libxml \<Rightarrow> sup \<Rightarrow> xml_node list \<Rightarrow> basic_vars \<Rightarrow> bool" where
  "basic_ok lib s seen v \<longleftrightarrow>
     (name_elems v = 0 \<and> name_keys lib seen = [] \<or>
      name_elems v = 1 \<and>
        (\<exists>key. name_keys lib seen = [Some key] \<and>
           (case find_loaded_module s key of
              None \<Rightarrow> found_idx v = Some (loaded_modules_cnt s) \<and> new_module v \<and> module_ifc_insert v
            | Some idx \<Rightarrow> found_idx v = Some idx \<and> \<not> new_module v \<and> \<not> module_checked_by_reload (running_modules s ! idx))))"

lemma basic_child_ok:
  assumes "basic_ok lib s seen v" "basic_child lib s n is_last v = (v', False)"
  shows "basic_ok lib s (seen @ [n]) v'"
  using assms
  by (auto simp: basic_ok_def basic_child_def Let_def split: if_splits option.splits)

lemma basic_loop_ok:
  "basic_loop lib s elems ns v = Some (v', elems') \<Longrightarrow> elems = e # es \<Longrightarrow> xchildren e = seen @ ns \<Longrightarrow>
     basic_ok lib s seen v \<Longrightarrow> \<exists>e' es'. elems' = e' # es' \<and> basic_ok lib s (xchildren e') v'"
proof (induction lib s elems ns v arbitrary: e es seen rule: basic_loop.induct)
  case (2 lib s elems n ns v)
  obtain v1 move where c: "basic_child lib s n (ns = []) v = (v1, move)" by fastforce
  show ?case
  proof (cases move)
    case False
    have "basic_ok lib s (seen @ [n]) v1" using basic_child_ok[OF "2.prems"(4)] c False by simp
    with "2.IH"(1)[OF c[symmetric] refl, of e es "seen @ [n]"] False "2.prems" c show ?thesis by simp
  next
    case True
    with "2.prems"(1) c obtain e2 es2 where d: "drop 2 elems = e2 # es2" by (auto split: list.splits)
    have "basic_ok lib s [] (basic_start (new_module v1) (module_ifc_insert v1))"
      by (simp add: basic_ok_def basic_start_def)
    with "2.IH"(2)[OF c[symmetric] refl _ d, of e2 es2 "[]"] True "2.prems"(1) c d show ?thesis by simp
  qed
qed auto

subsection \<open>Interfaces that changed\<close>

lemma ifc_loop_skip:
  "\<forall>p \<in> set pre. xname p \<noteq> ''interface'' \<Longrightarrow> ifc_loop lib children ins (pre @ ns) c m = ifc_loop lib children ins ns c m"
  by (induction pre) simp_all

lemma ifc_loop_insert_count:
  "snd (ifc_loop lib children True ns c m) = c + length (filter (\<lambda>n. xname n = ''interface'') ns)"
  by (induction ns arbitrary: c m) (simp_all add: Let_def)

text \<open>
  When the first interface of a loaded module differs from the document and their number is the
  same, the interfaces are read again starting behind the first child of \<open>trapinterfaces\<close>: all of them
  when some other node (such as the white space of an indented file) precedes the first
  \<open>interface\<close> element, all but the first one when it is the first child.
\<close>

theorem interface_mismatch_count:
  assumes "wf_ifces m" "children = pre @ n # ns" "\<forall>p \<in> set pre. xname p \<noteq> ''interface''" "xname n = ''interface''"
    "config_ifces_cnt m = length (filter (\<lambda>n. xname n = ''interface'') children)"
    "\<not> ifc_agrees lib (xchildren n) (config_ifces m ! 0)"
  shows "config_ifces_cnt (fst (reload_trapinterfaces lib False children m False)) =
    (if pre = [] then config_ifces_cnt m - 1 else config_ifces_cnt m)"
proof -
  have c: "config_ifces_cnt m = Suc (length (filter (\<lambda>n. xname n = ''interface'') ns))"
    using assms(2-5) by (simp add: filter_empty_conv)
  then have "reload_check_module_allocated_interfaces 0 m = m"
    using assms(1) by (auto simp: reload_check_module_allocated_interfaces_def wf_ifces_def)
  then have "ifc_loop lib children False children 0 m =
      ifc_loop lib children True (tl children) 0 ((free_module_interfaces_on_index m)\<lparr>module_modified_by_reload := True\<rparr>)"
    using ifc_loop_skip[OF assms(3), of lib children False "n # ns" 0 m] assms(2,4,6) by (simp add: Let_def)
  then have "config_ifces_cnt (fst (reload_trapinterfaces lib False children m False)) =
      length (filter (\<lambda>n. xname n = ''interface'') (tl children))"
    using assms(5) ifc_loop_insert_count[of lib children "tl children" 0]
    by (simp add: reload_trapinterfaces_def reload_check_modules_interfaces_count_def case_prod_unfold Let_def)
  also have "\<dots> = (if pre = [] then config_ifces_cnt m - 1 else config_ifces_cnt m)"
    using assms(2-4) c by (cases pre) (simp_all add: filter_empty_conv)
  finally show ?thesis .
qed

definition ifc_elem :: "string \<Rightarrow> xml_node" where
  "ifc_elem d = Xml_Node XML_ELEMENT_NODE ''interface''
     [Xml_Node XML_ELEMENT_NODE ''direction'' [Xml_Node XML_TEXT_NODE ''text'' [] [] d] [] []] [] []"

theorem interface_mismatch_count_witness:
  "config_ifces_cnt (fst (reload_trapinterfaces \<lparr>node_list_string = (\<lambda>ns. Some (xcontent (hd ns))), get_prop = (\<lambda>n p. None)\<rparr> False
     [ifc_elem ''IN'', ifc_elem ''OUT''] (fresh_module\<lparr>config_ifces_cnt := 2\<rparr>) False)) = 1"
  using interface_mismatch_count[of "fresh_module\<lparr>config_ifces_cnt := 2\<rparr>" "[ifc_elem ''IN'', ifc_elem ''OUT'']" "[]" "ifc_elem ''IN''"
      "[ifc_elem ''OUT'']" "\<lparr>node_list_string = (\<lambda>ns. Some (xcontent (hd ns))), get_prop = (\<lambda>n p. None)\<rparr>"]
  by (simp add: ifc_elem_def fresh_module_def zero_module_def wf_ifces_def size_ok_def IFCES_ARRAY_START_SIZE_def
      ifc_atr_agrees_def node_value_def zero_interface_def)

end
