(* ===== verification/Reload_Inv.thy ===== *)
theory Reload_Inv
  imports Reload Interactive
begin

section \<open>A reload keeps the invariant of the state\<close>

text \<open>
  What a reload of an arbitrary document, accepted or not, does to the state the service thread works on.
  Proved: every loop of the second phase of \<open>reload_configuration\<close> keeps the arrays, the counters,
  the references to profiles and the distinctness of the names (\<open>wf_sup\<close>), and with them whatever holds of
  each module and is not touched by applying an element. The latter is the parameter of the locale
  \<open>reload_step\<close>, which is interpreted for a reload at run time and for the first load.
\<close>

subsection \<open>Writing one module\<close>

definition sup_inv :: "(running_module \<Rightarrow> bool) \<Rightarrow> sup \<Rightarrow> bool" where
  "sup_inv P s \<longleftrightarrow> wf_sup s \<and> (\<forall>m \<in> set (running_modules s). P m)"

lemma sup_inv_slot:
  assumes "sup_inv P s" "x < running_modules_array_size s"
  shows "wf_ifces (running_modules s ! x)" "P (running_modules s ! x)"
    "wf_profile (length (profiles s)) (running_modules s ! x)"
  using assms by (simp_all add: sup_inv_def wf_sup_def list_all_iff)

lemma loaded_set_slot:
  "loaded (set_module x m s) = (if x < loaded_modules_cnt s then (loaded s)[x := m] else loaded s)"
  by (simp add: loaded_def set_module_def take_update_swap list_update_beyond)

lemma set_module_fields [simp]:
  "loaded_modules_cnt (set_module x m s) = loaded_modules_cnt s"
  "profiles (set_module x m s) = profiles s"
  "running_modules_array_size (set_module x m s) = running_modules_array_size s"
  "length (running_modules (set_module x m s)) = length (running_modules s)"
  by (simp_all add: set_module_def)

lemma wf_sup_set_slot:
  assumes "wf_sup s" "x < running_modules_array_size s" "wf_ifces m" "wf_profile (length (profiles s)) m"
    and "x < loaded_modules_cnt s \<Longrightarrow> module_name m = module_name (running_modules s ! x)"
  shows "wf_sup (set_module x m s)"
proof -
  have n: "map module_name (loaded (set_module x m s)) = map module_name (loaded s)"
    using assms(5) length_loaded[OF assms(1)]
    by (auto simp: loaded_set_slot map_update loaded_nth[symmetric] list_update_same_conv)
  have "list_all (\<lambda>m. module_name m \<noteq> None) (loaded (set_module x m s)) =
      list_all (\<lambda>n. n \<noteq> None) (map module_name (loaded (set_module x m s)))"
    by (simp add: list_all_iff)
  also have "\<dots> = list_all (\<lambda>m. module_name m \<noteq> None) (loaded s)" by (simp add: n list_all_iff)
  finally show ?thesis
    using assms n by (auto simp: wf_sup_def set_module_def list_all_iff dest!: set_update_subset_insert[THEN subsetD])
qed

lemma sup_inv_set_module:
  assumes "sup_inv P s" "x < running_modules_array_size s" "wf_ifces m" "P m" "wf_profile (length (profiles s)) m"
    and "x < loaded_modules_cnt s \<Longrightarrow> module_name m = module_name (running_modules s ! x)"
  shows "sup_inv P (set_module x m s)"
  using assms wf_sup_set_slot[of s x m]
  by (auto simp: sup_inv_def set_module_def dest!: set_update_subset_insert[THEN subsetD])

text \<open>The module written behind the loaded ones becomes the last of them.\<close>

lemma sup_inv_append:
  assumes "sup_inv P s" "x = loaded_modules_cnt s" "x < running_modules_array_size s" "wf_ifces m" "P m"
    "wf_profile (length (profiles s)) m"
    and "module_name m = Some key" "find_loaded_module s key = None"
  shows "sup_inv P ((set_module x m s)\<lparr>loaded_modules_cnt := loaded_modules_cnt s + 1\<rparr>)"
proof -
  let ?s = "set_module x m s" and ?t = "(set_module x m s)\<lparr>loaded_modules_cnt := loaded_modules_cnt s + 1\<rparr>"
  have s: "sup_inv P ?s" using assms by (intro sup_inv_set_module) simp_all
  have "loaded ?t = loaded s @ [m]"
    using assms s by (simp add: loaded_def set_module_def take_Suc_conv_app_nth sup_inv_def wf_sup_def)
  then show ?thesis
    using s assms unfolding find_loaded_module_None
    by (auto simp: sup_inv_def wf_sup_def set_module_def)
qed

lemma loaded_check:
  assumes "wf_sup s"
  shows "loaded_modules_cnt (check_running_modules_allocated_memory s) = loaded_modules_cnt s"
    "loaded (check_running_modules_allocated_memory s) = loaded s"
  using assms by (auto simp: check_running_modules_allocated_memory_def wf_sup_def loaded_def Let_def)

subsection \<open>The loops over the elements\<close>

text \<open>
  What a successful search for the next usable element returns: an element with exactly one name, and
  either the index of the loaded module of that name, not seen before in this document, or the first free
  slot when no loaded module has it.
\<close>

definition found_ok :: "libxml \<Rightarrow> sup \<Rightarrow> sup \<Rightarrow> basic_vars \<Rightarrow> xml_node \<Rightarrow> nat \<Rightarrow> string \<Rightarrow> bool" where
  "found_ok lib s s2 v elem idx key \<longleftrightarrow> found_idx v = Some idx \<and> name_keys lib (xchildren elem) = [Some key] \<and>
     (find_loaded_module s key = None \<and> idx = loaded_modules_cnt s \<and> new_module v \<and> module_ifc_insert v \<and> s2 = s \<or>
      find_loaded_module s key = Some idx \<and> \<not> new_module v \<and> \<not> module_checked_by_reload (running_modules s ! idx) \<and>
        (s2 = s \<or> s2 = set_module idx (forget_ifces (running_modules s ! idx)) s))"

lemma find_basic_found:
  assumes "reload_find_and_check_module_basic_elements lib s (e # es) (basic_start n i) = Some ((s2, v2), elems)"
  shows "\<exists>elem rest idx key. elems = elem # rest \<and> found_ok lib s s2 v2 elem idx key"
proof -
  obtain v where l: "basic_loop lib s (e # es) (xchildren e) (basic_start n i) = Some (v, elems)" and nm: "name_elems v = 1"
    and r: "(case found_idx v of None \<Rightarrow> None | Some idx \<Rightarrow>
       if \<not> new_module v \<and> trapifc_elems v = 0 \<and> config_ifces_cnt (running_modules s ! idx) > 0
       then Some ((set_module idx (forget_ifces (running_modules s ! idx)) s, v\<lparr>module_ifc_insert := True\<rparr>), elems)
       else Some ((s, v), elems)) = Some ((s2, v2), elems)"
    using assms by (auto simp: reload_find_and_check_module_basic_elements_def split: option.splits if_splits)
  have "basic_ok lib s [] (basic_start n i)" by (simp add: basic_ok_def basic_start_def)
  from basic_loop_ok[OF l refl _ this] obtain elem rest where el: "elems = elem # rest" "basic_ok lib s (xchildren elem) v"
    by auto
  with nm obtain key where k: "name_keys lib (xchildren elem) = [Some key]"
    and c: "case find_loaded_module s key of
              None \<Rightarrow> found_idx v = Some (loaded_modules_cnt s) \<and> new_module v \<and> module_ifc_insert v
            | Some idx \<Rightarrow> found_idx v = Some idx \<and> \<not> new_module v \<and> \<not> module_checked_by_reload (running_modules s ! idx)"
    unfolding basic_ok_def by auto
  show ?thesis
  proof (intro exI conjI)
    show "elems = elem # rest" by (rule el)
    show "found_ok lib s s2 v2 elem (the (found_idx v)) key"
      using c r k by (cases "find_loaded_module s key") (auto simp: found_ok_def split: if_splits)
  qed
qed

text \<open>
  \<open>P\<close> holds of every slot of the array. It is kept by whatever keeps the fields of \<open>reload_keeps\<close>, by
  restoring the process id of the element, and holds of slots that were just allocated.
\<close>

definition profile_in :: "nat option \<Rightarrow> nat \<Rightarrow> bool" where
  "profile_in pr n \<longleftrightarrow> (case pr of None \<Rightarrow> True | Some p \<Rightarrow> p < n)"

locale reload_step =
  fixes P :: "running_module \<Rightarrow> bool" and choice :: reload_choice
  assumes keeps: "P m \<Longrightarrow> wf_ifces m \<Longrightarrow> reload_keeps m m' \<Longrightarrow> P m'"
    and profile: "P m \<Longrightarrow> P (m\<lparr>module_profile := pr\<rparr>)"
    and restore: "P m \<Longrightarrow> P (restore_pid lib choice e m)"
    and fresh: "P fresh_module"
    and checked: "P m \<Longrightarrow> P (m\<lparr>module_checked_by_reload := b\<rparr>)"
    and reset: "P m \<Longrightarrow> P (reset_module m)"
begin

lemma sup_inv_check:
  assumes "sup_inv P s"
  shows "sup_inv P (check_running_modules_allocated_memory s)"
    "loaded_modules_cnt (check_running_modules_allocated_memory s) < running_modules_array_size (check_running_modules_allocated_memory s)"
proof -
  have ok: "modules_arr_ok s" using assms by (simp add: sup_inv_def wf_sup_def modules_arr_ok_def)
  have fr: "wf_ifces fresh_module" "wf_profile n fresh_module" for n
    by (simp_all add: fresh_module_def zero_module_def wf_ifces_def wf_profile_def size_ok_def IFCES_ARRAY_START_SIZE_def)
  show "loaded_modules_cnt (check_running_modules_allocated_memory s) < running_modules_array_size (check_running_modules_allocated_memory s)"
    using modules_arr.ensure_room[OF ok] modules_arr.ensure_ok[OF ok] loaded_check assms by (simp add: modules_arr_ok_def sup_inv_def)
  show "sup_inv P (check_running_modules_allocated_memory s)"
    using assms fr fresh modules_arr.ensure_ok[OF ok]
    by (auto simp: sup_inv_def wf_sup_def modules_arr_ok_def check_running_modules_allocated_memory_def loaded_def
        list_all_iff Let_def split: if_splits)
qed

lemma child_inv:
  assumes "P m" "wf_ifces m"
  shows "P (fst (process_module_children lib new ns (m, ins)))" "wf_ifces (fst (process_module_children lib new ns (m, ins)))"
    "module_profile (fst (process_module_children lib new ns (m, ins))) = module_profile m"
    "module_checked_by_reload (fst (process_module_children lib new ns (m, ins))) = module_checked_by_reload m"
  using children_keep[of "(m, ins)" lib new ns] keeps[OF assms] assms(2) by (auto simp: reload_keeps_def)

lemma sup_inv_found:
  assumes "sup_inv P s" "found_ok lib s s2 v elem idx key"
  shows "sup_inv P s2"
proof (cases "s2 = s")
  case False
  with assms(2) have f: "find_loaded_module s key = Some idx" "s2 = set_module idx (forget_ifces (running_modules s ! idx)) s"
    by (auto simp: found_ok_def)
  have w: "wf_sup s" using assms(1) by (simp add: sup_inv_def)
  have idx: "idx < loaded_modules_cnt s" using find_loaded_module_Some(1)[OF f(1)] length_loaded[OF w] by simp
  then have x: "idx < running_modules_array_size s" using w by (simp add: wf_sup_def)
  let ?m = "running_modules s ! idx"
  note slot = sup_inv_slot[OF assms(1) x]
  have "reload_keeps ?m (forget_ifces ?m)" using forget_ifces_shape by (intro reload_keeps_ifces) blast
  moreover have "module_name (forget_ifces ?m) = module_name ?m" using forget_ifces_shape without_ifces_fields by blast
  ultimately show ?thesis
    using slot keeps[OF slot(2,1)] unfolding f(2)
    by (intro sup_inv_set_module[OF assms(1) x]) (auto simp: reload_keeps_def wf_profile_def)
qed (use assms in simp)

lemma found_same:
  assumes "found_ok lib s s2 v elem idx key"
  shows "profiles s2 = profiles s" "loaded_modules_cnt s2 = loaded_modules_cnt s"
    "running_modules_array_size s2 = running_modules_array_size s"
  using assms by (auto simp: found_ok_def)

lemma found_slot:
  assumes "sup_inv P s" "loaded_modules_cnt s < running_modules_array_size s" "found_ok lib s s2 v elem idx key"
  shows "idx < running_modules_array_size s"
    "\<not> new_module v \<Longrightarrow> module_name (running_modules s2 ! idx) = Some key"
    "find_loaded_module s key \<noteq> None \<Longrightarrow> idx < loaded_modules_cnt s"
proof -
  have w: "wf_sup s" using assms(1) by (simp add: sup_inv_def)
  show old: "idx < loaded_modules_cnt s" if "find_loaded_module s key \<noteq> None"
    using that find_loaded_module_Some(1)[of s key] length_loaded[OF w] assms(3) by (auto simp: found_ok_def)
  then show x: "idx < running_modules_array_size s" using assms(2,3) w by (auto simp: found_ok_def wf_sup_def)
  show "module_name (running_modules s2 ! idx) = Some key" if "\<not> new_module v"
  proof -
    from that assms(3) have f: "find_loaded_module s key = Some idx" by (auto simp: found_ok_def)
    have "module_name (running_modules s ! idx) = Some key"
      using find_loaded_module_Some(2)[OF f] old f by (simp add: loaded_nth)
    moreover have "module_name (forget_ifces m) = module_name m" for m
      using forget_ifces_shape without_ifces_fields by blast
    moreover have "idx < length (running_modules s)" using x w by (simp add: wf_sup_def)
    ultimately show ?thesis using assms(3) by (auto simp: found_ok_def set_module_def)
  qed
qed

text \<open>The module \<open>apply_module\<close> writes.\<close>

lemma applied_module:
  fixes lib elem new ins pr
  assumes "P m" "wf_ifces m" "wf_profile n m" "profile_in pr n"
  defines "m0 \<equiv> restore_pid lib choice elem (m\<lparr>module_checked_by_reload := True\<rparr>)"
  defines "r \<equiv> process_module_children lib new (xchildren elem) (m0, ins)"
  defines "m2 \<equiv> (if snd r then reload_count_module_interfaces (fst r) else fst r)"
  defines "m3 \<equiv> (case pr of None \<Rightarrow> m2 | Some p \<Rightarrow> m2\<lparr>module_profile := Some p\<rparr>)"
  shows "P m3 \<and> wf_ifces m3 \<and> wf_profile n m3 \<and> module_name m3 = module_name (fst r) \<and> wf_ifces m0 \<and> module_name m0 = module_name m \<and>
    module_checked_by_reload m3"
proof -
  have m0: "P m0" "wf_ifces m0" "module_profile m0 = module_profile m" "module_name m0 = module_name m" "module_checked_by_reload m0"
    using checked[OF assms(1)] restore assms(2) unfolding m0_def
    by (auto simp: restore_pid_def wf_ifces_def split: option.split)
  have r: "P (fst r)" "wf_ifces (fst r)" "module_profile (fst r) = module_profile m" "module_checked_by_reload (fst r)"
    using child_inv[OF m0(1,2)] m0(3,5) unfolding r_def by simp_all
  have "reload_keeps (fst r) (reload_count_module_interfaces (fst r))"
    using count_ifces_shape by (intro reload_keeps_ifces) blast
  then have "P m2 \<and> wf_ifces m2 \<and> module_profile m2 = module_profile m \<and> module_name m2 = module_name (fst r) \<and>
      module_checked_by_reload m2"
    using r keeps[OF r(1,2)] without_ifces_fields[of "reload_count_module_interfaces (fst r)" "fst r"]
      count_ifces_shape[of "fst r"] unfolding m2_def by (simp add: reload_keeps_def)
  then show ?thesis
    using m0 assms(3,4) profile unfolding m3_def by (auto simp: wf_profile_def wf_ifces_def profile_in_def split: option.split)
qed

lemma apply_module_writes:
  assumes "sup_inv P s" "loaded_modules_cnt s < running_modules_array_size s" "found_ok lib s s2 v elem idx key"
    "profile_in pr (length (profiles s))"
  shows "\<exists>m. apply_module lib choice pr elem idx v s2 =
      (if idx = loaded_modules_cnt s then (set_module idx m s2)\<lparr>loaded_modules_cnt := loaded_modules_cnt s + 1\<rparr>
       else set_module idx m s2) \<and>
    P m \<and> wf_ifces m \<and> wf_profile (length (profiles s)) m \<and> module_checked_by_reload m \<and> module_name m = Some key"
proof -
  have s2: "sup_inv P s2" by (rule sup_inv_found[OF assms(1,3)])
  note x = found_slot[OF assms(1-3)] and same = found_same[OF assms(3)]
  let ?m = "running_modules s2 ! idx"
  define m0 where "m0 = restore_pid lib choice elem (?m\<lparr>module_checked_by_reload := True\<rparr>)"
  define r where "r = process_module_children lib (new_module v) (xchildren elem) (m0, module_ifc_insert v)"
  define m3 where "m3 = (let m2 = (if snd r then reload_count_module_interfaces (fst r) else fst r)
    in case pr of None \<Rightarrow> m2 | Some p \<Rightarrow> m2\<lparr>module_profile := Some p\<rparr>)"
  note slot = sup_inv_slot[OF s2 x(1)[folded same(3)]]
  have m3: "P m3" "wf_ifces m3" "wf_profile (length (profiles s)) m3" "module_name m3 = module_name (fst r)"
    "wf_ifces m0" "module_name m0 = module_name ?m" "module_checked_by_reload m3"
    using applied_module[OF slot(2,1,3), of pr lib "new_module v" elem "module_ifc_insert v"] assms(4)
    unfolding m3_def r_def m0_def Let_def same by simp_all
  have "module_name (fst r) = Some key"
  proof (cases "new_module v")
    case True
    with children_new_name[of "(m0, module_ifc_insert v)" lib "xchildren elem" key] m3(5) assms(3) show ?thesis
      by (simp add: r_def found_ok_def)
  next
    case False
    with children_same_name[of "(m0, module_ifc_insert v)" "new_module v" lib "xchildren elem"] m3(5,6) x(2)
    show ?thesis by (simp add: r_def)
  qed
  moreover have "apply_module lib choice pr elem idx v s2 =
      (if idx = loaded_modules_cnt s then (set_module idx m3 s2)\<lparr>loaded_modules_cnt := loaded_modules_cnt s + 1\<rparr>
       else set_module idx m3 s2)"
    unfolding apply_module_def m3_def r_def m0_def Let_def case_prod_unfold by (simp add: same)
  ultimately show ?thesis using m3 by auto
qed

lemma sup_inv_apply:
  assumes "sup_inv P s" "loaded_modules_cnt s < running_modules_array_size s" "found_ok lib s s2 v elem idx key"
    "profile_in pr (length (profiles s))"
  shows "sup_inv P (apply_module lib choice pr elem idx v s2)" "profiles (apply_module lib choice pr elem idx v s2) = profiles s"
proof -
  have s2: "sup_inv P s2" by (rule sup_inv_found[OF assms(1,3)])
  note x = found_slot[OF assms(1-3)] and same = found_same[OF assms(3)]
  from apply_module_writes[OF assms] obtain m where
    app: "apply_module lib choice pr elem idx v s2 =
      (if idx = loaded_modules_cnt s then (set_module idx m s2)\<lparr>loaded_modules_cnt := loaded_modules_cnt s + 1\<rparr>
       else set_module idx m s2)"
    and m: "P m" "wf_ifces m" "wf_profile (length (profiles s)) m" "module_name m = Some key" by blast
  show "profiles (apply_module lib choice pr elem idx v s2) = profiles s" using app by (simp add: same)
  show "sup_inv P (apply_module lib choice pr elem idx v s2)"
  proof (cases "idx = loaded_modules_cnt s")
    case True
    with x(3) assms(3) have "find_loaded_module s key = None" "s2 = s" by (auto simp: found_ok_def)
    then show ?thesis
      using sup_inv_append[OF s2 _ x(1)[folded same(3)] m(2,1)] m(3,4) True app by (simp add: same)
  next
    case False
    with assms(3) have "\<not> new_module v" by (auto simp: found_ok_def)
    then show ?thesis
      using sup_inv_set_module[OF s2 x(1)[folded same(3)] m(2,1)] m(3,4) x(2) app False by (simp add: same)
  qed
qed

lemma sup_inv_modules_loop:
  "sup_inv P s \<Longrightarrow> profile_in pr (length (profiles s)) \<Longrightarrow> modules_loop lib choice pr es v s = (s', v') \<Longrightarrow>
     sup_inv P s'"
proof (induction lib choice\<equiv>choice pr es v s rule: modules_loop.induct)
  case (2 lib pr e es v s)
  show ?case
  proof (cases "xname e = ''module''")
    case True
    define s1 where "s1 = check_running_modules_allocated_memory s"
    have s1: "sup_inv P s1" "loaded_modules_cnt s1 < running_modules_array_size s1" "profiles s1 = profiles s"
      using sup_inv_check[OF "2.prems"(1)]
      by (simp_all add: s1_def check_running_modules_allocated_memory_def Let_def)
    show ?thesis
    proof (cases "reload_find_and_check_module_basic_elements lib s1 (e # es) (basic_start (new_module v) (module_ifc_insert v))")
      case None
      with True "2.prems"(3) s1 show ?thesis by (simp add: s1_def[symmetric] Let_def)
    next
      case (Some r)
      obtain s2 v2 elems where r: "r = ((s2, v2), elems)" by (metis prod.exhaust)
      from find_basic_found[OF Some[unfolded r]] obtain elem rest idx key
        where f: "elems = elem # rest" "found_ok lib s1 s2 v2 elem idx key" by blast
      then have fi: "found_idx v2 = Some idx" by (simp add: found_ok_def)
      have eq: "modules_loop lib choice pr rest v2 (apply_module lib choice pr elem idx v2 s2) = (s', v')"
        using "2.prems"(3) True Some r f(1) fi by (simp add: s1_def[symmetric] Let_def)
      have "sup_inv P (apply_module lib choice pr elem idx v2 s2)" "profiles (apply_module lib choice pr elem idx v2 s2) = profiles s"
        using sup_inv_apply[OF s1(1,2) f(2)] "2.prems"(2) s1(3) by auto
      then have "sup_inv P (apply_module lib choice pr elem idx v2 s2)"
        "profile_in pr (length (profiles (apply_module lib choice pr elem idx v2 s2)))" using "2.prems"(2) by simp_all
      from "2.hyps"(2)[OF _ s1_def Some r[symmetric] refl f(1) fi this eq] True show ?thesis by simp
    qed
  qed (use 2 in simp)
qed simp

lemma sup_inv_add_profile:
  "sup_inv P s \<Longrightarrow> sup_inv P (s\<lparr>profiles := profiles s @ [p], loaded_profile_cnt := loaded_profile_cnt s + 1\<rparr>)"
  by (auto simp: sup_inv_def wf_sup_def loaded_def list_all_iff wf_profile_def split: option.splits)

lemma sup_inv_root_loop: "sup_inv P s \<Longrightarrow> sup_inv P (root_loop lib choice ns v s)"
proof (induction ns arbitrary: v s)
  case (Cons n ns)
  obtain s' v' where a: "apply_modules_element lib choice n v s = (s', v')" by fastforce
  then have "sup_inv P s'"
    using Cons.prems
    by (auto simp: apply_modules_element_def profile_in_def split: option.splits
        elim!: sup_inv_modules_loop[rotated 2] intro: sup_inv_add_profile[simplified])
  moreover have "sup_inv P (s\<lparr>module_restarts_num_config := k\<rparr>)" for k
    using Cons.prems by (simp add: sup_inv_def wf_sup_def loaded_def)
  ultimately show ?case using Cons a by simp
qed simp

lemma sup_inv_reset: "sup_inv P s \<Longrightarrow> sup_inv P (reset_for_reload s)"
  using reset
  by (auto simp: sup_inv_def wf_sup_def reset_for_reload_def loaded_def list_all_iff wf_profile_def wf_ifces_def reset_module_def
      take_map comp_def)

lemma sup_inv_applied: "sup_inv P s \<Longrightarrow> sup_inv P (root_loop lib choice ns v (reset_for_reload s))"
  by (simp add: sup_inv_root_loop sup_inv_reset)

end

text \<open>For the whole reload \<open>P\<close> must also survive the marking of modules at its end.\<close>

locale whole_reload = reload_step +
  assumes finish: "P m \<Longrightarrow> P (mark_missing m)" "P m \<Longrightarrow> P (mark_modified m)" "P m \<Longrightarrow> P (init_restored choice m)"
begin

lemma sup_inv_map_first:
  assumes "sup_inv P s" "\<And>m. P m \<Longrightarrow> P (f m)" "\<And>m. same_shape m (f m)"
  shows "sup_inv P (s\<lparr>running_modules := map_first n f (running_modules s)\<rparr>)"
proof -
  have "list_all2 same_shape (running_modules s) (map_first n f (running_modules s))"
    using assms(3) by (auto simp: list_all2_conv_all_nth map_first_def nth_append min_def not_less)
  moreover have "\<forall>m \<in> set (map_first n f (running_modules s)). P m"
    using assms(1,2) by (auto simp: map_first_def sup_inv_def dest: in_set_takeD in_set_dropD)
  ultimately show ?thesis using assms(1) wf_sup_same_shape by (simp add: sup_inv_def)
qed

lemma sup_inv_finish:
  assumes "sup_inv P s"
  shows "sup_inv P (finish_reload choice n s)"
proof -
  have sh: "same_shape m (mark_missing m)" "same_shape m (mark_modified m)" "same_shape m (init_restored choice m)" for m
    by (simp_all add: same_shape_def mark_missing_def mark_modified_def init_restored_def init_module_variables_def Let_def)
  from sup_inv_map_first[OF sup_inv_map_first[OF sup_inv_map_first[OF assms finish(1) sh(1)] finish(2) sh(2)] finish(3) sh(3)]
  show ?thesis by (simp add: finish_reload_def Let_def)
qed

lemma sup_inv_reload: "sup_inv P s \<Longrightarrow> sup_inv P (fst (reload_document lib choice doc s))"
  by (simp add: reload_document_def apply_configuration_def sup_inv_finish sup_inv_applied)

lemma sup_inv_reload_configuration:
  "sup_inv P s \<Longrightarrow> sup_inv P (fst (fst (reload_configuration lib choice backup parse generated gener_file node s)))"
  by (simp add: reload_configuration_def case_prod_unfold Let_def sup_inv_reload split: option.split)

end

subsection \<open>At run time and at the start\<close>

definition run_ok :: "os_event list \<Rightarrow> running_module \<Rightarrow> bool" where
  "run_ok tr m \<longleftrightarrow> mod_ok m \<and> sent_inv tr m"

definition start_ok :: "running_module \<Rightarrow> bool" where
  "start_ok m \<longleftrightarrow> mod_ok m \<and> \<not> module_status m \<and> \<not> sent_sigint m"

lemma service_inv_run: "service_inv tr s \<longleftrightarrow> sup_inv (run_ok tr) s"
  by (auto simp: service_inv_def sup_inv_def all_mod_ok_def run_ok_def)

lemmas reload_bodies = restore_pid_def fresh_module_def zero_module_def reset_module_def mark_missing_def mark_modified_def
  init_restored_def init_module_variables_def

interpretation at_run: whole_reload "run_ok tr" RELOAD_DEFAULT_CONFIG_FILE
  by unfold_locales (auto simp: run_ok_def reload_keeps_def sent_inv_def reload_bodies mod_ok_defs stat_cells_def Let_def)

interpretation at_callback: whole_reload "run_ok tr" RELOAD_CALLBACK_ROOT_ELEM
  by unfold_locales (auto simp: run_ok_def reload_keeps_def sent_inv_def reload_bodies mod_ok_defs stat_cells_def Let_def)

interpretation at_start: whole_reload start_ok RELOAD_INIT_LOAD_CONFIG
  by unfold_locales (auto simp: start_ok_def reload_keeps_def reload_bodies mod_ok_defs stat_cells_def Let_def split: option.splits)

text \<open>No module is marked for removal while the document is applied.\<close>

interpretation not_removed: reload_step "\<lambda>m. \<not> remove_module m" choice
  by unfold_locales (auto simp: reload_keeps_def reload_bodies split: option.splits)

end
