(* ===== verification/Reload_Doc.thy ===== *)
theory Reload_Doc
  imports Reload_Inv
begin

section \<open>An accepted document is applied completely\<close>

text \<open>
  The link between the two phases of a reload. Proved: for a document that \<open>validate_configuration\<close>
  accepts, the second phase skips no module element; the loaded modules afterwards are the old ones in
  their order followed by the new ones in the order of the document, and exactly those the document does
  not name are marked for removal. The abstraction is the list of names with the flag
  \<open>module_checked_by_reload\<close>; every step of the loops is one step \<open>mark\<close> on it.
\<close>

subsection \<open>Elements the search does not skip\<close>

text \<open>The conditions on a module element in terms of node names alone, which is what the search tests.\<close>

definition named_values :: "libxml \<Rightarrow> string \<Rightarrow> xml_node list \<Rightarrow> string option list" where
  "named_values lib nm ns = map (node_value lib) (filter (\<lambda>n. xname n = nm) ns)"

lemma named_values_simps [simp]:
  "named_values lib nm [] = []"
  "named_values lib nm (n # ns) = (if xname n = nm then node_value lib n # named_values lib nm ns else named_values lib nm ns)"
  "named_values lib nm (ns @ ns') = named_values lib nm ns @ named_values lib nm ns'"
  by (simp_all add: named_values_def)

definition usable :: "libxml \<Rightarrow> xml_node list \<Rightarrow> string \<Rightarrow> bool" where
  "usable lib ns key \<longleftrightarrow> named_values lib ''name'' ns = [Some key] \<and> (\<exists>p. named_values lib ''path'' ns = [Some p]) \<and>
     length (named_values lib ''trapinterfaces'' ns) \<le> 1"

lemma good_elem_usable:
  assumes "good_elem lib e" "plain_names e"
  shows "usable lib (xchildren e) (elem_name lib e)"
proof -
  have "\<forall>n \<in> set (xchildren e). plain_node n" using assms(2) plain_children plain_names_node by blast
  with assms(1) have "filter (\<lambda>n. xname n = nm) (xchildren e) = filter (is_elem nm) (xchildren e)"
    if "nm \<noteq> ''text''" "nm \<noteq> ''comment''" for nm
    using that known_named[of "xchildren e" nm] by (intro filter_cong) (auto simp: good_elem_def)
  then show ?thesis using assms(1) by (simp add: usable_def named_values_def good_elem_def elem_values_def)
qed

definition counted :: "libxml \<Rightarrow> xml_node list \<Rightarrow> basic_vars \<Rightarrow> bool" where
  "counted lib seen v \<longleftrightarrow> name_elems v = int (length (named_values lib ''name'' seen)) \<and>
     path_elems v = int (length (named_values lib ''path'' seen)) \<and>
     trapifc_elems v = int (length (named_values lib ''trapinterfaces'' seen))"

definition not_yet_seen :: "sup \<Rightarrow> string \<Rightarrow> bool" where
  "not_yet_seen s key \<longleftrightarrow>
     (case find_loaded_module s key of None \<Rightarrow> True | Some idx \<Rightarrow> \<not> module_checked_by_reload (running_modules s ! idx))"

lemma basic_child_counts:
  assumes "usable lib (seen @ n # ns) key" "counted lib seen v" "not_yet_seen s key"
  shows "\<exists>v'. basic_child lib s n (ns = []) v = (v', False) \<and> counted lib (seen @ [n]) v'"
proof -
  have "\<exists>v'. basic_child lib s n False v = (v', False) \<and> counted lib (seen @ [n]) v'"
    using assms
    by (cases "xname n = ''name''"; cases "xname n = ''path''"; cases "xname n = ''trapinterfaces''")
      (auto simp: usable_def counted_def not_yet_seen_def basic_child_def append_eq_Cons_conv split: option.splits)
  then obtain v' where v': "basic_child lib s n False v = (v', False)" "counted lib (seen @ [n]) v'" by blast
  have "basic_child lib s n True v = (fst (basic_child lib s n False v), snd (basic_child lib s n False v) \<or>
      name_elems v' = 0 \<or> path_elems v' = 0)"
    using v'(1) by (simp add: basic_child_def case_prod_unfold Let_def)
  moreover have "ns = [] \<Longrightarrow> name_elems v' \<noteq> 0 \<and> path_elems v' \<noteq> 0"
    using v'(2) assms(1) by (auto simp: usable_def counted_def)
  ultimately show ?thesis using v' by (cases "ns = []") auto
qed

lemma basic_loop_usable:
  "usable lib (seen @ ns) key \<Longrightarrow> counted lib seen v \<Longrightarrow> not_yet_seen s key \<Longrightarrow>
     \<exists>v'. basic_loop lib s elems ns v = Some (v', elems) \<and> counted lib (seen @ ns) v'"
proof (induction ns arbitrary: seen v)
  case (Cons n ns)
  from basic_child_counts[OF Cons.prems] obtain v' where
    v': "basic_child lib s n (ns = []) v = (v', False)" "counted lib (seen @ [n]) v'" by blast
  with Cons.IH[of "seen @ [n]" v'] Cons.prems show ?case by simp
qed simp

lemma find_basic_usable:
  assumes "usable lib (xchildren e) key" "not_yet_seen s key"
  shows "\<exists>s2 v2 idx. reload_find_and_check_module_basic_elements lib s (e # es) (basic_start nw ins) = Some ((s2, v2), e # es) \<and>
    found_ok lib s s2 v2 e idx key"
proof -
  have "counted lib [] (basic_start nw ins)" by (simp add: counted_def basic_start_def)
  with basic_loop_usable[of lib "[]" "xchildren e" key _ s "e # es"] assms obtain v
    where v: "basic_loop lib s (e # es) (xchildren e) (basic_start nw ins) = Some (v, e # es)" "counted lib (xchildren e) v"
    by auto
  have c: "name_elems v = 1" "path_elems v = 1" "trapifc_elems v \<le> 1"
    using v(2) assms(1) by (auto simp: usable_def counted_def)
  have "basic_ok lib s [] (basic_start nw ins)" by (simp add: basic_ok_def basic_start_def)
  from basic_loop_ok[OF v(1) refl _ this] c(1) obtain idx where "found_idx v = Some idx"
    by (auto simp: basic_ok_def split: option.splits)
  with v(1) c have "\<exists>s2 v2. reload_find_and_check_module_basic_elements lib s (e # es) (basic_start nw ins) = Some ((s2, v2), e # es)"
    by (auto simp: reload_find_and_check_module_basic_elements_def)
  then obtain s2 v2 where
    r: "reload_find_and_check_module_basic_elements lib s (e # es) (basic_start nw ins) = Some ((s2, v2), e # es)" by blast
  from find_basic_found[OF r] obtain idx key' where f: "found_ok lib s s2 v2 e idx key'" by auto
  then have "key' = key" using assms(1) by (simp add: found_ok_def usable_def name_keys_def named_values_def)
  with r f show ?thesis by blast
qed

subsection \<open>The names and flags of the loaded modules\<close>

definition view :: "sup \<Rightarrow> (string option \<times> bool) list" where
  "view s = map (\<lambda>m. (module_name m, module_checked_by_reload m)) (loaded s)"

definition mark :: "string \<Rightarrow> (string option \<times> bool) list \<Rightarrow> (string option \<times> bool) list" where
  "mark key xs = (if Some key \<in> fst ` set xs then map (\<lambda>(k, b). (k, b \<or> k = Some key)) xs else xs @ [(Some key, True)])"

lemma mark_names: "fst ` set (mark key xs) = insert (Some key) (fst ` set xs)"
  by (force simp: mark_def)

lemma mark_other: "(Some k, True) \<notin> set xs \<Longrightarrow> k \<noteq> key \<Longrightarrow> (Some k, True) \<notin> set (mark key xs)"
  by (auto simp: mark_def)

lemma fold_mark:
  "distinct keys \<Longrightarrow> fold mark keys xs = map (\<lambda>(k, b). (k, b \<or> k \<in> Some ` set keys)) xs @
     map (\<lambda>k. (Some k, True)) (filter (\<lambda>k. Some k \<notin> fst ` set xs) keys)"
proof (induction keys arbitrary: xs)
  case (Cons key keys)
  have f: "filter (\<lambda>k. Some k \<notin> fst ` set (mark key xs)) keys = filter (\<lambda>k. Some k \<notin> fst ` set xs) keys"
    using Cons.prems by (intro filter_cong) (auto simp: mark_names)
  have "fold mark (key # keys) xs = map (\<lambda>(k, b). (k, b \<or> k \<in> Some ` set keys)) (mark key xs) @
     map (\<lambda>k. (Some k, True)) (filter (\<lambda>k. Some k \<notin> fst ` set xs) keys)"
    using Cons.IH[of "mark key xs"] Cons.prems f by simp
  also have "map (\<lambda>(k, b). (k, b \<or> k \<in> Some ` set keys)) (mark key xs) =
      map (\<lambda>(k, b). (k, b \<or> k \<in> Some ` set (key # keys))) xs @
      (if Some key \<in> fst ` set xs then [] else [(Some key, True)])"
    by (force simp: mark_def)
  finally show ?case by simp
qed simp

lemma view_names: "fst ` set (view s) = module_name ` set (loaded s)"
  by (force simp: view_def)

lemma view_not_yet_seen: "(Some key, True) \<notin> set (view s) \<Longrightarrow> not_yet_seen s key"
proof (cases "find_loaded_module s key")
  case (Some idx)
  assume v: "(Some key, True) \<notin> set (view s)"
  note f = find_loaded_module_Some[OF Some]
  have "(module_name (loaded s ! idx), module_checked_by_reload (loaded s ! idx)) \<in> set (view s)"
    using f(1) by (force simp: view_def)
  moreover have "loaded s ! idx = running_modules s ! idx" using f(1) by (simp add: loaded_def)
  ultimately show ?thesis using v f(2) Some by (auto simp: not_yet_seen_def)
qed (simp add: not_yet_seen_def)

lemma loaded_append:
  "wf_sup s \<Longrightarrow> x = loaded_modules_cnt s \<Longrightarrow> x < running_modules_array_size s \<Longrightarrow>
     loaded ((set_module x m s)\<lparr>loaded_modules_cnt := loaded_modules_cnt s + 1\<rparr>) = loaded s @ [m]"
  by (simp add: loaded_def set_module_def take_Suc_conv_app_nth wf_sup_def)

lemma view_forget: "view (set_module x (forget_ifces (running_modules s ! x)) s) = view s"
proof -
  have k: "module_name (forget_ifces m) = module_name m \<and> module_checked_by_reload (forget_ifces m) = module_checked_by_reload m" for m
    using forget_ifces_shape without_ifces_fields by blast
  let ?f = "\<lambda>m. (module_name m, module_checked_by_reload m)"
  have "(map ?f (loaded s))[x := ?f (loaded s ! x)] = map ?f (loaded s)" using map_update[of ?f "loaded s" x "loaded s ! x"] by simp
  then show ?thesis by (simp add: view_def loaded_set_slot map_update loaded_nth[symmetric] k)
qed

lemma view_set_named:
  assumes "wf_sup s" "find_loaded_module s key = Some x" "module_name m = Some key" "module_checked_by_reload m"
  shows "map (\<lambda>m. (module_name m, module_checked_by_reload m)) ((loaded s)[x := m]) = mark key (view s)"
proof (rule nth_equalityI)
  note f = find_loaded_module_Some[OF assms(2)]
  have mem: "Some key \<in> fst ` set (view s)" using f by (metis view_names image_eqI nth_mem)
  then show "length (map (\<lambda>m. (module_name m, module_checked_by_reload m)) ((loaded s)[x := m])) = length (mark key (view s))"
    by (simp add: mark_def view_def)
  fix i assume "i < length (map (\<lambda>m. (module_name m, module_checked_by_reload m)) ((loaded s)[x := m]))"
  then have i: "i < length (loaded s)" by simp
  have "distinct (map module_name (loaded s))" using assms(1) by (simp add: wf_sup_def)
  then have "module_name (loaded s ! i) = Some key \<longleftrightarrow> i = x" using f i by (metis length_map nth_eq_iff_index_eq nth_map)
  then show "map (\<lambda>m. (module_name m, module_checked_by_reload m)) ((loaded s)[x := m]) ! i = mark key (view s) ! i"
    using mem i f assms(3,4) by (auto simp: mark_def view_def nth_list_update)
qed

lemma named_in_elems:
  assumes "is_elem ''modules'' n" "filter (\<lambda>e. xname e = ''module'') (xchildren n) = filter (is_elem ''module'') (xchildren n)"
  shows "e \<in> set (xchildren n) \<Longrightarrow> xname e = ''module'' \<Longrightarrow> e \<in> set (module_elems (n # ns))"
  using arg_cong[OF assms(2), of set] assms(1) by (auto simp: module_elems_Cons)

text \<open>The loop over the children of the root: nodes as validation accepts them.\<close>

definition root_ok :: "libxml \<Rightarrow> xml_node list \<Rightarrow> bool" where
  "root_ok lib ns \<longleftrightarrow> known_nodes ns \<and> (\<forall>n \<in> set ns. plain_names n \<and> (is_elem ''modules'' n \<longrightarrow> known_nodes (xchildren n))) \<and>
     (\<forall>e \<in> set (module_elems ns). good_elem lib e)"

lemma root_ok_Cons:
  assumes "root_ok lib (n # ns)"
  shows "root_ok lib ns" "xname n = ''modules'' \<longleftrightarrow> is_elem ''modules'' n"
    "is_elem ''modules'' n \<Longrightarrow> filter (\<lambda>e. xname e = ''module'') (xchildren n) = filter (is_elem ''module'') (xchildren n)"
    "is_elem ''modules'' n \<Longrightarrow> e \<in> set (xchildren n) \<Longrightarrow> xname e = ''module'' \<Longrightarrow> usable lib (xchildren e) (elem_name lib e)"
proof -
  show "root_ok lib ns" using assms by (auto simp: root_ok_def known_nodes_def module_elems_Cons split: if_splits)
  show "xname n = ''modules'' \<longleftrightarrow> is_elem ''modules'' n"
    using assms known_named[of "n # ns" "''modules''" n] plain_names_node by (auto simp: root_ok_def)
  have named: "xname e = ''module'' \<longleftrightarrow> is_elem ''module'' e" if "is_elem ''modules'' n" "e \<in> set (xchildren n)" for e
    using that assms known_named[of "xchildren n" "''module''" e] plain_children[of n] plain_names_node by (auto simp: root_ok_def)
  then show "filter (\<lambda>e. xname e = ''module'') (xchildren n) = filter (is_elem ''module'') (xchildren n)" if "is_elem ''modules'' n"
    using that by (intro filter_cong) auto
  show "usable lib (xchildren e) (elem_name lib e)" if m: "is_elem ''modules'' n" "e \<in> set (xchildren n)" "xname e = ''module''"
  proof (rule good_elem_usable)
    show "good_elem lib e" using m named[OF m(1,2)] assms by (auto simp: root_ok_def module_elems_Cons)
    show "plain_names e" using assms plain_children[OF _ m(2)] by (simp add: root_ok_def)
  qed
qed

context reload_step
begin

text \<open>Applying one element is one step of the abstraction.\<close>

lemma apply_view:
  assumes "sup_inv P s" "loaded_modules_cnt s < running_modules_array_size s" "found_ok lib s s2 v elem idx key"
    "profile_in pr (length (profiles s))"
  shows "view (apply_module lib choice pr elem idx v s2) = mark key (view s)"
proof -
  have w: "wf_sup s" using assms(1) by (simp add: sup_inv_def)
  have w2: "wf_sup s2" using sup_inv_found[OF assms(1,3)] by (simp add: sup_inv_def)
  note slot = found_slot[OF assms(1-3)]
  from apply_module_writes[OF assms] obtain m where
    app: "apply_module lib choice pr elem idx v s2 =
      (if idx = loaded_modules_cnt s then (set_module idx m s2)\<lparr>loaded_modules_cnt := loaded_modules_cnt s + 1\<rparr>
       else set_module idx m s2)" and m: "module_checked_by_reload m" "module_name m = Some key" by blast
  show ?thesis
  proof (cases "find_loaded_module s key")
    case None
    with assms(3) have "idx = loaded_modules_cnt s" "s2 = s" by (auto simp: found_ok_def)
    with None show ?thesis
      using app m loaded_append[OF w] slot(1) by (simp add: view_def mark_def find_loaded_module_None image_image)
  next
    case (Some i)
    with assms(3) have i: "i = idx" by (auto simp: found_ok_def)
    have lt: "idx < loaded_modules_cnt s" using slot(3) Some by simp
    have v2: "view s2 = view s" using assms(3) view_forget by (auto simp: found_ok_def)
    then have l2: "(loaded s2)[idx := m] = loaded (set_module idx m s2)"
      using lt found_same(2)[OF assms(3)] by (simp add: loaded_set_slot)
    have "map (\<lambda>m. (module_name m, module_checked_by_reload m)) ((loaded s2)[idx := m]) =
        map (\<lambda>m. (module_name m, module_checked_by_reload m)) ((loaded s)[idx := m])"
      using v2 by (simp add: view_def map_update)
    then show ?thesis using view_set_named[OF w Some[unfolded i] m(2,1)] app lt l2 by (simp add: view_def)
  qed
qed

lemma modules_loop_view:
  "sup_inv P s \<Longrightarrow> profile_in pr (length (profiles s)) \<Longrightarrow>
     \<forall>e \<in> set es. xname e = ''module'' \<longrightarrow> usable lib (xchildren e) (elem_name lib e) \<Longrightarrow>
     distinct (map (elem_name lib) (filter (\<lambda>e. xname e = ''module'') es)) \<Longrightarrow>
     \<forall>e \<in> set es. xname e = ''module'' \<longrightarrow> (Some (elem_name lib e), True) \<notin> set (view s) \<Longrightarrow>
     view (fst (modules_loop lib choice pr es v s)) = fold mark (map (elem_name lib) (filter (\<lambda>e. xname e = ''module'') es)) (view s)"
proof (induction es arbitrary: v s)
  case (Cons e es)
  show ?case
  proof (cases "xname e = ''module''")
    case True
    define s1 where "s1 = check_running_modules_allocated_memory s"
    have s1: "sup_inv P s1" "loaded_modules_cnt s1 < running_modules_array_size s1" "profiles s1 = profiles s" "view s1 = view s"
      using sup_inv_check[OF Cons.prems(1)] loaded_check[of s] Cons.prems(1)
      by (simp_all add: s1_def check_running_modules_allocated_memory_def Let_def sup_inv_def view_def)
    let ?key = "elem_name lib e"
    have pr: "profile_in pr (length (profiles s1))" using Cons.prems(2) s1(3) by simp
    have "not_yet_seen s1 ?key" using view_not_yet_seen Cons.prems(5) True s1(4) by simp
    with find_basic_usable[of lib e ?key s1 es "new_module v" "module_ifc_insert v"] Cons.prems(3) True obtain s2 v2 idx
      where r: "reload_find_and_check_module_basic_elements lib s1 (e # es) (basic_start (new_module v) (module_ifc_insert v))
        = Some ((s2, v2), e # es)" and f: "found_ok lib s1 s2 v2 e idx ?key" by auto
    let ?s = "apply_module lib choice pr e idx v2 s2"
    have v: "view ?s = mark ?key (view s)" using apply_view[OF s1(1,2) f pr] s1(4) by simp
    have "modules_loop lib choice pr (e # es) v s = modules_loop lib choice pr es v2 ?s"
      using True r f by (simp add: s1_def[symmetric] Let_def found_ok_def)
    moreover have ne: "elem_name lib e' \<noteq> ?key" if "e' \<in> set es" "xname e' = ''module''" for e'
      using Cons.prems(4) True that by (auto simp: image_iff)
    moreover have "view (fst (modules_loop lib choice pr es v2 ?s)) =
        fold mark (map (elem_name lib) (filter (\<lambda>e. xname e = ''module'') es)) (view ?s)"
    proof (rule Cons.IH)
      show "sup_inv P ?s" "profile_in pr (length (profiles ?s))"
        using sup_inv_apply[OF s1(1,2) f pr] Cons.prems(2) s1(3) by simp_all
      show "\<forall>e \<in> set es. xname e = ''module'' \<longrightarrow> (Some (elem_name lib e), True) \<notin> set (view ?s)"
        unfolding v using Cons.prems(5) ne mark_other by simp
    qed (use Cons.prems(3,4) True in auto)
    ultimately show ?thesis using v True by simp
  qed (use Cons in simp)
qed simp

lemma root_loop_view:
  "sup_inv P s \<Longrightarrow> root_ok lib ns \<Longrightarrow> distinct (map (elem_name lib) (module_elems ns)) \<Longrightarrow>
     \<forall>e \<in> set (module_elems ns). (Some (elem_name lib e), True) \<notin> set (view s) \<Longrightarrow>
     view (root_loop lib choice ns v s) = fold mark (map (elem_name lib) (module_elems ns)) (view s)"
proof (induction ns arbitrary: v s)
  case (Cons n ns)
  note ok = root_ok_Cons[OF Cons.prems(2)]
  show ?case
  proof (cases "is_elem ''modules'' n")
    case True
    then have nm: "xname n = ''modules''" by (simp add: is_elem_def)
    let ?keys = "map (elem_name lib) (filter (is_elem ''module'') (xchildren n))"
    obtain s' v' where a: "apply_modules_element lib choice n v s = (s', v')" by fastforce
    have el: "module_elems (n # ns) = filter (is_elem ''module'') (xchildren n) @ module_elems ns"
      using True by (simp add: module_elems_Cons)
    have loop: "view (fst (modules_loop lib choice pr (xchildren n) v t)) = fold mark ?keys (view s)"
      if "sup_inv P t" "profile_in pr (length (profiles t))" "view t = view s" for pr t
      using modules_loop_view[OF that(1,2), of "xchildren n" lib v] ok(3,4)[OF True] Cons.prems(3,4) that(3) el
        named_in_elems[OF True ok(3)[OF True], where ns = ns]
      by simp
    have add: "sup_inv P (s\<lparr>profiles := profiles s @ [p], loaded_profile_cnt := loaded_profile_cnt s + 1\<rparr>)"
      "view (s\<lparr>profiles := profiles s @ [p], loaded_profile_cnt := loaded_profile_cnt s + 1\<rparr>) = view s" for p
      using sup_inv_add_profile[OF Cons.prems(1)] by (simp_all add: view_def loaded_def)
    have "view (fst (apply_modules_element lib choice n v s)) = fold mark ?keys (view s)"
      using loop[of s None] loop[OF add(1), of "Some (length (profiles s))"] add(2) Cons.prems(1)
      by (simp add: apply_modules_element_def profile_in_def split: option.split)
    then have v: "view s' = fold mark ?keys (view s)" using a by simp
    have inv: "sup_inv P s'" using sup_inv_root_loop[OF Cons.prems(1), of lib "[n]" v] a nm by simp
    have "view (root_loop lib choice ns v' s') = fold mark (map (elem_name lib) (module_elems ns)) (view s')"
    proof (rule Cons.IH[OF inv ok(1)])
      show "\<forall>e \<in> set (module_elems ns). (Some (elem_name lib e), True) \<notin> set (view s')"
        unfolding v using Cons.prems(3,4) el by (auto simp: fold_mark)
    qed (use Cons.prems(3) el in simp)
    then show ?thesis using a nm v el by simp
  next
    case False
    with ok(2) have nm: "xname n \<noteq> ''modules''" by simp
    have "sup_inv P (s\<lparr>module_restarts_num_config := k\<rparr>)" "view (s\<lparr>module_restarts_num_config := k\<rparr>) = view s" for k
      using Cons.prems(1) by (simp_all add: sup_inv_def wf_sup_def loaded_def view_def)
    with Cons.IH[OF _ ok(1)] Cons.prems False nm show ?thesis by (simp add: module_elems_Cons)
  qed
qed (simp add: module_elems_def)

end

subsection \<open>The result of a reload\<close>

lemma reset_not_removed: "wf_sup s \<Longrightarrow> sup_inv (\<lambda>m. \<not> remove_module m) (reset_for_reload s)"
  by (auto simp: sup_inv_def wf_sup_def reset_for_reload_def loaded_def list_all_iff wf_profile_def wf_ifces_def reset_module_def
      take_map comp_def)

lemma reset_view: "view (reset_for_reload s) = map (\<lambda>m. (module_name m, False)) (loaded s)"
  by (simp add: view_def reset_for_reload_def loaded_def reset_module_def take_map)

lemma length_map_first [simp]: "length (map_first n f xs) = length xs"
  by (simp add: map_first_def min_def)

lemma nth_map_first: "i < length xs \<Longrightarrow> map_first n f xs ! i = (if i < n then f (xs ! i) else xs ! i)"
  by (simp add: map_first_def nth_append min_def)

lemma finish_length: "length (running_modules (finish_reload choice n s)) = length (running_modules s)"
  by (simp add: finish_reload_def Let_def)

text \<open>The loops at the end mark exactly the modules whose flag is not set.\<close>

lemma finish_removed:
  assumes "sup_inv (\<lambda>m. \<not> remove_module m) s" "\<forall>i. n \<le> i \<longrightarrow> i < loaded_modules_cnt s \<longrightarrow> snd (view s ! i)"
  shows "map (\<lambda>m. (module_name m, remove_module m)) (loaded (finish_reload choice n s)) = map (\<lambda>(k, b). (k, \<not> b)) (view s)"
proof (rule nth_equalityI)
  have w: "wf_sup s" using assms(1) by (simp add: sup_inv_def)
  have len: "loaded_modules_cnt s \<le> length (running_modules s)" using w by (simp add: wf_sup_def)
  have cnt: "loaded_modules_cnt (finish_reload choice n s) = loaded_modules_cnt s" by (simp add: finish_reload_def Let_def)
  show "length (map (\<lambda>m. (module_name m, remove_module m)) (loaded (finish_reload choice n s))) = length (map (\<lambda>(k, b). (k, \<not> b)) (view s))"
    by (simp add: view_def loaded_def cnt finish_length)
  fix i assume "i < length (map (\<lambda>m. (module_name m, remove_module m)) (loaded (finish_reload choice n s)))"
  then have i: "i < loaded_modules_cnt s" "i < length (running_modules s)"
    using len by (simp_all add: loaded_def cnt finish_length)
  let ?m = "running_modules s ! i"
  have nr: "\<not> remove_module ?m" using assms(1) i(2) by (simp add: sup_inv_def)
  have ck: "module_checked_by_reload ?m" if "n \<le> i" using assms(2) that i w by (simp add: view_def loaded_nth)
  have fin: "running_modules (finish_reload choice n s) ! i =
      init_restored choice (mark_modified (if i < n then mark_missing ?m else ?m))"
    using i len by (simp add: finish_reload_def Let_def nth_map_first)
  have "module_name (init_restored choice (mark_modified m)) = module_name m \<and>
      remove_module (init_restored choice (mark_modified m)) = remove_module m" for m
    by (simp add: init_restored_def mark_modified_def init_module_variables_def Let_def)
  then have "module_name (running_modules (finish_reload choice n s) ! i) = module_name ?m \<and>
      (remove_module (running_modules (finish_reload choice n s) ! i) \<longleftrightarrow> \<not> module_checked_by_reload ?m)"
    using nr ck unfolding fin by (auto simp: mark_missing_def)
  then show "map (\<lambda>m. (module_name m, remove_module m)) (loaded (finish_reload choice n s)) ! i = map (\<lambda>(k, b). (k, \<not> b)) (view s) ! i"
    using i len w by (simp add: view_def loaded_def cnt finish_length)
qed

lemma accepted_root_ok:
  assumes "plain_names rt" "validate_configuration lib (Some rt)"
  shows "root_ok lib (xchildren rt)"
  using accepted_document[OF assms(2)] plain_children[OF assms(1)] by (auto simp: root_ok_def)

lemma applied_view:
  assumes "wf_sup s" "plain_names rt" "validate_configuration lib (Some rt)"
  shows "view (root_loop lib choice (xchildren rt) v (reset_for_reload s)) =
    map (\<lambda>m. (module_name m, module_name m \<in> Some ` set (doc_names lib rt))) (loaded s) @
    map (\<lambda>k. (Some k, True)) (filter (\<lambda>k. Some k \<notin> module_name ` set (loaded s)) (doc_names lib rt))"
proof -
  have "view (root_loop lib choice (xchildren rt) v (reset_for_reload s)) = fold mark (doc_names lib rt) (view (reset_for_reload s))"
    unfolding doc_names_def
    using not_removed.root_loop_view[OF reset_not_removed[OF assms(1)] accepted_root_ok[OF assms(2,3)]]
      accepted_document(1)[OF assms(3)]
    by (auto simp: doc_names_def reset_view)
  then show ?thesis using accepted_document(1)[OF assms(3)] by (simp add: fold_mark reset_view comp_def image_image)
qed

lemma reload_names:
  assumes "wf_sup s" "plain_names rt" "validate_configuration lib (Some rt)"
  shows "map (\<lambda>m. (module_name m, remove_module m)) (loaded (fst (reload_document lib choice (Some rt) s))) =
    map (\<lambda>k. (k, k \<notin> Some ` set (doc_names lib rt)))
      (map module_name (loaded s) @ filter (\<lambda>k. k \<notin> module_name ` set (loaded s)) (map Some (doc_names lib rt)))"
proof -
  let ?s = "root_loop lib choice (xchildren rt) (basic_start False False) (reset_for_reload s)"
  have inv: "sup_inv (\<lambda>m. \<not> remove_module m) ?s"
    by (rule not_removed.sup_inv_root_loop[OF reset_not_removed[OF assms(1)]])
  then have len: "length (view ?s) = loaded_modules_cnt ?s" by (simp add: view_def sup_inv_def)
  note v = applied_view[OF assms, of choice "basic_start False False"]
  have "snd (view ?s ! i)" if "loaded_modules_cnt s \<le> i" "i < loaded_modules_cnt ?s" for i
  proof -
    have "i < length (view ?s)" "\<not> i < length (loaded s)" using that len assms(1) by simp_all
    then show ?thesis unfolding v by (simp add: nth_append)
  qed
  then have "map (\<lambda>m. (module_name m, remove_module m)) (loaded (finish_reload choice (loaded_modules_cnt s) ?s)) =
      map (\<lambda>(k, b). (k, \<not> b)) (view ?s)" by (intro finish_removed[OF inv]) blast
  then show ?thesis unfolding v using assms(3)
    by (auto simp: reload_document_def apply_configuration_def filter_map comp_def)
qed

text \<open>
  C2. What a reload of an accepted document leaves loaded: the modules that were loaded, in their
  order, followed by the modules the document introduces, in its order; and exactly the modules the
  document does not name are marked for removal.
\<close>

theorem reload_result:
  assumes "wf_sup s" "plain_names rt" "validate_configuration lib (Some rt)"
  shows "map (\<lambda>m. (module_name m, remove_module m)) (loaded (fst (reload_document lib choice (Some rt) s))) =
    map (\<lambda>k. (k, k \<notin> Some ` set (doc_names lib rt)))
      (map module_name (loaded s) @ filter (\<lambda>k. k \<notin> module_name ` set (loaded s)) (map Some (doc_names lib rt)))"
  by (rule reload_names[OF assms])

text \<open>An example: a document with the modules \<open>b\<close> and \<open>c\<close>; values are the texts of the first child.\<close>

definition doc_lib :: libxml where
  "doc_lib = \<lparr>node_list_string = (\<lambda>ns. case ns of [] \<Rightarrow> None | n # _ \<Rightarrow> Some (xcontent n)),
     get_prop = (\<lambda>n. map_of (xprops n))\<rparr>"

definition text_elem :: "string \<Rightarrow> string \<Rightarrow> xml_node" where
  "text_elem nm t = Xml_Node XML_ELEMENT_NODE nm [Xml_Node XML_TEXT_NODE ''text'' [] [] t] [] []"

definition module_elem :: "string \<Rightarrow> xml_node" where
  "module_elem nm = Xml_Node XML_ELEMENT_NODE ''module'' [text_elem ''name'' nm, text_elem ''path'' ''/bin'', text_elem ''enabled'' ''true''] [] []"

definition sample_doc :: xml_node where
  "sample_doc = Xml_Node XML_ELEMENT_NODE ''nemea-supervisor''
     [Xml_Node XML_ELEMENT_NODE ''modules''
        [text_elem ''name'' ''p'', text_elem ''enabled'' ''true'', module_elem ''b'', module_elem ''c''] [] []] [] []"

lemma sample_doc_ok: "plain_names sample_doc" "validate_configuration doc_lib (Some sample_doc)"
  "doc_names doc_lib sample_doc = [''b'', ''c'']"
  by (simp_all add: sample_doc_def module_elem_def text_elem_def doc_lib_def plain_node_def validate_configuration_def is_elem_def
      reload_check_modules_element_def modules_rules_def reload_check_module_element_def module_rules_def unique_rule_def value_rule_def
      bool_value_def node_value_def check_trapinterfaces_def doc_names_def module_elems_def elem_name_def elem_values_def)

theorem reload_result_witness:
  "map (\<lambda>m. (module_name m, remove_module m))
     (loaded (fst (reload_document doc_lib RELOAD_DEFAULT_CONFIG_FILE (Some sample_doc) two_removed))) =
   [(Some ''a'', True), (Some ''b'', False), (Some ''c'', False)]"
  using reload_result[OF wf_two_removed sample_doc_ok(1,2), of RELOAD_DEFAULT_CONFIG_FILE]
  by (simp add: sample_doc_ok(3) two_removed_def loaded_def)

subsection \<open>A reload is all or nothing\<close>

lemma reload_service_inv:
  assumes "service_inv tr s" "choice \<noteq> RELOAD_INIT_LOAD_CONFIG"
  shows "service_inv tr (fst (fst (reload_configuration lib choice backup parse generated gener_file node s)))"
  using assms at_run.sup_inv_reload_configuration[of tr s] at_callback.sup_inv_reload_configuration[of tr s]
  unfolding service_inv_run by (cases choice) auto

text \<open>
  C8. A reload at run time, whatever document it is given, keeps the invariant of the whole state; when it
  returns \<open>FALSE\<close>, the state is unchanged.
\<close>

theorem reload_configuration_invariant:
  assumes "service_inv tr s" "choice \<noteq> RELOAD_INIT_LOAD_CONFIG"
  shows "service_inv tr (fst (fst (reload_configuration lib choice backup parse generated gener_file node s))) \<and>
    (\<not> snd (fst (reload_configuration lib choice backup parse generated gener_file node s)) \<longrightarrow>
       fst (fst (reload_configuration lib choice backup parse generated gener_file node s)) = s)"
  using reload_service_inv[OF assms]
  by (auto simp: reload_configuration_def reload_document_def case_prod_unfold Let_def split: option.split)

theorem reload_configuration_invariant_witness:
  "service_inv [] (fst (fst (reload_configuration doc_lib RELOAD_DEFAULT_CONFIG_FILE None (\<lambda>f. Some (Some sample_doc)) True ''c'' None two_removed))) \<and>
   fst (fst (reload_configuration doc_lib RELOAD_CALLBACK_ROOT_ELEM None (\<lambda>f. None) True ''c'' (Some (text_elem ''x'' ''y'')) two_removed)) = two_removed"
  using reload_configuration_invariant[OF service_inv_two_removed, of RELOAD_DEFAULT_CONFIG_FILE doc_lib None "\<lambda>f. Some (Some sample_doc)" True "''c''" None]
    reload_configuration_invariant[OF service_inv_two_removed, of RELOAD_CALLBACK_ROOT_ELEM doc_lib None "\<lambda>f. None" True "''c''" "Some (text_elem ''x'' ''y'')"]
  by (auto simp: reload_configuration_def load_document_def reload_document_def validate_configuration_def text_elem_def)

subsection \<open>The restart limit of a new module\<close>

lemma without_ifces_restarts:
  "without_ifces m' = without_ifces m \<Longrightarrow> module_max_restarts_per_minute m' = module_max_restarts_per_minute m"
  by (cases m; cases m'; simp add: without_ifces_def)

lemma child_restarts:
  assumes "wf_ifces (fst mi)" "xname n \<noteq> ''module-restarts''"
  shows "module_max_restarts_per_minute (fst (process_module_child lib new n mi)) = module_max_restarts_per_minute (fst mi)"
proof -
  have "module_max_restarts_per_minute (fst (reload_trapinterfaces lib nw ch m ins)) = module_max_restarts_per_minute m"
    if "wf_ifces m" for nw ch m ins using trapinterfaces_shape[OF that] by (intro without_ifces_restarts) blast
  moreover have "module_max_restarts_per_minute (reload_resolve_module_enabled nw key m) = module_max_restarts_per_minute m" for nw key m
    by (simp add: reload_resolve_module_enabled_def Let_def split: option.split)
  ultimately show ?thesis
    using assms by (simp add: process_module_child_def case_prod_unfold Let_def split: option.split)
qed

lemma children_restarts:
  "wf_ifces (fst mi) \<Longrightarrow> named_values lib ''module-restarts'' ns = [] \<Longrightarrow>
     module_max_restarts_per_minute (fst (process_module_children lib new ns mi)) = module_max_restarts_per_minute (fst mi)"
  unfolding process_module_children_def
proof (induction ns arbitrary: mi)
  case (Cons n ns)
  then show ?case using child_restarts[of mi n lib new] child_wf[of mi lib new n] by (simp split: if_splits)
qed simp

lemma applied_restarts:
  assumes "wf_ifces (running_modules s ! idx)" "idx < length (running_modules s)" "named_values lib ''module-restarts'' (xchildren e) = []"
  shows "module_max_restarts_per_minute (running_modules (apply_module lib choice pr e idx v s) ! idx) =
    module_max_restarts_per_minute (running_modules s ! idx)"
proof -
  let ?m0 = "restore_pid lib choice e ((running_modules s ! idx)\<lparr>module_checked_by_reload := True\<rparr>)"
  have m0: "wf_ifces ?m0" "module_max_restarts_per_minute ?m0 = module_max_restarts_per_minute (running_modules s ! idx)"
    using assms(1) by (simp_all add: restore_pid_def wf_ifces_def split: option.split)
  have "module_max_restarts_per_minute (reload_count_module_interfaces m) = module_max_restarts_per_minute m" for m
    using count_ifces_shape by (intro without_ifces_restarts) blast
  then show ?thesis
    using assms(2) m0 children_restarts[of "(?m0, module_ifc_insert v)" lib "xchildren e" "new_module v"] assms(3)
    by (auto simp: apply_module_def case_prod_unfold Let_def set_module_def split: option.split)
qed

text \<open>
  C40. The restart limit of a module that a document introduces without a \<open>module-restarts\<close> element: -1, which
  stands for the limit of the whole supervisor, when the module takes a slot that existed before the
  reload; but 0 when the array had to be grown for it, because the flags are reset before the new
  slots exist.
\<close>

theorem new_module_restart_limit:
  assumes "wf_sup s0" "s = reset_for_reload s0" "xname e = ''module''" "usable lib (xchildren e) key"
    "find_loaded_module s key = None" "named_values lib ''module-restarts'' (xchildren e) = []"
  shows "module_max_restarts_per_minute (running_modules (fst (modules_loop lib choice pr [e] v s)) ! loaded_modules_cnt s) =
    (if loaded_modules_cnt s = running_modules_array_size s then 0 else -1)"
proof -
  define s1 where "s1 = check_running_modules_allocated_memory s"
  have inv: "sup_inv (\<lambda>m. \<not> remove_module m) s" using reset_not_removed assms(1,2) by simp
  then have w: "wf_sup s" by (simp add: sup_inv_def)
  note s1 = not_removed.sup_inv_check[OF inv, folded s1_def] and l1 = loaded_check[OF w, folded s1_def]
  have find1: "find_loaded_module s1 key = None" using assms(5) l1(2) by (simp add: find_loaded_module_def)
  then obtain s2 v2 idx where r: "reload_find_and_check_module_basic_elements lib s1 [e] (basic_start (new_module v) (module_ifc_insert v))
        = Some ((s2, v2), [e])" and f: "found_ok lib s1 s2 v2 e idx key"
    using find_basic_usable[OF assms(4), where s = s1 and es = "[]" and nw = "new_module v" and ins = "module_ifc_insert v"]
    by (auto simp: not_yet_seen_def)
  have idx: "idx = loaded_modules_cnt s" "s2 = s1" using f find1 l1(1) by (auto simp: found_ok_def)
  have lt: "idx < running_modules_array_size s1" "idx < length (running_modules s1)"
    using s1 l1(1) idx by (simp_all add: sup_inv_def wf_sup_def)
  have "modules_loop lib choice pr [e] v s = (apply_module lib choice pr e idx v2 s1, v2)"
    using assms(3) r f idx(2) by (simp add: s1_def[symmetric] Let_def found_ok_def)
  then have "module_max_restarts_per_minute (running_modules (fst (modules_loop lib choice pr [e] v s)) ! idx) =
      module_max_restarts_per_minute (running_modules s1 ! idx)"
    using applied_restarts[OF sup_inv_slot(1)[OF s1(1) lt(1)] lt(2) assms(6)] by simp
  also have "\<dots> = (if loaded_modules_cnt s = running_modules_array_size s then 0 else -1)"
    using w lt idx(1) by (auto simp: s1_def check_running_modules_allocated_memory_def Let_def wf_sup_def nth_append fresh_module_def
        zero_module_def assms(2) reset_for_reload_def reset_module_def size_ok_def)
  finally show ?thesis using idx(1) by simp
qed

definition full_sup :: sup where
  "full_sup = two_removed\<lparr>running_modules := take 2 (running_modules two_removed), running_modules_array_size := 2\<rparr>"

theorem new_module_restart_limit_witness:
  "module_max_restarts_per_minute (running_modules (fst (modules_loop doc_lib RELOAD_DEFAULT_CONFIG_FILE None [module_elem ''c'']
     (basic_start False False) (reset_for_reload full_sup))) ! 2) = 0 \<and>
   module_max_restarts_per_minute (running_modules (fst (modules_loop doc_lib RELOAD_DEFAULT_CONFIG_FILE None [module_elem ''c'']
     (basic_start False False) (reset_for_reload two_removed))) ! 2) = -1"
proof -
  have w: "wf_sup full_sup"
    using wf_two_removed by (simp add: full_sup_def two_removed_def wf_sup_def loaded_def size_ok_def)
  have u: "usable doc_lib (xchildren (module_elem ''c'')) ''c''" "named_values doc_lib ''module-restarts'' (xchildren (module_elem ''c'')) = []"
    "xname (module_elem ''c'') = ''module''"
    by (simp_all add: usable_def module_elem_def text_elem_def doc_lib_def node_value_def)
  have f: "find_loaded_module (reset_for_reload full_sup) ''c'' = None" "find_loaded_module (reset_for_reload two_removed) ''c'' = None"
    by (simp_all add: find_loaded_module_def loaded_def reset_for_reload_def full_sup_def two_removed_def fresh_module_def zero_module_def
        reset_module_def)
  show ?thesis
    using new_module_restart_limit[OF w refl u(3,1) f(1) u(2), of RELOAD_DEFAULT_CONFIG_FILE None "basic_start False False"]
      new_module_restart_limit[OF wf_two_removed refl u(3,1) f(2) u(2), of RELOAD_DEFAULT_CONFIG_FILE None "basic_start False False"]
    by (simp add: reset_for_reload_def full_sup_def two_removed_def)
qed

end
