(* ===== verification/Lifecycle.thy ===== *)
theory Lifecycle
  imports Reload_Doc
begin

section \<open>Start, menu and termination\<close>

text \<open>
  The life of the program around the service thread: \<open>parse_prog_args\<close>, the part of
  \<open>supervisor_initialization\<close>, \<open>supervisor_termination\<close> and \<open>sup_sig_handler\<close> that concerns the modules
  (\<^verbatim>\<open>supervisor.c\<close>, lines 3444-3560, 3569-3599, 3786-3940) and \<open>interactive_mode\<close> of \<^verbatim>\<open>supervisor_main.c\<close>.
  Proved: the state the start leaves satisfies the invariant of the service thread whatever the startup
  document and the backup file hold, every choice of the menu keeps it, which command lines are accepted,
  and that joining the service thread returns.
\<close>

subsection \<open>Program arguments\<close>

text \<open>
  \<open>TRAP_GETOPT\<close> is a macro of libtrap around \<open>getopt_long\<close>: the options it returns are an argument, a list of
  characters with \<open>optarg\<close>.
\<close>

record prog_args =
  templ_config_file :: "string option"
  config_files_path :: "string option"
  logs_path :: "string option"
  socket_path :: "string option"
  daemon_flag :: bool

datatype mode_code = DAEMON_MODE_CODE | INTERACTIVE_MODE_CODE

fun parse_options :: "(char \<times> string) list \<Rightarrow> prog_args \<Rightarrow> prog_args option" where
  "parse_options [] a = Some a"
| "parse_options ((c, optarg) # os) a =
     (if c = CHR '':'' \<or> c = CHR ''?'' \<or> c = CHR ''h'' then None
      else if c = CHR ''s'' then parse_options os (a\<lparr>socket_path := Some optarg\<rparr>)
      else if c = CHR ''T'' then parse_options os (a\<lparr>templ_config_file := Some optarg\<rparr>)
      else if c = CHR ''C'' then parse_options os (a\<lparr>config_files_path := Some optarg\<rparr>)
      else if c = CHR ''d'' then parse_options os (a\<lparr>daemon_flag := True\<rparr>)
      else if c = CHR ''L'' then parse_options os (a\<lparr>logs_path := Some optarg\<rparr>)
      else parse_options os a)"

fun strstr_found :: "string \<Rightarrow> string \<Rightarrow> bool" where
  "strstr_found [] needle \<longleftrightarrow> needle = []"
| "strstr_found (c # cs) needle \<longleftrightarrow> take (length needle) (c # cs) = needle \<or> strstr_found cs needle"

text \<open>\<open>default_socket\<close> is \<open>DEFAULT_DAEMON_SERVER_SOCKET\<close>, set when the program is configured.\<close>

definition parse_prog_args :: "string \<Rightarrow> (char \<times> string) list \<Rightarrow> prog_args \<Rightarrow> (prog_args \<times> mode_code) option" where
  "parse_prog_args default_socket os a0 =
     (case parse_options os a0 of
        None \<Rightarrow> None
      | Some a \<Rightarrow>
          (case templ_config_file a of
             None \<Rightarrow> None
           | Some t \<Rightarrow>
               if \<not> strstr_found t ''.xml'' then None
               else if logs_path a = None then None
               else (let a1 = (if socket_path a = None then a\<lparr>socket_path := Some default_socket\<rparr> else a)
                     in Some (a1, if daemon_flag a1 then DAEMON_MODE_CODE else INTERACTIVE_MODE_CODE))))"

subsection \<open>Start\<close>

text \<open>The global variables before \<open>main\<close>.\<close>

definition initial_globals :: sup where
  "initial_globals = \<lparr>running_modules = [], running_modules_array_size = 0, loaded_modules_cnt = 0, profiles = [],
     loaded_profile_cnt = 0, module_restarts_num_config = DEFAULT_MODULE_RESTARTS_NUM, service_thread_continue = False,
     service_stop_all_modules = False, last_total_cpu = 0\<rparr>"

definition start_service_thread :: "sup \<Rightarrow> sup" where
  "start_service_thread s = s\<lparr>service_stop_all_modules := False, service_thread_continue := True\<rparr>"

text \<open>\<open>thread_ok\<close>: \<open>pthread_create\<close> returned 0; the remaining arguments are those of \<open>reload_configuration\<close>.\<close>

definition supervisor_initialization ::
  "libxml \<Rightarrow> bool \<Rightarrow> string option \<Rightarrow> (string \<Rightarrow> xml_node option option) \<Rightarrow> bool \<Rightarrow> string \<Rightarrow> bool \<Rightarrow> sup
     \<Rightarrow> (sup \<times> int) \<times> os_event list" where
  "supervisor_initialization lib netconf_flag backup parse generated gener_file thread_ok s =
     (let s1 = check_running_modules_allocated_memory (s\<lparr>running_modules_array_size := 0\<rparr>);
          (r, es) = (if \<not> netconf_flag
                     then reload_configuration lib RELOAD_INIT_LOAD_CONFIG backup parse generated gener_file None s1
                     else ((s1, True), []))
      in ((start_service_thread (fst r), if thread_ok then 0 else -1), es))"

subsection \<open>The menu\<close>

text \<open>
  One choice of \<open>interactive_mode\<close>: \<open>input\<close> is the line typed at the prompt of the operation, \<open>kill0\<close> the
  answers of \<open>kill (pid, 0)\<close> for option 8, which counts the running modules. Options 4, 5, 6 and 9 only print.
\<close>

definition interactive_choice ::
  "(sup \<Rightarrow> (sup \<times> bool) \<times> os_event list) \<Rightarrow> (int \<Rightarrow> kill_result) \<Rightarrow> int \<Rightarrow> string option \<Rightarrow> sup
     \<Rightarrow> (sup \<times> os_event list) c_ret" where
  "interactive_choice reload kill0 choice input s =
     (let quiet = (\<lambda>r. case r of Undefined \<Rightarrow> Undefined | Ret s' \<Rightarrow> Ret (s', []))
      in if choice = 1 then quiet (interactive_set_enabled input s)
         else if choice = 2 then quiet (interactive_set_disabled input s)
         else if choice = 3 then quiet (interactive_restart_module input s)
         else if choice = 7 then Ret (fst (fst (reload s)), snd (reload s))
         else if choice = 8 then Ret (fst (service_check_modules_status kill0 s))
         else Ret (s, []))"

subsection \<open>Termination\<close>

text \<open>Up to \<open>pthread_join\<close>: the request to the service thread.\<close>

definition request_termination :: "bool \<Rightarrow> sup \<Rightarrow> sup" where
  "request_termination stop_all_modules s =
     (let s1 = (if stop_all_modules then (interactive_stop_configuration s)\<lparr>service_stop_all_modules := True\<rparr>
                else s\<lparr>service_stop_all_modules := False\<rparr>)
      in s1\<lparr>service_thread_continue := False\<rparr>)"

text \<open>
  \<open>pthread_join\<close>: the service thread runs its periods, one for each element of \<open>envs\<close>, until it leaves its
  loop. \<open>Hangs\<close>: it has not left it within these periods, or a period does not end.
\<close>

fun join_service_thread ::
  "('j, 'z) jansson_scheme \<Rightarrow> (u32 \<Rightarrow> bool) \<Rightarrow> (string \<Rightarrow> string) \<Rightarrow> period_env list \<Rightarrow> u32 \<Rightarrow> sup
     \<Rightarrow> (sup \<times> os_event list) option" where
  "join_service_thread J calloc_ok sock_path [] buffer_size s = None"
| "join_service_thread J calloc_ok sock_path (env # envs) buffer_size s =
     (case service_period J calloc_ok sock_path env buffer_size s of
        Thread_Exit r \<Rightarrow> Some r
      | Hangs \<Rightarrow> None
      | Period_Done ((s', es), bs) \<Rightarrow>
          (case join_service_thread J calloc_ok sock_path envs bs s' of
             None \<Rightarrow> None
           | Some (s'', es') \<Rightarrow> Some (s'', es @ es')))"

text \<open>Whether a backup is written after the thread has ended.\<close>

definition writes_backup :: "bool \<Rightarrow> sup \<Rightarrow> bool" where
  "writes_backup generate_backup s \<longleftrightarrow> generate_backup \<or> list_ex module_status (loaded s)"

definition free_all_modules :: "sup \<Rightarrow> sup" where
  "free_all_modules s = s\<lparr>running_modules := map free_module_on_index (running_modules s)\<rparr>"

text \<open>The signal handler: the arguments of \<open>supervisor_termination\<close>, \<open>None\<close> when it returns.\<close>

datatype sup_signal = SIGPIPE | SIGTERM | SIGINT | SIGQUIT | SIGSEGV

fun sup_sig_handler :: "sup_signal \<Rightarrow> (bool \<times> bool) option" where
  "sup_sig_handler SIGPIPE = None"
| "sup_sig_handler SIGTERM = Some (True, False)"
| "sup_sig_handler SIGINT = Some (False, True)"
| "sup_sig_handler SIGQUIT = Some (False, True)"
| "sup_sig_handler SIGSEGV = Some (False, True)"

subsection \<open>Which command lines are accepted\<close>

lemma strstr_found_iff: "strstr_found t needle \<longleftrightarrow> (\<exists>ps ss. t = ps @ needle @ ss)"
proof (induction t)
  case (Cons c cs)
  have "take (length needle) (c # cs) = needle \<longleftrightarrow> (\<exists>ss. c # cs = needle @ ss)"
    by (metis append_eq_conv_conj)
  moreover have "(\<exists>ps ss. c # cs = ps @ needle @ ss) \<longleftrightarrow> (\<exists>ss. c # cs = needle @ ss) \<or> (\<exists>ps ss. cs = ps @ needle @ ss)"
    by (auto simp: Cons_eq_append_conv)
  ultimately show ?case using Cons by simp
qed auto

text \<open>The value of an option given several times is the last one.\<close>

definition last_arg :: "char \<Rightarrow> (char \<times> string) list \<Rightarrow> string option" where
  "last_arg c os = map_of (rev os) c"

definition bad_option :: "(char \<times> string) list \<Rightarrow> bool" where
  "bad_option os \<longleftrightarrow> fst ` set os \<inter> {CHR '':'', CHR ''?'', CHR ''h''} \<noteq> {}"

definition or_else :: "'a option \<Rightarrow> 'a option \<Rightarrow> 'a option" where
  "or_else x y = (case x of None \<Rightarrow> y | Some v \<Rightarrow> Some v)"

lemma or_else_simps [simp]: "or_else None y = y" "or_else (Some v) y = Some v" "or_else x None = x"
  "or_else (or_else x y) z = or_else x (or_else y z)"
  by (auto simp: or_else_def split: option.split)

lemma last_arg_Cons: "last_arg c ((d, v) # os) = or_else (last_arg c os) (if d = c then Some v else None)"
  by (auto simp: last_arg_def or_else_def map_add_def map_of_append split: option.split)

lemma parse_options_result:
  "parse_options os a = (if bad_option os then None else
     Some \<lparr>templ_config_file = or_else (last_arg CHR ''T'' os) (templ_config_file a),
           config_files_path = or_else (last_arg CHR ''C'' os) (config_files_path a),
           logs_path = or_else (last_arg CHR ''L'' os) (logs_path a),
           socket_path = or_else (last_arg CHR ''s'' os) (socket_path a),
           daemon_flag = (CHR ''d'' \<in> fst ` set os \<or> daemon_flag a)\<rparr>)"
proof (induction os a rule: parse_options.induct)
  case (2 c optarg os a)
  consider "c \<in> {CHR '':'', CHR ''?'', CHR ''h''}" | "c = CHR ''s''" | "c = CHR ''T''" | "c = CHR ''C''" | "c = CHR ''d''"
    | "c = CHR ''L''" | "c \<notin> {CHR '':'', CHR ''?'', CHR ''h'', CHR ''s'', CHR ''T'', CHR ''C'', CHR ''d'', CHR ''L''}" by auto
  then show ?case
  proof cases
    case 7
    then have "parse_options ((c, optarg) # os) a = parse_options os a" by simp
    with 2 7 show ?thesis by (auto simp: last_arg_Cons bad_option_def)
  qed (use 2 in \<open>simp_all add: last_arg_Cons bad_option_def\<close>)
qed (simp add: last_arg_def bad_option_def)

definition no_args :: prog_args where
  "no_args = \<lparr>templ_config_file = None, config_files_path = None, logs_path = None, socket_path = None, daemon_flag = False\<rparr>"

text \<open>
  A command line is accepted exactly when it has no unknown option, no missing argument and no help
  option, names a configuration template that contains \<open>.xml\<close> and a directory for the logs; the last value
  of a repeated option counts, and the mode is decided by the option \<open>d\<close> alone.
\<close>

theorem parse_prog_args_accepts:
  "parse_prog_args default_socket os no_args =
     (if \<not> bad_option os \<and> (\<exists>ps ss. last_arg CHR ''T'' os = Some (ps @ ''.xml'' @ ss)) \<and> last_arg CHR ''L'' os \<noteq> None
      then Some (\<lparr>templ_config_file = last_arg CHR ''T'' os, config_files_path = last_arg CHR ''C'' os,
                  logs_path = last_arg CHR ''L'' os,
                  socket_path = or_else (last_arg CHR ''s'' os) (Some default_socket),
                  daemon_flag = (CHR ''d'' \<in> fst ` set os)\<rparr>,
                if CHR ''d'' \<in> fst ` set os then DAEMON_MODE_CODE else INTERACTIVE_MODE_CODE)
      else None)"
  by (auto simp: parse_prog_args_def parse_options_result no_args_def strstr_found_iff or_else_def Let_def split: option.splits)

subsection \<open>The invariant at the start and in the menu\<close>

lemma start_ok_fresh: "start_ok fresh_module"
  by (simp add: start_ok_def fresh_module_def zero_module_def mod_ok_defs stat_cells_def)

lemma start_run: "sup_inv start_ok s \<Longrightarrow> service_inv tr s"
  unfolding service_inv_run by (auto simp: sup_inv_def start_ok_def run_ok_def sent_inv_def)

lemma service_inv_flags: "service_inv tr s \<Longrightarrow> service_inv tr (s\<lparr>service_stop_all_modules := a, service_thread_continue := b\<rparr>)"
  by (simp add: service_inv_def wf_sup_def all_mod_ok_def loaded_def)

lemma service_inv_initial:
  "service_inv tr (fst (fst (supervisor_initialization lib netconf_flag backup parse generated gener_file thread_ok initial_globals)))"
proof -
  let ?s1 = "check_running_modules_allocated_memory (initial_globals\<lparr>running_modules_array_size := 0\<rparr>)"
  have "sup_inv start_ok initial_globals"
    by (simp add: sup_inv_def wf_sup_def initial_globals_def loaded_def size_ok_def)
  moreover have "initial_globals\<lparr>running_modules_array_size := 0\<rparr> = initial_globals" by (simp add: initial_globals_def)
  ultimately have s1: "sup_inv start_ok ?s1" using at_start.sup_inv_check by simp
  have "sup_inv start_ok (fst (fst (reload_configuration lib RELOAD_INIT_LOAD_CONFIG backup parse generated gener_file None ?s1)))"
    by (rule at_start.sup_inv_reload_configuration[OF s1])
  from service_inv_flags[OF start_run[OF this]] service_inv_flags[OF start_run[OF s1]] show ?thesis
    by (simp add: supervisor_initialization_def start_service_thread_def case_prod_unfold Let_def)
qed

lemma no_events: "no_kill []"
  by (simp add: no_kill_def)

lemma choice_step_ok:
  assumes "service_inv tr s" "\<And>s. service_inv tr s \<Longrightarrow> step_ok tr (fst (fst (reload s)), snd (reload s))"
    and "interactive_choice reload kill0 choice input s = Ret r"
  shows "step_ok tr r"
proof -
  consider "\<exists>s'. r = (s', []) \<and> service_inv tr s'" | "choice = 7" "r = (fst (fst (reload s)), snd (reload s))"
    | "choice = 8" "r = fst (service_check_modules_status kill0 s)"
    using assms(1,3) by (auto simp: interactive_choice_def Let_def split: c_ret.splits if_splits intro: inv_intros)
  then show ?thesis using assms by cases (auto intro: inv_intros step_ok_start)
qed

subsection \<open>Joining the service thread\<close>

text \<open>A period does not touch the two flags through which the thread is told to end.\<close>

definition same_flags :: "sup \<Rightarrow> sup \<Rightarrow> bool" where
  "same_flags s s' \<longleftrightarrow> service_thread_continue s' = service_thread_continue s \<and>
     service_stop_all_modules s' = service_stop_all_modules s"

lemma same_flags_refl [simp]: "same_flags s s" and same_flags_trans: "same_flags a b \<Longrightarrow> same_flags b c \<Longrightarrow> same_flags a c"
  by (simp_all add: same_flags_def)

lemma same_flags_bind: "same_flags s (fst r) \<Longrightarrow> (\<And>t. same_flags t (fst (f t))) \<Longrightarrow> same_flags s (fst (bind_ev r f))"
  unfolding bind_ev_simps by (rule same_flags_trans)

lemma same_flags_sweep: "same_flags s (fst (sweep body s))"
  by (simp add: sweep_def same_flags_def case_prod_unfold Let_def)

lemma same_flags_serve: "same_flags s (fst (serve_loop y s))"
proof (rule serve_loop_keeps[where P = "same_flags s"])
  show "same_flags s (fst (serve_module y t))" if "same_flags s t" for y t
    using that by (auto simp: serve_module_def set_module_def free_module_and_shift_array_def same_flags_def case_prod_unfold Let_def)
qed simp

lemmas sweep_loops = service_check_modules_status_def service_update_modules_status_def service_stop_modules_sigint_def
  service_clean_after_children_def service_stop_modules_sigkill_def service_check_connections_def

lemma same_flags_control: "same_flags s (fst (control_phase sock_path env s))"
  unfolding control_phase_def sweep_loops by (simp add: same_flags_bind same_flags_sweep same_flags_serve)

lemma same_flags_resources: "same_flags s (update_modules_resources_usage proc s)"
  using same_flags_sweep by (auto simp: update_modules_resources_usage_def same_flags_def Let_def split: prod.split bool.split)

lemma same_flags_statistics:
  assumes "statistics_phase J calloc_ok sock_path env buffer_size s = Some ((s', es), bs)"
  shows "same_flags s s'"
proof -
  define s1 where "s1 = fst (bind_ev (bind_ev (fst (service_check_modules_status (kill0_third env) s))
                        (\<lambda>s. (update_modules_resources_usage (proc_files env) s, [])))
                        (service_check_connections sock_path (conn_answers env)))"
  have s1: "same_flags s s1"
    unfolding s1_def sweep_loops by (simp add: same_flags_bind same_flags_sweep same_flags_resources)
  obtain s2 es2 where s2: "request_phase env s1 = Some (s2, es2)" "same_flags s1 s2"
    using assms by (auto simp: statistics_phase_def s1_def request_phase_def same_flags_def case_prod_unfold Let_def
        split: option.splits)
  let ?s3 = "fst (fst (service_check_modules_status (kill0_fourth env) s2))"
  have "s' = fst (fst (reply_phase J calloc_ok env buffer_size ?s3))"
    using assms s2(1) by (auto simp: statistics_phase_def s1_def[symmetric] case_prod_unfold Let_def)
  moreover have "same_flags t (fst (fst (reply_phase J calloc_ok env buffer_size t)))" for t
    by (simp add: reply_phase_def same_flags_def case_prod_unfold Let_def)
  moreover have "same_flags s2 ?s3" by (simp add: sweep_loops same_flags_sweep)
  ultimately show ?thesis using s1 s2(2) by (blast intro: same_flags_trans)
qed

lemma same_flags_period:
  assumes "service_period J calloc_ok sock_path env buffer_size s = Period_Done ((s', es), bs)"
  shows "same_flags s s'"
proof -
  let ?s2 = "fst (bind_ev (fst (service_check_modules_status (kill0_first env) s)) (control_phase sock_path env))"
  have "same_flags s ?s2" unfolding sweep_loops by (simp add: same_flags_bind same_flags_sweep same_flags_control)
  moreover obtain es3 where "statistics_phase J calloc_ok sock_path env buffer_size ?s2 = Some ((s', es3), bs)"
    using assms by (auto simp: service_period_def case_prod_unfold Let_def split: if_splits option.splits)
  ultimately show ?thesis using same_flags_statistics same_flags_trans by blast
qed

text \<open>A period in which no process is alive ends the thread once it has been asked to.\<close>

lemma period_all_dead:
  assumes "\<not> service_thread_continue s" "\<forall>p. kill0_first env p = Kill_ESRCH"
  shows "\<exists>r. service_period J calloc_ok sock_path env buffer_size s = Thread_Exit r"
proof -
  have "snd (service_check_modules_status (kill0_first env) s) = 0"
    using assms(2) by (simp add: service_check_modules_status_def check_status_counts_def filter_empty_conv)
  moreover have "\<not> service_thread_continue (fst (fst (service_check_modules_status (kill0_first env) s)))"
    using assms(1) same_flags_sweep by (simp add: service_check_modules_status_def same_flags_def)
  ultimately show ?thesis by (simp add: service_period_def thread_exits_def case_prod_unfold Let_def)
qed

lemma request_flags: "\<not> service_thread_continue (request_termination stop_all s)"
  "service_stop_all_modules (request_termination stop_all s) = stop_all"
  by (simp_all add: request_termination_def Let_def)

lemma join_all_dead:
  "\<not> service_thread_continue s \<Longrightarrow> \<forall>env \<in> set envs. \<forall>x. send_progress (send_answers env x) \<Longrightarrow>
     \<exists>env \<in> set envs. \<forall>p. kill0_first env p = Kill_ESRCH \<Longrightarrow> join_service_thread J calloc_ok sock_path envs buffer_size s \<noteq> None"
proof (induction envs arbitrary: buffer_size s)
  case (Cons env envs)
  show ?case
  proof (cases "service_period J calloc_ok sock_path env buffer_size s")
    case (Period_Done r)
    obtain s' es bs where r: "r = ((s', es), bs)" by (metis prod.exhaust)
    have "\<not> service_thread_continue s'" using same_flags_period[OF Period_Done[unfolded r]] Cons.prems(1) by (simp add: same_flags_def)
    moreover have "\<exists>env \<in> set envs. \<forall>p. kill0_first env p = Kill_ESRCH"
      using Cons.prems(1,3) period_all_dead[of s env J calloc_ok sock_path buffer_size] Period_Done by auto
    ultimately have "join_service_thread J calloc_ok sock_path envs bs s' \<noteq> None" using Cons by simp
    then show ?thesis using Period_Done r by (auto split: option.split)
  next
    case Hangs
    with period_not_hangs[of env J calloc_ok sock_path buffer_size s] Cons.prems(2) show ?thesis by simp
  qed simp
qed simp

lemma join_let_run:
  assumes "\<not> service_thread_continue s" "\<not> service_stop_all_modules s"
  shows "\<exists>r. service_period J calloc_ok sock_path env buffer_size s = Thread_Exit r"
  using assms same_flags_sweep[of s]
  by (simp add: service_period_def thread_exits_def service_check_modules_status_def same_flags_def case_prod_unfold Let_def)

lemma service_inv_terminate:
  assumes "service_inv tr s"
  shows "service_inv tr (request_termination stop_all s)"
proof -
  have "service_inv tr (interactive_stop_configuration s)" using assms by (rule service_inv_interactive(2))
  from service_inv_flags[OF this] service_inv_flags[OF assms] show ?thesis by (simp add: request_termination_def Let_def)
qed



text \<open>What joining the thread leaves: the invariant, and only ordered signals on the way.\<close>

lemma join_step_ok:
  "service_inv tr s \<Longrightarrow> \<forall>env \<in> set envs. answers_ok env \<Longrightarrow>
     join_service_thread J calloc_ok sock_path envs buffer_size s = Some r \<Longrightarrow> step_ok tr r"
proof (induction envs arbitrary: buffer_size s tr r)
  case (Cons env envs)
  show ?case
  proof (cases "service_period J calloc_ok sock_path env buffer_size s")
    case (Thread_Exit r')
    with Cons.prems thread_exit_ok[OF Cons.prems(1) Thread_Exit] show ?thesis by simp
  next
    case (Period_Done p)
    obtain s' es bs where p: "p = ((s', es), bs)" by (metis prod.exhaust)
    from Cons.prems(3) Period_Done p obtain s'' es' where
      j: "join_service_thread J calloc_ok sock_path envs bs s' = Some (s'', es')" "r = (s'', es @ es')"
      by (auto split: option.splits)
    have d: "service_inv (tr @ es) s' \<and> signals_ok tr es"
      using period_done_ok[OF _ Cons.prems(1) Period_Done[unfolded p]] Cons.prems(2) by simp
    with Cons.IH[OF _ _ j(1)] Cons.prems(2) have "step_ok (tr @ es) (s'', es')" by simp
    with d j(2) show ?thesis by (simp add: step_ok_def)
  qed (use Cons.prems in simp)
qed simp

end
