(* ===== verification/Config_Gen.thy ===== *)
theory Config_Gen
  imports Lifecycle
begin

section \<open>Generating the configuration file from a template\<close>

text \<open>
  \<open>check_buffer_space\<close>, \<open>append_file_content\<close>, \<open>include_item\<close> and \<open>generate_config_file\<close> (\<^verbatim>\<open>supervisor.c\<close>,
  lines 5006-5182): the lines of the template are copied into a growing buffer, a line
  \<open><!-- include path -->\<close> is replaced by the file, or by all files of the directory, whose names end with
  \<open>.sup\<close>. The file system is a record of answers (\<open>stat\<close>, \<open>access\<close>, \<open>fopen\<close> with the size and the bytes read,
  \<open>readdir\<close>). The sizes of the buffer are \<open>unsigned int\<close>: sums are taken modulo \<open>2 ^ 32\<close>. Proved: the
  buffer represents the text written so far and is never left, and the file written is the expansion of
  the template.
\<close>

subsection \<open>Files\<close>

datatype file_mode = S_IFREG | S_IFDIR | S_IFOTHER

record file_system =
  stat_mode :: "string \<Rightarrow> file_mode option"
  access_ok :: "string \<Rightarrow> bool"
  read_file :: "string \<Rightarrow> (int \<times> string) option"
  read_dir :: "string \<Rightarrow> string list option"

definition PATH_MAX :: nat where
  "PATH_MAX = 4096"

text \<open>\<open>check_file_type_perm\<close> with the permission \<open>R_OK\<close>; \<open>True\<close> is the return value 0.\<close>

definition check_file_type_perm :: "file_system \<Rightarrow> string \<Rightarrow> file_mode \<Rightarrow> bool" where
  "check_file_type_perm fs item_path file_type \<longleftrightarrow>
     (case stat_mode fs item_path of
        None \<Rightarrow> False
      | Some md \<Rightarrow>
          if md = S_IFREG \<and> file_type = S_IFREG \<or> md = S_IFDIR \<and> file_type = S_IFDIR
          then access_ok fs item_path else False)"

subsection \<open>The buffer\<close>

record gen_buffer =
  buf_mem :: "string option"
  mem_size :: nat
  mem_used :: nat

definition INIT_BUFFER_SIZE :: nat where
  "INIT_BUFFER_SIZE = 512"

definition INC_BUFFER_SIZE :: nat where
  "INC_BUFFER_SIZE = 1024"

definition c_bind :: "'a c_ret \<Rightarrow> ('a \<Rightarrow> 'b c_ret) \<Rightarrow> 'b c_ret" where
  "c_bind r f = (case r of Undefined \<Rightarrow> Undefined | Ret v \<Rightarrow> f v)"

lemma c_bind_simps [simp]: "c_bind Undefined f = Undefined" "c_bind (Ret v) f = f v"
  by (simp_all add: c_bind_def)

definition zeros :: "nat \<Rightarrow> string" where
  "zeros n = replicate n (CHR 0x00)"

text \<open>After a wrapped size the \<open>memset\<close> of the new part starts behind the memory.\<close>

definition check_buffer_space :: "gen_buffer \<Rightarrow> nat \<Rightarrow> gen_buffer c_ret" where
  "check_buffer_space b needed_size =
     (case buf_mem b of
        None \<Rightarrow>
          (let n = (INIT_BUFFER_SIZE + needed_size) mod 2 ^ 32
           in Ret (b\<lparr>buf_mem := Some (zeros n), mem_size := n, mem_used := 0\<rparr>))
      | Some mem \<Rightarrow>
          if (mem_size b + 2 ^ 32 - mem_used b) mod 2 ^ 32 \<le> needed_size
          then (let n = (mem_size b + INC_BUFFER_SIZE + needed_size) mod 2 ^ 32
                in if n < mem_size b then Undefined
                   else Ret (b\<lparr>buf_mem := Some (mem @ zeros (n - mem_size b)), mem_size := n\<rparr>))
          else Ret b)"

text \<open>A write of bytes at \<open>mem + mem_used\<close>.\<close>

definition write_used :: "gen_buffer \<Rightarrow> string \<Rightarrow> gen_buffer c_ret" where
  "write_used b bytes =
     (case buf_mem b of
        None \<Rightarrow> Undefined
      | Some mem \<Rightarrow>
          if mem_used b + length bytes \<le> length mem
          then Ret (b\<lparr>buf_mem := Some (take (mem_used b) mem @ bytes @ drop (mem_used b + length bytes) mem)\<rparr>)
          else Undefined)"

definition add_used :: "nat \<Rightarrow> gen_buffer \<Rightarrow> gen_buffer" where
  "add_used n b = b\<lparr>mem_used := (mem_used b + n) mod 2 ^ 32\<rparr>"

text \<open>
  \<open>append_file_content\<close>; the flag is \<open>True\<close> for the return value 0. \<open>fread\<close> never returns -1, so
  \<open>mem_used\<close> grows by the size of the file even when fewer bytes were read.
\<close>

definition append_file_content :: "file_system \<Rightarrow> string \<Rightarrow> gen_buffer \<Rightarrow> (gen_buffer \<times> bool) c_ret" where
  "append_file_content fs incl_path b =
     (case read_file fs incl_path of
        None \<Rightarrow> Ret (b, False)
      | Some (fsize, bytes) \<Rightarrow>
          if fsize = -1 then Ret (b, False)
          else c_bind (check_buffer_space b (nat fsize mod 2 ^ 32))
                 (\<lambda>b1. c_bind (write_used b1 bytes) (\<lambda>b2. Ret (add_used (nat fsize) b2, True))))"

subsection \<open>Including files and directories\<close>

definition dir_entry_path :: "string \<Rightarrow> string \<Rightarrow> string" where
  "dir_entry_path item_path d_name =
     take (PATH_MAX - 1) (if last item_path = CHR ''/'' then item_path @ d_name else item_path @ ''/'' @ d_name)"

fun include_entries :: "file_system \<Rightarrow> string \<Rightarrow> string list \<Rightarrow> gen_buffer \<Rightarrow> (gen_buffer \<times> bool) c_ret" where
  "include_entries fs item_path [] b = Ret (b, True)"
| "include_entries fs item_path (d # ds) b =
     (if d = ''.'' \<or> d = ''..'' then include_entries fs item_path ds b
      else if check_file_type_perm fs (dir_entry_path item_path d) S_IFREG
      then c_bind (strsuffixis d ''.sup'')
             (\<lambda>sup. if sup
                    then c_bind (append_file_content fs (dir_entry_path item_path d) b)
                           (\<lambda>(b1, ok). if ok then include_entries fs item_path ds b1 else Ret (b1, False))
                    else include_entries fs item_path ds b)
      else include_entries fs item_path ds b)"

definition include_item :: "file_system \<Rightarrow> string \<Rightarrow> gen_buffer \<Rightarrow> (gen_buffer \<times> bool) c_ret" where
  "include_item fs item_path b =
     (if check_file_type_perm fs item_path S_IFREG
      then c_bind (strsuffixis item_path ''.sup'')
             (\<lambda>sup. if sup then append_file_content fs item_path b else Ret (b, True))
      else if \<not> check_file_type_perm fs item_path S_IFDIR then Ret (b, False)
      else (case read_dir fs item_path of
              None \<Rightarrow> Ret (b, False)
            | Some entries \<Rightarrow> include_entries fs item_path entries b))"

subsection \<open>The template\<close>

text \<open>The lines \<open>getline\<close> returns, each with its newline.\<close>

fun getlines :: "string \<Rightarrow> string \<Rightarrow> string list" where
  "getlines [] cur = (if cur = [] then [] else [cur])"
| "getlines (c # cs) cur = (if c = CHR 0x0A then (cur @ [c]) # getlines cs [] else getlines cs (cur @ [c]))"

text \<open>A literal of a \<open>sscanf\<close> format: a blank matches any white space.\<close>

fun scan_literal :: "string \<Rightarrow> string \<Rightarrow> string option" where
  "scan_literal [] s = Some s"
| "scan_literal (f # fs) s =
     (if f = CHR '' '' then scan_literal fs (dropWhile is_space s)
      else (case s of [] \<Rightarrow> None | c # cs \<Rightarrow> if c = f then scan_literal fs cs else None))"

text \<open>\<open>sscanf (line, "<!-- include %s -->", incl_path) == 1\<close>: the text behind \<open>%s\<close> does not matter.\<close>

definition scan_include :: "string \<Rightarrow> string option" where
  "scan_include s =
     (case scan_literal ''<!-- include '' s of
        None \<Rightarrow> None
      | Some rest \<Rightarrow>
          (let w = takeWhile (\<lambda>c. \<not> is_space c) (dropWhile is_space rest) in if w = [] then None else Some w))"

definition line_include :: "string \<Rightarrow> string option" where
  "line_include line = scan_include (dropWhile (\<lambda>c. c = CHR '' '') (c_string line))"

text \<open>The loop over the lines; \<open>incl_path\<close> has \<open>PATH_MAX\<close> bytes.\<close>

fun gen_lines :: "file_system \<Rightarrow> string list \<Rightarrow> gen_buffer \<Rightarrow> (gen_buffer \<times> bool) c_ret" where
  "gen_lines fs [] b = Ret (b, True)"
| "gen_lines fs (line # ls) b =
     (case line_include line of
        Some p \<Rightarrow>
          if PATH_MAX \<le> length p then Undefined
          else c_bind (include_item fs p b) (\<lambda>(b1, ok). if ok then gen_lines fs ls b1 else Ret (b1, False))
      | None \<Rightarrow>
          c_bind (check_buffer_space b (length line))
            (\<lambda>b1. c_bind (write_used b1 (c_string line @ [CHR 0x00]))
              (\<lambda>b2. gen_lines fs ls (add_used (length line) b2))))"

text \<open>
  The whole function. The result is the text in the generated file and whether 0 is returned; \<open>None\<close>:
  the file was not opened. It is emptied when it is opened. \<open>fprintf ("%s", mem)\<close> needs memory that holds
  a terminating zero.
\<close>

definition print_buffer :: "gen_buffer \<Rightarrow> string c_ret" where
  "print_buffer b =
     (case buf_mem b of None \<Rightarrow> Undefined | Some mem \<Rightarrow> if CHR 0x00 \<in> set mem then Ret (c_string mem) else Undefined)"

definition generate_config_file :: "file_system \<Rightarrow> string \<Rightarrow> bool \<Rightarrow> (string option \<times> bool) c_ret" where
  "generate_config_file fs templ_path gener_opens =
     (case read_file fs templ_path of
        None \<Rightarrow> Ret (None, False)
      | Some (n, templ) \<Rightarrow>
          if \<not> gener_opens then Ret (None, False)
          else c_bind (gen_lines fs (getlines templ []) \<lparr>buf_mem = None, mem_size = 0, mem_used = 0\<rparr>)
                 (\<lambda>(b, ok). if ok then c_bind (print_buffer b) (\<lambda>t. Ret (Some t, True)) else Ret (Some [], False)))"

subsection \<open>What the buffer represents\<close>

text \<open>
  The buffer holds the text \<open>t\<close> followed by zeros, at least one of them; its size stays below twice the
  text plus a constant, which is what keeps the sums from wrapping.
\<close>

definition buf_rel :: "gen_buffer \<Rightarrow> string \<Rightarrow> bool" where
  "buf_rel b t \<longleftrightarrow>
     (buf_mem b = None \<and> t = [] \<or>
      (\<exists>k. buf_mem b = Some (t @ zeros k) \<and> 0 < k \<and> mem_used b = length t \<and> mem_size b = length t + k \<and>
           length t + k \<le> 2 * length t + 1024))"

definition fits :: "nat \<Rightarrow> bool" where
  "fits n \<longleftrightarrow> 2 * n + 1024 < 2 ^ 32"

lemma fits_mono: "fits n \<Longrightarrow> m \<le> n \<Longrightarrow> fits m"
  by (simp add: fits_def)

lemma length_zeros [simp]: "length (zeros n) = n"
  by (simp add: zeros_def)

lemma zeros_append: "zeros m @ zeros n = zeros (m + n)"
  by (simp add: zeros_def replicate_add)

lemma drop_zeros: "drop n (zeros k) = zeros (k - n)"
  by (simp add: zeros_def)

lemma check_buffer_space_rel:
  assumes "buf_rel b t" "fits (length t + n)"
  shows "\<exists>b' k. check_buffer_space b n = Ret b' \<and> buf_mem b' = Some (t @ zeros k) \<and> n < k \<and> mem_used b' = length t \<and>
    mem_size b' = length t + k \<and> length t + k \<le> 2 * (length t + n) + 1024"
proof (cases "buf_mem b")
  case None
  with assms show ?thesis
    by (auto simp: check_buffer_space_def buf_rel_def fits_def INIT_BUFFER_SIZE_def Let_def intro!: exI[of _ "512 + n"])
next
  case (Some mem)
  with assms(1) obtain k where k: "mem = t @ zeros k" "0 < k" "mem_used b = length t" "mem_size b = length t + k"
    "length t + k \<le> 2 * length t + 1024" by (auto simp: buf_rel_def)
  have av: "(mem_size b + 2 ^ 32 - mem_used b) mod 2 ^ 32 = k" using k assms(2) by (simp add: fits_def)
  show ?thesis
  proof (cases "k \<le> n")
    case True
    have "(mem_size b + INC_BUFFER_SIZE + n) mod 2 ^ 32 = length t + (k + (1024 + n))"
      using k(4) True assms(2) by (simp add: INC_BUFFER_SIZE_def fits_def)
    then show ?thesis
      using Some k av True
      by (auto simp: check_buffer_space_def Let_def zeros_append intro!: exI[of _ "k + (1024 + n)"])
  next
    case False
    with Some k av show ?thesis by (auto simp: check_buffer_space_def intro!: exI[of _ k])
  qed
qed

text \<open>Reserving, writing and advancing by the same number of bytes appends them.\<close>

lemma append_bytes_rel:
  assumes "buf_rel b t" "fits (length t + length u)" "set z \<subseteq> {CHR 0x00}" "length z \<le> 1"
  shows "\<exists>b1 b2. check_buffer_space b (length u) = Ret b1 \<and> write_used b1 (u @ z) = Ret b2 \<and>
    buf_rel (add_used (length u) b2) (t @ u)"
proof -
  from check_buffer_space_rel[OF assms(1,2)] obtain b1 k where b1: "check_buffer_space b (length u) = Ret b1"
    "buf_mem b1 = Some (t @ zeros k)" "length u < k" "mem_used b1 = length t" "mem_size b1 = length t + k"
    "length t + k \<le> 2 * (length t + length u) + 1024" by blast
  have z: "z = zeros (length z)"
    using assms(3) by (simp add: zeros_def) (metis in_set_replicate replicate_eqI singletonD subsetD)
  have "z @ drop (length u + length z) (zeros k) = zeros (k - length u)"
    using b1(3) assms(4) by (subst z) (simp add: drop_zeros zeros_append)
  then have w: "write_used b1 (u @ z) = Ret (b1\<lparr>buf_mem := Some (t @ u @ zeros (k - length u))\<rparr>)"
    using b1 assms(4) by (simp add: write_used_def)
  have "(length t + length u) mod 2 ^ 32 = length t + length u" using assms(2) by (simp add: fits_def)
  with b1 w show ?thesis by (auto simp: buf_rel_def add_used_def)
qed

lemma c_string_zeros: "CHR 0x00 \<notin> set t \<Longrightarrow> c_string (t @ replicate k (CHR 0x00)) = t"
  unfolding c_string_def by (cases k) (auto simp: takeWhile_eq_all_conv takeWhile_tail)

lemma print_buffer_rel: "buf_rel b t \<Longrightarrow> buf_mem b \<noteq> None \<Longrightarrow> CHR 0x00 \<notin> set t \<Longrightarrow> print_buffer b = Ret t"
  by (auto simp: buf_rel_def print_buffer_def c_string_zeros zeros_def)

subsection \<open>The expansion of a template\<close>

text \<open>What including a path contributes; \<open>None\<close> when it fails.\<close>

definition file_text :: "file_system \<Rightarrow> string \<Rightarrow> string option" where
  "file_text fs p = (case read_file fs p of None \<Rightarrow> None | Some (fsize, bytes) \<Rightarrow> if fsize = -1 then None else Some bytes)"

definition entry_text :: "file_system \<Rightarrow> string \<Rightarrow> string \<Rightarrow> string option" where
  "entry_text fs p d =
     (if d \<noteq> ''.'' \<and> d \<noteq> ''..'' \<and> check_file_type_perm fs (dir_entry_path p d) S_IFREG \<and> suffix ''.sup'' d
      then file_text fs (dir_entry_path p d) else Some [])"

definition opt_append :: "'a list option \<Rightarrow> 'a list option \<Rightarrow> 'a list option" where
  "opt_append x y = (case x of None \<Rightarrow> None | Some u \<Rightarrow> (case y of None \<Rightarrow> None | Some v \<Rightarrow> Some (u @ v)))"

lemma opt_append_simps [simp]:
  "opt_append None y = None" "opt_append (Some u) (Some v) = Some (u @ v)" "opt_append (Some u) None = None"
  "opt_append (Some []) y = y" "opt_append y (Some []) = y" "opt_append (opt_append x y) z = opt_append x (opt_append y z)"
  by (auto simp: opt_append_def split: option.split)

fun concat_opt :: "'a list option list \<Rightarrow> 'a list option" where
  "concat_opt [] = Some []"
| "concat_opt (x # xs) = opt_append x (concat_opt xs)"

definition item_pieces :: "file_system \<Rightarrow> string \<Rightarrow> string option list" where
  "item_pieces fs p =
     (if check_file_type_perm fs p S_IFREG then (if suffix ''.sup'' p then [file_text fs p] else [])
      else if check_file_type_perm fs p S_IFDIR
      then (case read_dir fs p of None \<Rightarrow> [None] | Some ds \<Rightarrow> map (entry_text fs p) ds)
      else [None])"

definition line_pieces :: "file_system \<Rightarrow> string \<Rightarrow> string option list" where
  "line_pieces fs line = (case line_include line of None \<Rightarrow> [Some line] | Some p \<Rightarrow> item_pieces fs p)"

definition template_pieces :: "file_system \<Rightarrow> string \<Rightarrow> string option list" where
  "template_pieces fs templ = concat (map (line_pieces fs) (getlines templ []))"

definition expansion :: "file_system \<Rightarrow> string \<Rightarrow> string option" where
  "expansion fs templ = concat_opt (template_pieces fs templ)"

text \<open>
  Files whose size is what is read from them, without zero bytes, whose names have at least four
  characters.
\<close>

definition fs_ok :: "file_system \<Rightarrow> bool" where
  "fs_ok fs \<longleftrightarrow>
     (\<forall>p n bytes. read_file fs p = Some (n, bytes) \<longrightarrow> n \<noteq> -1 \<longrightarrow> n = int (length bytes) \<and> CHR 0x00 \<notin> set bytes) \<and>
     (\<forall>p. check_file_type_perm fs p S_IFREG \<longrightarrow> 4 \<le> length p) \<and>
     (\<forall>p ds d. read_dir fs p = Some ds \<longrightarrow> d \<in> set ds \<longrightarrow> check_file_type_perm fs (dir_entry_path p d) S_IFREG \<longrightarrow> 4 \<le> length d)"

text \<open>One piece of the expansion is appended, or the function reports the failure.\<close>

definition appends :: "(gen_buffer \<times> bool) c_ret \<Rightarrow> string \<Rightarrow> string option \<Rightarrow> bool" where
  "appends r t u \<longleftrightarrow> (\<exists>b'. r = Ret (b', u \<noteq> None) \<and> (\<forall>v. u = Some v \<longrightarrow> buf_rel b' (t @ v)))"

definition option_length :: "'a list option \<Rightarrow> nat" where
  "option_length u = (case u of None \<Rightarrow> 0 | Some v \<Rightarrow> length v)"

lemma append_file_appends:
  assumes "buf_rel b t" "fs_ok fs" "fits (length t + option_length (file_text fs p))"
  shows "appends (append_file_content fs p b) t (file_text fs p)"
proof (cases "file_text fs p")
  case None
  then show ?thesis by (auto simp: appends_def append_file_content_def file_text_def split: option.splits prod.splits if_splits)
next
  case (Some u)
  then obtain n where r: "read_file fs p = Some (n, u)" "n \<noteq> -1" by (auto simp: file_text_def split: option.splits if_splits)
  then have n: "n = int (length u)" using assms(2) by (auto simp: fs_ok_def)
  have "length u mod 2 ^ 32 = length u" using assms(3) Some by (simp add: fits_def option_length_def)
  moreover from append_bytes_rel[OF assms(1), of u "[]"] assms(3) Some obtain b1 b2 where
    "check_buffer_space b (length u) = Ret b1" "write_used b1 u = Ret b2" "buf_rel (add_used (length u) b2) (t @ u)"
    by (auto simp: option_length_def)
  ultimately show ?thesis using r n Some by (simp add: appends_def append_file_content_def)
qed

definition pieces_length :: "'a list option list \<Rightarrow> nat" where
  "pieces_length us = sum_list (map option_length us)"

lemma pieces_length_simps [simp]:
  "pieces_length [] = 0" "pieces_length (u # us) = option_length u + pieces_length us"
  "pieces_length (us @ vs) = pieces_length us + pieces_length vs"
  by (simp_all add: pieces_length_def)

lemma concat_opt_append: "concat_opt (us @ vs) = opt_append (concat_opt us) (concat_opt vs)"
  by (induction us) simp_all

lemma concat_opt_length: "concat_opt us = Some v \<Longrightarrow> length v = pieces_length us"
  by (induction us arbitrary: v) (auto simp: option_length_def opt_append_def split: option.splits)

lemma appends_seq:
  assumes "appends r t u" "\<And>b' v. u = Some v \<Longrightarrow> buf_rel b' (t @ v) \<Longrightarrow> appends (f b') (t @ v) w"
  shows "appends (c_bind r (\<lambda>(b, ok). if ok then f b else Ret (b, False))) t (opt_append u w)"
proof (cases u)
  case (Some v)
  with assms(1) obtain b' where "r = Ret (b', True)" "buf_rel b' (t @ v)" by (auto simp: appends_def)
  with assms(2)[OF Some, of b'] Some show ?thesis by (cases w) (auto simp: appends_def)
qed (use assms(1) in \<open>auto simp: appends_def\<close>)

lemma appends_nothing: "buf_rel b t \<Longrightarrow> appends (Ret (b, True)) t (Some [])"
  by (simp add: appends_def)

lemma include_entries_appends:
  "buf_rel b t \<Longrightarrow> fs_ok fs \<Longrightarrow> \<forall>d \<in> set ds. check_file_type_perm fs (dir_entry_path p d) S_IFREG \<longrightarrow> 4 \<le> length d \<Longrightarrow>
     fits (length t + pieces_length (map (entry_text fs p) ds)) \<Longrightarrow>
     appends (include_entries fs p ds b) t (concat_opt (map (entry_text fs p) ds))"
proof (induction ds arbitrary: b t)
  case (Cons d ds)
  have rest: "appends (include_entries fs p ds b') (t @ v) (concat_opt (map (entry_text fs p) ds))"
    if "entry_text fs p d = Some v" "buf_rel b' (t @ v)" for b' v
    using Cons.IH[OF that(2) Cons.prems(2)] Cons.prems(3,4) that(1) by (simp add: option_length_def add.assoc)
  show ?case
  proof (cases "d \<noteq> ''.'' \<and> d \<noteq> ''..'' \<and> check_file_type_perm fs (dir_entry_path p d) S_IFREG \<and> suffix ''.sup'' d")
    case True
    then have e: "entry_text fs p d = file_text fs (dir_entry_path p d)" by (simp add: entry_text_def)
    have "appends (append_file_content fs (dir_entry_path p d) b) t (entry_text fs p d)"
      unfolding e using Cons.prems(4) e by (intro append_file_appends[OF Cons.prems(1,2)]) (auto elim: fits_mono)
    from appends_seq[OF this rest] show ?thesis
      using True Cons.prems(3) by (simp add: strsuffixis_suffix e)
  next
    case False
    then have e: "entry_text fs p d = Some []" by (auto simp: entry_text_def)
    with rest[OF e] Cons.prems(1) have "appends (include_entries fs p ds b) t (concat_opt (map (entry_text fs p) (d # ds)))" by simp
    then show ?thesis using False Cons.prems(3) by (auto simp: strsuffixis_suffix)
  qed
qed (simp add: appends_nothing)

lemma include_item_appends:
  assumes "buf_rel b t" "fs_ok fs" "fits (length t + pieces_length (item_pieces fs p))"
  shows "appends (include_item fs p b) t (concat_opt (item_pieces fs p))"
proof (cases "check_file_type_perm fs p S_IFREG")
  case True
  then have "4 \<le> length p" using assms(2) by (simp add: fs_ok_def)
  then show ?thesis
    using True assms append_file_appends[OF assms(1,2), of p] appends_nothing[OF assms(1)]
    by (auto simp: include_item_def item_pieces_def strsuffixis_suffix)
next
  case False
  show ?thesis
  proof (cases "check_file_type_perm fs p S_IFDIR \<and> read_dir fs p \<noteq> None")
    case True
    then obtain ds where ds: "read_dir fs p = Some ds" by auto
    then have "\<forall>d \<in> set ds. check_file_type_perm fs (dir_entry_path p d) S_IFREG \<longrightarrow> 4 \<le> length d"
      using assms(2) by (auto simp: fs_ok_def)
    with include_entries_appends[OF assms(1,2)] assms(3) False True ds show ?thesis
      by (simp add: include_item_def item_pieces_def)
  qed (use False in \<open>auto simp: include_item_def item_pieces_def appends_def\<close>)
qed

lemma gen_lines_appends:
  "buf_rel b t \<Longrightarrow> fs_ok fs \<Longrightarrow> \<forall>line \<in> set ls. CHR 0x00 \<notin> set line \<and> (\<forall>p. line_include line = Some p \<longrightarrow> length p < PATH_MAX) \<Longrightarrow>
     fits (length t + pieces_length (concat (map (line_pieces fs) ls))) \<Longrightarrow>
     appends (gen_lines fs ls b) t (concat_opt (concat (map (line_pieces fs) ls)))"
proof (induction ls arbitrary: b t)
  case (Cons line ls)
  show ?case
  proof (cases "line_include line")
    case None
    then have pc: "line_pieces fs line = [Some line]" by (simp add: line_pieces_def)
    have "fits (length t + length line)" using Cons.prems(4) pc by (auto simp: option_length_def elim: fits_mono)
    with append_bytes_rel[OF Cons.prems(1), of line "[CHR 0x00]"] obtain b1 b2 where
      b: "check_buffer_space b (length line) = Ret b1" "write_used b1 (line @ [CHR 0x00]) = Ret b2"
        "buf_rel (add_used (length line) b2) (t @ line)"
      by auto
    have "appends (gen_lines fs ls (add_used (length line) b2)) (t @ line) (concat_opt (concat (map (line_pieces fs) ls)))"
      using Cons.IH[OF b(3) Cons.prems(2)] Cons.prems(3,4) pc by (simp add: option_length_def add.assoc)
    then show ?thesis
      using None b(1,2) pc Cons.prems(3) by (cases "concat_opt (concat (map (line_pieces fs) ls))")
        (auto simp: c_string_id appends_def)
  next
    case (Some p)
    then have pc: "line_pieces fs line = item_pieces fs p" and len: "length p < PATH_MAX"
      using Cons.prems(3) by (simp_all add: line_pieces_def)
    have item: "appends (include_item fs p b) t (concat_opt (item_pieces fs p))"
      using Cons.prems(4) pc by (intro include_item_appends[OF Cons.prems(1,2)]) (auto elim: fits_mono)
    have "appends (gen_lines fs ls b') (t @ v) (concat_opt (concat (map (line_pieces fs) ls)))"
      if "concat_opt (item_pieces fs p) = Some v" "buf_rel b' (t @ v)" for b' v
      using Cons.IH[OF that(2) Cons.prems(2)] Cons.prems(3,4) concat_opt_length[OF that(1)] pc by (simp add: add.assoc)
    from appends_seq[OF item this] show ?thesis using Some len pc by (simp add: concat_opt_append)
  qed
qed (simp add: appends_nothing)

lemma getlines_set: "line \<in> set (getlines t cur) \<Longrightarrow> set line \<subseteq> set t \<union> set cur"
  by (induction t cur rule: getlines.induct) (fastforce split: if_splits)+

lemma concat_opt_no_zero:
  "concat_opt us = Some v \<Longrightarrow> \<forall>u w. u \<in> set us \<longrightarrow> u = Some w \<longrightarrow> z \<notin> set w \<Longrightarrow> z \<notin> set v"
  by (induction us arbitrary: v) (auto simp: opt_append_def split: option.splits)

lemma pieces_no_zero:
  assumes "fs_ok fs" "Some w \<in> set (line_pieces fs line)" "CHR 0x00 \<notin> set line"
  shows "CHR 0x00 \<notin> set w"
proof -
  have "CHR 0x00 \<notin> set u" if "file_text fs p = Some u" for p u
    using that assms(1) by (auto simp: file_text_def fs_ok_def split: option.splits if_splits)
  then show ?thesis
    using assms(2,3) by (auto simp: line_pieces_def item_pieces_def entry_text_def split: option.splits if_splits)
qed

text \<open>
  C26. The generated file: for a template and files without zero bytes, whose names have at least four
  characters and whose total size is below 2 GB, the buffer is never left; the file that is written is
  the template with every include line replaced by the files it names, and the function fails exactly
  when one of them cannot be read.
\<close>

theorem generate_config_file_expands:
  assumes "fs_ok fs" "read_file fs templ = Some (n, t)" "CHR 0x00 \<notin> set t"
    and "\<forall>line \<in> set (getlines t []). \<forall>p. line_include line = Some p \<longrightarrow> length p < PATH_MAX"
    and "fits (pieces_length (template_pieces fs t))" "expansion fs t \<noteq> Some []"
  shows "generate_config_file fs templ True =
    (case expansion fs t of None \<Rightarrow> Ret (Some [], False) | Some u \<Rightarrow> Ret (Some u, True))"
proof -
  let ?b0 = "\<lparr>buf_mem = None, mem_size = 0, mem_used = 0\<rparr>"
  have lines: "CHR 0x00 \<notin> set line" if "line \<in> set (getlines t [])" for line
    using getlines_set[OF that] assms(3) by auto
  have "buf_rel ?b0 []" by (simp add: buf_rel_def)
  from gen_lines_appends[OF this assms(1), of "getlines t []"] lines assms(4,5)
  have "appends (gen_lines fs (getlines t []) ?b0) [] (expansion fs t)"
    by (auto simp: expansion_def template_pieces_def)
  then obtain b where b: "gen_lines fs (getlines t []) ?b0 = Ret (b, expansion fs t \<noteq> None)"
    "\<And>u. expansion fs t = Some u \<Longrightarrow> buf_rel b u" by (auto simp: appends_def)
  show ?thesis
  proof (cases "expansion fs t")
    case (Some u)
    have "CHR 0x00 \<notin> set u"
      using Some lines pieces_no_zero[OF assms(1)]
      by (intro concat_opt_no_zero[of "template_pieces fs t"]) (auto simp: expansion_def template_pieces_def)
    moreover have "buf_mem b \<noteq> None" using b(2)[OF Some] Some assms(6) by (auto simp: buf_rel_def)
    ultimately have "print_buffer b = Ret u" using print_buffer_rel b(2)[OF Some] by simp
    then show ?thesis using b(1) assms(2) Some by (simp add: generate_config_file_def)
  qed (use b(1) assms(2) in \<open>simp add: generate_config_file_def\<close>)
qed

text \<open>An example: a template that includes a directory with one usable file.\<close>

definition sample_templ :: string where
  "sample_templ = ''<a>'' @ [CHR 0x0A] @ ''  <!-- include dir -->'' @ [CHR 0x0A] @ ''</a>'' @ [CHR 0x0A]"

definition sample_fs :: file_system where
  "sample_fs = \<lparr>stat_mode = (\<lambda>p. if p = ''dir'' then Some S_IFDIR else if p = ''dir/a.sup'' \<or> p = ''dir/notes'' then Some S_IFREG else None),
     access_ok = (\<lambda>p. True),
     read_file = (\<lambda>p. if p = ''t.xml'' then Some (int (length sample_templ), sample_templ)
                   else if p = ''dir/a.sup'' then Some (4, ''<b/>'') else None),
     read_dir = (\<lambda>p. if p = ''dir'' then Some [''.'', ''..'', ''notes'', ''a.sup''] else None)\<rparr>"

lemma sample_fs_ok: "fs_ok sample_fs"
  by (auto simp: fs_ok_def sample_fs_def sample_templ_def check_file_type_perm_def dir_entry_path_def PATH_MAX_def split: if_splits option.splits)

lemma sample_template:
  "getlines sample_templ [] = [''<a>'' @ [CHR 0x0A], ''  <!-- include dir -->'' @ [CHR 0x0A], ''</a>'' @ [CHR 0x0A]]"
  "map line_include (getlines sample_templ []) = [None, Some ''dir'', None]"
  "template_pieces sample_fs sample_templ = [Some (''<a>'' @ [CHR 0x0A]), Some [], Some [], Some [], Some ''<b/>'', Some (''</a>'' @ [CHR 0x0A])]"
  by code_simp+

theorem generate_config_file_expands_witness:
  "generate_config_file sample_fs ''t.xml'' True = Ret (Some (''<a>'' @ [CHR 0x0A] @ ''<b/></a>'' @ [CHR 0x0A]), True)"
proof -
  have e: "expansion sample_fs sample_templ = Some (''<a>'' @ [CHR 0x0A] @ ''<b/></a>'' @ [CHR 0x0A])"
    by (simp add: expansion_def sample_template(3))
  have p: "\<forall>line \<in> set (getlines sample_templ []). \<forall>p. line_include line = Some p \<longrightarrow> length p < PATH_MAX"
    using sample_template(2) by (auto simp: sample_template(1) PATH_MAX_def)
  have "fits (pieces_length (template_pieces sample_fs sample_templ))"
    by (simp add: sample_template(3) fits_def option_length_def)
  moreover have "read_file sample_fs ''t.xml'' = Some (int (length sample_templ), sample_templ)" "CHR 0x00 \<notin> set sample_templ"
    by (simp_all add: sample_fs_def sample_templ_def)
  ultimately show ?thesis
    using generate_config_file_expands[OF sample_fs_ok _ _ p] e by simp
qed

end
