(* ===== verification/Backup.thy ===== *)
theory Backup
  imports Config_Gen
begin

section \<open>The backup of the configuration\<close>

text \<open>
  \<open>generate_backup_config_file\<close> (\<^verbatim>\<open>supervisor.c\<close>, lines 974-1094): at termination the loaded modules are saved
  with their process identifiers as a document that the next start loads. \<open>content_nodes\<close> is what
  \<open>xmlNewChild\<close> makes of its last argument (\<open>xmlStringGetNodeList\<close>); \<open>xmlAddChild\<close> of a node to the parent
  it already has changes nothing; \<open>indent\<close> is what parsing the formatted dump adds. Proved: the document is accepted, and
  loading it at the start restores every saved module with its name, process identifier, path, parameters, enabled flag and
  interfaces.
\<close>

subsection \<open>The document\<close>

definition new_child :: "(string \<Rightarrow> xml_node list) \<Rightarrow> string \<Rightarrow> string \<Rightarrow> xml_node" where
  "new_child content_nodes nm content = Xml_Node XML_ELEMENT_NODE nm (content_nodes content) [] []"

definition opt_child :: "(string \<Rightarrow> xml_node list) \<Rightarrow> string \<Rightarrow> string option \<Rightarrow> xml_node list" where
  "opt_child content_nodes nm t = (case t of None \<Rightarrow> [] | Some u \<Rightarrow> [new_child content_nodes nm u])"

definition flag_child :: "(string \<Rightarrow> xml_node list) \<Rightarrow> bool \<Rightarrow> xml_node" where
  "flag_child content_nodes b = new_child content_nodes ''enabled'' (if b then ''true'' else ''false'')"

definition backup_interface :: "(string \<Rightarrow> xml_node list) \<Rightarrow> interface_t \<Rightarrow> xml_node" where
  "backup_interface content_nodes ifc =
     Xml_Node XML_ELEMENT_NODE ''interface''
       (opt_child content_nodes ''note'' (ifc_note ifc) @ opt_child content_nodes ''params'' (ifc_params ifc) @
        opt_child content_nodes ''direction'' (ifc_direction ifc) @ opt_child content_nodes ''type'' (ifc_type ifc)) [] []"

definition saved_ifces :: "running_module \<Rightarrow> interface_t list" where
  "saved_ifces m = take (config_ifces_cnt m) (config_ifces m)"

definition backup_trapinterfaces :: "(string \<Rightarrow> xml_node list) \<Rightarrow> running_module \<Rightarrow> xml_node list" where
  "backup_trapinterfaces content_nodes m =
     (if 0 < config_ifces_cnt m
      then [Xml_Node XML_ELEMENT_NODE ''trapinterfaces'' (map (backup_interface content_nodes) (saved_ifces m)) [] []]
      else [])"

definition module_leaves :: "(string \<Rightarrow> xml_node list) \<Rightarrow> running_module \<Rightarrow> xml_node list" where
  "module_leaves content_nodes m =
     opt_child content_nodes ''name'' (module_name m) @ opt_child content_nodes ''path'' (module_path m) @
     opt_child content_nodes ''params'' (module_params m) @ [flag_child content_nodes (module_enabled m)]"

definition backup_module :: "(string \<Rightarrow> xml_node list) \<Rightarrow> running_module \<Rightarrow> xml_node" where
  "backup_module content_nodes m =
     Xml_Node XML_ELEMENT_NODE ''module'' (module_leaves content_nodes m @ backup_trapinterfaces content_nodes m)
       [(''module_pid'', print_int (module_pid m))] []"

text \<open>The modules whose profile has the given name, in the order of the array.\<close>

definition in_profile :: "sup \<Rightarrow> string \<Rightarrow> running_module \<Rightarrow> bool" where
  "in_profile s nm m \<longleftrightarrow> (case profile_ref (profiles s) m of None \<Rightarrow> False | Some p \<Rightarrow> profile_name p = nm)"

definition modules_named :: "sup \<Rightarrow> string \<Rightarrow> running_module list" where
  "modules_named s nm = filter (in_profile s nm) (loaded s)"

definition backup_profile :: "(string \<Rightarrow> xml_node list) \<Rightarrow> sup \<Rightarrow> modules_profile \<Rightarrow> xml_node" where
  "backup_profile content_nodes s p =
     Xml_Node XML_ELEMENT_NODE ''modules''
       ([new_child content_nodes ''name'' (profile_name p), flag_child content_nodes (profile_enabled p)] @
        map (backup_module content_nodes) (modules_named s (profile_name p))) [] []"

definition generate_backup_config_file :: "(string \<Rightarrow> xml_node list) \<Rightarrow> bool \<Rightarrow> string \<Rightarrow> sup \<Rightarrow> xml_node" where
  "generate_backup_config_file content_nodes daemon sock s =
     Xml_Node XML_ELEMENT_NODE ''nemea-supervisor'' (map (backup_profile content_nodes s) (profiles s))
       [(''lock'', []), (''daemon'', if daemon then ''true'' else ''false''), (''socket_path'', if daemon then sock else [])] []"

text \<open>
  The file: \<open>xmlDocFormatDump\<close> with format 1 puts every child of an element that has no text on a line of its own, indented by its
  depth, so that the parser later finds a blank text node around each; \<open>ws k\<close> is the white space of depth \<open>k\<close>.
\<close>

definition blank_node :: "string \<Rightarrow> xml_node" where
  "blank_node t = Xml_Node XML_TEXT_NODE ''text'' [] [] t"

fun indent :: "(nat \<Rightarrow> string) \<Rightarrow> nat \<Rightarrow> xml_node \<Rightarrow> xml_node" where
  "indent ws k (Xml_Node ty nm cs ps t) =
     Xml_Node ty nm
       (if cs = [] \<or> list_ex (\<lambda>c. xtype c = XML_TEXT_NODE) cs then cs
        else concat (map (\<lambda>c. [blank_node (ws (Suc k)), indent ws (Suc k) c]) cs) @ [blank_node (ws k)]) ps t"

subsection \<open>What is saved\<close>

record saved_module =
  sv_name :: "string option"
  sv_pid :: int
  sv_path :: "string option"
  sv_params :: "string option"
  sv_enabled :: bool
  sv_ifces :: "(string option \<times> string option \<times> string option \<times> string option) list"

definition ifc_fields :: "interface_t \<Rightarrow> string option \<times> string option \<times> string option \<times> string option" where
  "ifc_fields ifc = (ifc_note ifc, ifc_type ifc, ifc_params ifc, ifc_direction ifc)"

definition saved :: "running_module \<Rightarrow> saved_module" where
  "saved m = \<lparr>sv_name = module_name m, sv_pid = module_pid m, sv_path = module_path m, sv_params = module_params m,
     sv_enabled = module_enabled m, sv_ifces = map ifc_fields (saved_ifces m)\<rparr>"

definition mod_key :: "running_module \<Rightarrow> string" where
  "mod_key m = the (module_name m)"

text \<open>The modules in the order of the document.\<close>

definition backed_up :: "sup \<Rightarrow> running_module list" where
  "backed_up s = concat (map (\<lambda>p. modules_named s (profile_name p)) (profiles s))"

text \<open>
  What the values must be like: present values are not empty and hold no \<open>&\<close> (which \<open>xmlNewChild\<close> reads as the
  start of an entity), names and paths are present, interface values are as validation demands.
\<close>

definition plain_text :: "string \<Rightarrow> bool" where
  "plain_text u \<longleftrightarrow> u \<noteq> [] \<and> CHR ''&'' \<notin> set u"

definition text_ok :: "string option \<Rightarrow> bool" where
  "text_ok t \<longleftrightarrow> (case t of None \<Rightarrow> True | Some u \<Rightarrow> plain_text u)"

definition ifc_ok :: "interface_t \<Rightarrow> bool" where
  "ifc_ok ifc \<longleftrightarrow> text_ok (ifc_note ifc) \<and> text_ok (ifc_params ifc) \<and>
     (\<forall>d. ifc_direction ifc = Some d \<longrightarrow> d = ''IN'' \<or> d = ''OUT'') \<and>
     (\<forall>t. ifc_type ifc = Some t \<longrightarrow> t \<in> {''TCP'', ''UNIXSOCKET'', ''FILE'', ''BLACKHOLE'', ''TLS''}) \<and>
     (ifc_note ifc \<noteq> None \<or> ifc_params ifc \<noteq> None \<or> ifc_direction ifc \<noteq> None \<or> ifc_type ifc \<noteq> None)"

definition backup_ok_module :: "running_module \<Rightarrow> bool" where
  "backup_ok_module m \<longleftrightarrow> module_name m \<noteq> None \<and> text_ok (module_name m) \<and> module_path m \<noteq> None \<and> text_ok (module_path m) \<and>
     text_ok (module_params m) \<and> - (2 ^ 31) \<le> module_pid m \<and> module_pid m < 2 ^ 31 \<and> list_all ifc_ok (saved_ifces m) \<and>
     config_ifces_cnt m \<le> length (config_ifces m)"

definition backup_ok :: "sup \<Rightarrow> bool" where
  "backup_ok s \<longleftrightarrow> profiles s \<noteq> [] \<and> list_all (\<lambda>p. plain_text (profile_name p)) (profiles s) \<and>
     distinct (map profile_name (profiles s)) \<and> list_all backup_ok_module (loaded s)"

text \<open>
  What the code relies on of libxml2: the nodes made from a text without entities are text nodes whose
  string is that text, and an attribute is found by its name.
\<close>

definition lib_ok :: "libxml \<Rightarrow> (string \<Rightarrow> xml_node list) \<Rightarrow> bool" where
  "lib_ok lib content_nodes \<longleftrightarrow>
     (\<forall>t. plain_text t \<longrightarrow> node_list_string lib (content_nodes t) = Some t \<and> content_nodes t \<noteq> [] \<and>
        list_all (\<lambda>n. xtype n = XML_TEXT_NODE \<and> xname n = ''text'' \<and> xchildren n = []) (content_nodes t)) \<and>
     (\<forall>n k. get_prop lib n k = map_of (xprops n) k)"

subsection \<open>White space between elements\<close>

inductive padded :: "xml_node list \<Rightarrow> xml_node list \<Rightarrow> bool" where
  padded_Nil: "padded [] []"
| padded_elem: "padded cs es \<Longrightarrow> xtype n = XML_ELEMENT_NODE \<Longrightarrow> padded (n # cs) (n # es)"
| padded_blank: "padded cs es \<Longrightarrow> padded (blank_node w # cs) es"

lemma blank_node_simps [simp]: "xtype (blank_node w) = XML_TEXT_NODE" "xname (blank_node w) = ''text''" "\<not> is_elem nm (blank_node w)"
  by (simp_all add: blank_node_def is_elem_def)

text \<open>What reads the document passes over the white space.\<close>

lemma padded_check_elements: "padded cs es \<Longrightarrow> check_elements R rp seen cs st = check_elements R rp seen es st"
proof (induction arbitrary: seen st rule: padded.induct)
  case (padded_elem cs es n)
  then show ?case by (auto split: option.split)
qed simp_all

lemma padded_check_element:
  assumes "padded cs es"
  shows "reload_check_interface_element lib cs = reload_check_interface_element lib es"
    "reload_check_module_element lib cs names = reload_check_module_element lib es names"
    "reload_check_modules_element lib cs names = reload_check_modules_element lib es names"
  by (simp_all add: reload_check_interface_element_def reload_check_module_element_def reload_check_modules_element_def
      padded_check_elements[OF assms])

lemma padded_check_interfaces: "padded cs es \<Longrightarrow> check_interfaces lib cs = check_interfaces lib es"
  by (induction rule: padded.induct) simp_all

lemma padded_check_trapinterfaces: "padded cs es \<Longrightarrow> check_trapinterfaces lib cs = check_trapinterfaces lib es"
  unfolding check_trapinterfaces_def by (induction rule: padded.induct) simp_all

lemma padded_check_modules: "padded cs es \<Longrightarrow> check_modules lib cs names = check_modules lib es names"
  by (induction arbitrary: names rule: padded.induct) (simp_all split: option.split)

lemma padded_check_root:
  "padded cs es \<Longrightarrow> check_root_children lib b cs pn mn = check_root_children lib b es pn mn"
  by (induction arbitrary: b pn mn rule: padded.induct) (simp_all split: option.split)

lemma padded_named_values: "padded cs es \<Longrightarrow> nm \<noteq> ''text'' \<Longrightarrow> named_values lib nm cs = named_values lib nm es"
  by (induction rule: padded.induct) simp_all

lemma padded_ifc_insert: "padded cs es \<Longrightarrow> ifc_insert lib cs ifc = ifc_insert lib es ifc"
  by (induction arbitrary: ifc rule: padded.induct) simp_all

lemma padded_ifc_loop: "padded cs es \<Longrightarrow> ifc_loop lib ch True cs c m = ifc_loop lib ch' True es c m"
  by (induction arbitrary: c m rule: padded.induct) (simp_all add: Let_def)

lemma padded_children: "padded cs es \<Longrightarrow> process_module_children lib new cs mi = process_module_children lib new es mi"
  unfolding process_module_children_def
  by (induction arbitrary: mi rule: padded.induct) (simp_all add: process_module_child_def[of _ _ "blank_node _"] case_prod_unfold)

lemma padded_profile_loop: "padded cs es \<Longrightarrow> profile_loop lib cs nc nm ec en = profile_loop lib es nc nm ec en"
  by (induction arbitrary: nc nm ec en rule: padded.induct) (simp_all split: option.split)

lemma padded_root_loop: "padded cs es \<Longrightarrow> root_loop lib choice cs v s = root_loop lib choice es v s"
  by (induction arbitrary: v s rule: padded.induct) (simp_all add: case_prod_unfold Let_def)

lemma indent_simps [simp]:
  "xtype (indent ws k n) = xtype n" "xname (indent ws k n) = xname n" "xprops (indent ws k n) = xprops n"
  by (cases n, simp)+

lemma indent_children:
  assumes "list_all (\<lambda>c. xtype c = XML_ELEMENT_NODE) (xchildren e)"
  shows "padded (xchildren (indent ws k e)) (map (indent ws (Suc k)) (xchildren e))"
proof (cases e)
  case (Xml_Node ty nm cs ps t)
  have "list_all (\<lambda>c. xtype c = XML_ELEMENT_NODE) ds \<Longrightarrow>
      padded (concat (map (\<lambda>c. [blank_node (ws (Suc k)), indent ws (Suc k) c]) ds) @ [blank_node (ws k)]) (map (indent ws (Suc k)) ds)" for ds
    by (induction ds) (auto intro!: padded.intros)
  moreover have "\<not> list_ex (\<lambda>c. xtype c = XML_TEXT_NODE) cs" using assms Xml_Node by (auto simp: list_all_iff list_ex_iff)
  ultimately show ?thesis using assms Xml_Node by (cases "cs = []") (auto intro: padded.intros)
qed

lemma indent_empty: "xchildren (indent ws k e) = [] \<longleftrightarrow> xchildren e = []"
  by (cases e) simp

lemma indent_text: "list_ex (\<lambda>c. xtype c = XML_TEXT_NODE) (xchildren e) \<Longrightarrow> indent ws k e = e"
  by (cases e) simp

subsection \<open>The document is accepted\<close>

lemma child_simps [simp]:
  "xtype (new_child cn nm t) = XML_ELEMENT_NODE" "xname (new_child cn nm t) = nm" "xchildren (new_child cn nm t) = cn t"
  "xtype (flag_child cn b) = XML_ELEMENT_NODE" "xname (flag_child cn b) = ''enabled''"
  "xtype (backup_interface cn i) = XML_ELEMENT_NODE" "xname (backup_interface cn i) = ''interface''"
  "xtype (backup_module cn m) = XML_ELEMENT_NODE" "xname (backup_module cn m) = ''module''"
  "xtype (backup_profile cn s p) = XML_ELEMENT_NODE" "xname (backup_profile cn s p) = ''modules''"
  by (simp_all add: new_child_def flag_child_def backup_interface_def backup_module_def backup_profile_def)

lemma opt_child_simps [simp]:
  "opt_child cn nm None = []" "opt_child cn nm (Some u) = [new_child cn nm u]"
  by (simp_all add: opt_child_def)

lemma text_ok_Some [simp]: "text_ok None" "text_ok (Some u) \<longleftrightarrow> plain_text u"
  by (simp_all add: text_ok_def)

lemma value_new_child: "lib_ok lib cn \<Longrightarrow> plain_text t \<Longrightarrow> node_value lib (new_child cn nm t) = Some t"
  by (simp add: lib_ok_def node_value_def)

lemma plain_flags [simp]: "plain_text ''true''" "plain_text ''false''" "plain_text ''IN''" "plain_text ''OUT''" "plain_text ''TCP''"
  "plain_text ''UNIXSOCKET''" "plain_text ''FILE''" "plain_text ''BLACKHOLE''" "plain_text ''TLS''"
  by (simp_all add: plain_text_def)

lemma value_flag: "lib_ok lib cn \<Longrightarrow> node_value lib (flag_child cn b) = Some (if b then ''true'' else ''false'')"
  by (simp add: flag_child_def value_new_child)

lemma indent_new_child [simp]: "lib_ok lib cn \<Longrightarrow> plain_text t \<Longrightarrow> indent ws k (new_child cn nm t) = new_child cn nm t"
  by (rule indent_text) (cases "cn t"; auto simp: lib_ok_def new_child_def)

lemma indent_flag_child [simp]: "lib_ok lib cn \<Longrightarrow> indent ws k (flag_child cn b) = flag_child cn b"
  by (simp add: flag_child_def)

lemma indent_opt_child: "lib_ok lib cn \<Longrightarrow> text_ok t \<Longrightarrow> map (indent ws k) (opt_child cn nm t) = opt_child cn nm t"
  by (cases t) simp_all

lemma opt_child_elems [simp]: "list_all (\<lambda>c. xtype c = XML_ELEMENT_NODE) (opt_child cn nm t)"
  by (cases t) simp_all

lemma ifc_text:
  assumes "ifc_ok ifc"
  shows "text_ok (ifc_note ifc)" "text_ok (ifc_params ifc)" "text_ok (ifc_direction ifc)" "text_ok (ifc_type ifc)"
  using assms by (auto simp: ifc_ok_def text_ok_def split: option.split)

lemma interface_padded:
  assumes "lib_ok lib cn" "ifc_ok ifc"
  shows "padded (xchildren (indent ws k (backup_interface cn ifc))) (xchildren (backup_interface cn ifc))"
proof -
  have "map (indent ws (Suc k)) (xchildren (backup_interface cn ifc)) = xchildren (backup_interface cn ifc)"
    using ifc_text[OF assms(2)] assms(1) by (simp add: backup_interface_def indent_opt_child)
  moreover have "list_all (\<lambda>c. xtype c = XML_ELEMENT_NODE) (xchildren (backup_interface cn ifc))" by (simp add: backup_interface_def)
  ultimately show ?thesis using indent_children[of "backup_interface cn ifc" ws k] by simp
qed

lemma interface_accepted:
  assumes "lib_ok lib cn" "ifc_ok ifc"
  shows "xchildren (backup_interface cn ifc) \<noteq> [] \<and> reload_check_interface_element lib (xchildren (backup_interface cn ifc))"
proof
  show "xchildren (backup_interface cn ifc) \<noteq> []"
    using assms(2) by (auto simp: backup_interface_def ifc_ok_def split: option.split)
  show "reload_check_interface_element lib (xchildren (backup_interface cn ifc))"
    using assms ifc_text[OF assms(2)]
    by (cases "ifc_note ifc"; cases "ifc_params ifc"; cases "ifc_direction ifc"; cases "ifc_type ifc")
      (auto simp: backup_interface_def reload_check_interface_element_def value_rule_def any_rule_def value_new_child ifc_ok_def)
qed

lemma interfaces_accepted:
  "lib_ok lib cn \<Longrightarrow> list_all ifc_ok js \<Longrightarrow> check_interfaces lib (map (\<lambda>j. indent ws k (backup_interface cn j)) js)"
proof (induction js)
  case (Cons j js)
  then have "reload_check_interface_element lib (xchildren (indent ws k (backup_interface cn j)))"
    using interface_accepted[of lib cn j] padded_check_element(1)[OF interface_padded[of lib cn j ws k]] by simp
  then show ?case using Cons interface_accepted[of lib cn j] by (simp add: is_elem_def indent_empty)
qed simp

text \<open>The children of a module in the file.\<close>

definition file_children :: "(string \<Rightarrow> xml_node list) \<Rightarrow> (nat \<Rightarrow> string) \<Rightarrow> nat \<Rightarrow> running_module \<Rightarrow> xml_node list" where
  "file_children cn ws k m = module_leaves cn m @ map (indent ws k) (backup_trapinterfaces cn m)"

lemma module_padded:
  assumes "lib_ok lib cn" "backup_ok_module m"
  shows "padded (xchildren (indent ws k (backup_module cn m))) (file_children cn ws (Suc k) m)"
proof -
  have "list_all (\<lambda>c. xtype c = XML_ELEMENT_NODE) (xchildren (backup_module cn m))"
    by (simp add: backup_module_def module_leaves_def backup_trapinterfaces_def)
  moreover have "map (indent ws (Suc k)) (module_leaves cn m) = module_leaves cn m"
    using assms by (simp add: module_leaves_def indent_opt_child backup_ok_module_def)
  ultimately show ?thesis
    using indent_children[of "backup_module cn m" ws k] by (simp add: file_children_def) (simp add: backup_module_def)
qed

lemma trapinterfaces_padded:
  assumes "e \<in> set (backup_trapinterfaces cn m)"
  shows "padded (xchildren (indent ws k e)) (map (\<lambda>j. indent ws (Suc k) (backup_interface cn j)) (saved_ifces m))"
proof -
  have "xchildren e = map (backup_interface cn) (saved_ifces m)" using assms by (auto simp: backup_trapinterfaces_def split: if_splits)
  with indent_children[of e ws k] show ?thesis by (simp add: list_all_iff comp_def)
qed

lemma module_accepted:
  assumes "lib_ok lib cn" "backup_ok_module m" "module_name m = Some nm" "nm \<notin> set names"
  shows "reload_check_module_element lib (xchildren (indent ws k (backup_module cn m))) names = Some (names @ [nm])"
    "check_trapinterfaces lib (xchildren (indent ws k (backup_module cn m)))" "xchildren (indent ws k (backup_module cn m)) \<noteq> []"
proof -
  obtain p where p: "module_path m = Some p" using assms(2) by (auto simp: backup_ok_module_def)
  have t: "plain_text nm" "plain_text p" "text_ok (module_params m)"
    using assms(2,3) p by (auto simp: backup_ok_module_def)
  note pad = module_padded[OF assms(1,2), of ws k]
  have "reload_check_module_element lib (file_children cn ws (Suc k) m) names = Some (names @ [nm])"
    using assms t p by (cases "module_params m")
      (auto simp: file_children_def module_leaves_def backup_trapinterfaces_def reload_check_module_element_def module_rules_def
        unique_rule_def value_rule_def any_rule_def bool_value_def value_new_child value_flag)
  then show "reload_check_module_element lib (xchildren (indent ws k (backup_module cn m))) names = Some (names @ [nm])"
    using padded_check_element(2)[OF pad] by simp
  have "list_all ifc_ok (saved_ifces m)" using assms(2) by (simp add: backup_ok_module_def)
  then have "check_interfaces lib (xchildren (indent ws (Suc k) e))" if "e \<in> set (backup_trapinterfaces cn m)" for e
    using padded_check_interfaces[OF trapinterfaces_padded[OF that]] interfaces_accepted[OF assms(1)] by simp
  then have "check_trapinterfaces lib (file_children cn ws (Suc k) m)"
    using t p assms(3) by (cases "module_params m")
      (auto simp: check_trapinterfaces_def file_children_def module_leaves_def is_elem_def list_all_iff)
  then show "check_trapinterfaces lib (xchildren (indent ws k (backup_module cn m)))" using padded_check_trapinterfaces[OF pad] by simp
  show "xchildren (indent ws k (backup_module cn m)) \<noteq> []" by (simp add: indent_empty) (simp add: backup_module_def module_leaves_def)
qed

lemma modules_accepted:
  "lib_ok lib cn \<Longrightarrow> list_all backup_ok_module ms \<Longrightarrow> distinct (names @ map mod_key ms) \<Longrightarrow>
     check_modules lib (map (\<lambda>m. indent ws k (backup_module cn m)) ms) names = Some (names @ map mod_key ms)"
proof (induction ms arbitrary: names)
  case (Cons m ms)
  then obtain nm where nm: "module_name m = Some nm" by (auto simp: backup_ok_module_def)
  have "nm \<notin> set names" using Cons.prems(3) nm by (auto simp: mod_key_def)
  note a = module_accepted[OF Cons.prems(1) _ nm this]
  have "check_modules lib (map (\<lambda>m. indent ws k (backup_module cn m)) ms) (names @ [nm]) = Some ((names @ [nm]) @ map mod_key ms)"
    using Cons nm by (intro Cons.IH) (auto simp: mod_key_def)
  then show ?case using Cons.prems(2) a nm by (simp add: is_elem_def mod_key_def)
qed simp

lemma repeatable_pass:
  "\<forall>n \<in> set ns. xtype n = XML_ELEMENT_NODE \<and> xname n = ''module'' \<Longrightarrow>
     check_elements (modules_rules lib) [''module''] seen ns st = Some (st, seen)"
  by (induction ns) (simp_all add: modules_rules_def)

text \<open>The children of a profile in the file.\<close>

definition profile_children :: "(string \<Rightarrow> xml_node list) \<Rightarrow> sup \<Rightarrow> (nat \<Rightarrow> string) \<Rightarrow> nat \<Rightarrow> modules_profile \<Rightarrow> xml_node list" where
  "profile_children cn s ws k p =
     [new_child cn ''name'' (profile_name p), flag_child cn (profile_enabled p)] @
     map (\<lambda>m. indent ws k (backup_module cn m)) (modules_named s (profile_name p))"

lemma profile_padded:
  assumes "lib_ok lib cn" "plain_text (profile_name p)"
  shows "padded (xchildren (indent ws k (backup_profile cn s p))) (profile_children cn s ws (Suc k) p)"
proof -
  have "list_all (\<lambda>c. xtype c = XML_ELEMENT_NODE) (xchildren (backup_profile cn s p))" by (simp add: backup_profile_def list_all_iff)
  with indent_children[of "backup_profile cn s p" ws k] show ?thesis
    using assms by (simp add: profile_children_def) (simp add: backup_profile_def comp_def)
qed

lemma profile_accepted:
  assumes "lib_ok lib cn" "plain_text (profile_name p)" "profile_name p \<notin> set pnames"
  shows "reload_check_modules_element lib (xchildren (indent ws k (backup_profile cn s p))) pnames = Some (pnames @ [profile_name p])"
proof -
  have "check_elements (modules_rules lib) [''module''] [] (profile_children cn s ws (Suc k) p) pnames =
      Some (pnames @ [profile_name p], [''enabled'', ''name''])"
    using assms repeatable_pass[of "map (\<lambda>m. indent ws (Suc k) (backup_module cn m)) (modules_named s (profile_name p))" lib "[''enabled'', ''name'']"]
    by (simp add: profile_children_def modules_rules_def unique_rule_def value_rule_def bool_value_def value_new_child value_flag)
  then show ?thesis using padded_check_element(3)[OF profile_padded[OF assms(1,2)]] by (simp add: reload_check_modules_element_def)
qed

lemma profiles_accepted:
  "lib_ok lib cn \<Longrightarrow> list_all (\<lambda>p. plain_text (profile_name p)) ps \<Longrightarrow> distinct (pn @ map profile_name ps) \<Longrightarrow>
     \<forall>p \<in> set ps. list_all backup_ok_module (modules_named s (profile_name p)) \<Longrightarrow>
     distinct (mn @ map mod_key (concat (map (\<lambda>p. modules_named s (profile_name p)) ps))) \<Longrightarrow>
     check_root_children lib False (map (\<lambda>p. indent ws k (backup_profile cn s p)) ps) pn mn =
       Some (pn @ map profile_name ps, mn @ map mod_key (concat (map (\<lambda>p. modules_named s (profile_name p)) ps)))"
proof (induction ps arbitrary: pn mn)
  case (Cons p ps)
  let ?ms = "modules_named s (profile_name p)" and ?e = "indent ws k (backup_profile cn s p)"
  have pl: "plain_text (profile_name p)" "profile_name p \<notin> set pn" using Cons.prems by auto
  have "check_modules lib (xchildren ?e) mn = check_modules lib (map (\<lambda>m. indent ws (Suc k) (backup_module cn m)) ?ms) mn"
    using padded_check_modules[OF profile_padded[OF Cons.prems(1) pl(1)]] by (simp add: profile_children_def is_elem_def)
  also have "\<dots> = Some (mn @ map mod_key ?ms)"
    using Cons.prems by (intro modules_accepted) auto
  finally have m: "check_modules lib (xchildren ?e) mn = Some (mn @ map mod_key ?ms)" .
  have "check_root_children lib False (map (\<lambda>p. indent ws k (backup_profile cn s p)) ps) (pn @ [profile_name p]) (mn @ map mod_key ?ms) =
      Some ((pn @ [profile_name p]) @ map profile_name ps,
        (mn @ map mod_key ?ms) @ map mod_key (concat (map (\<lambda>p. modules_named s (profile_name p)) ps)))"
    using Cons.prems by (intro Cons.IH) auto
  then show ?case
    using m profile_accepted[OF Cons.prems(1) pl, of ws k s] by (simp add: is_elem_def indent_empty) (simp add: backup_profile_def)
qed simp

lemma distinct_groups:
  assumes "distinct (map f xs)" "distinct ks" "\<And>k k' x. k \<in> set ks \<Longrightarrow> k' \<in> set ks \<Longrightarrow> k \<noteq> k' \<Longrightarrow> P k x \<Longrightarrow> \<not> P k' x"
  shows "distinct (map f (concat (map (\<lambda>k. filter (P k) xs) ks)))"
  using assms(2,3)
proof (induction ks)
  case (Cons k ks)
  have inj: "inj_on f (set xs)" using assms(1) by (simp add: distinct_map)
  have ne: "f x \<noteq> f y" if "x \<in> set xs" "P k x" "y \<in> set xs" "k' \<in> set ks" "P k' y" for x y k'
  proof
    assume "f x = f y"
    then have "x = y" using inj that(1,3) by (simp add: inj_onD)
    then show False using Cons.prems(1) Cons.prems(2)[of k k' x] that by auto
  qed
  have "distinct (map f (concat (map (\<lambda>k. filter (P k) xs) ks)))"
    using Cons.prems by (intro Cons.IH) auto
  moreover have "distinct (map f (filter (P k) xs))" using assms(1) by (rule distinct_map_filter)
  ultimately show ?case using ne by (auto simp del: distinct_map)
qed simp

lemma backed_up_distinct:
  assumes "wf_sup s" "backup_ok s"
  shows "distinct (map mod_key (backed_up s))" "list_all backup_ok_module (backed_up s)"
proof -
  have nm: "\<forall>m \<in> set (loaded s). module_name m = Some (mod_key m)"
    using assms(1) by (auto simp: wf_sup_def list_all_iff mod_key_def)
  then have "map module_name (loaded s) = map Some (map mod_key (loaded s))" by simp
  moreover have "distinct (map module_name (loaded s))" using assms(1) by (simp add: wf_sup_def)
  ultimately have d: "distinct (map mod_key (loaded s))" using distinct_map[of Some] by metis
  have "backed_up s = concat (map (\<lambda>nm. filter (in_profile s nm) (loaded s)) (map profile_name (profiles s)))"
    by (simp add: backed_up_def modules_named_def comp_def)
  moreover have "distinct (map profile_name (profiles s))" using assms(2) by (simp add: backup_ok_def)
  moreover have "k \<noteq> k' \<Longrightarrow> in_profile s k m \<Longrightarrow> \<not> in_profile s k' m" for k k' m
    by (auto simp: in_profile_def split: option.splits)
  ultimately show "distinct (map mod_key (backed_up s))" using distinct_groups[OF d, of _ "in_profile s"] by metis
  show "list_all backup_ok_module (backed_up s)"
    using assms(2) by (auto simp: backed_up_def modules_named_def backup_ok_def list_all_iff)
qed

lemma root_padded:
  "padded (xchildren (indent ws 0 (generate_backup_config_file cn d sock s))) (map (\<lambda>p. indent ws 1 (backup_profile cn s p)) (profiles s))"
  using indent_children[of "generate_backup_config_file cn d sock s" ws 0]
  by (simp add: generate_backup_config_file_def list_all_iff comp_def)

lemma backup_accepted:
  assumes "wf_sup s" "backup_ok s" "lib_ok lib cn"
  shows "validate_configuration lib (Some (indent ws 0 (generate_backup_config_file cn d sock s)))"
proof -
  have "check_root_children lib False (map (\<lambda>p. indent ws 1 (backup_profile cn s p)) (profiles s)) [] [] =
      Some (map profile_name (profiles s), map mod_key (backed_up s))"
    using profiles_accepted[OF assms(3), of "profiles s" "[]" s "[]"] assms(2) backed_up_distinct[OF assms(1,2)]
    by (auto simp: backup_ok_def backed_up_def list_all_iff)
  then have "check_root_children lib False (xchildren (indent ws 0 (generate_backup_config_file cn d sock s))) [] [] \<noteq> None"
    using padded_check_root[OF root_padded] by simp
  moreover have "xname (generate_backup_config_file cn d sock s) = ''nemea-supervisor''" "xchildren (generate_backup_config_file cn d sock s) \<noteq> []"
    using assms(2) by (simp_all add: generate_backup_config_file_def backup_ok_def)
  ultimately show ?thesis by (simp add: validate_configuration_def indent_empty)
qed

subsection \<open>Loading the document restores the modules\<close>

text \<open>A slot no module has been written to.\<close>

definition blank :: "running_module \<Rightarrow> bool" where
  "blank m \<longleftrightarrow> module_params m = None \<and> config_ifces_cnt m = 0 \<and> list_all (\<lambda>i. i = zero_interface) (config_ifces m) \<and>
     \<not> module_modified_by_reload m"

lemma blank_fresh [simp]: "blank fresh_module"
  by (simp add: blank_def fresh_module_def zero_module_def list_all_iff)

lemma blank_reset [simp]: "blank (reset_module m) = (module_params m = None \<and> config_ifces_cnt m = 0 \<and>
    list_all (\<lambda>i. i = zero_interface) (config_ifces m))"
  by (simp add: blank_def reset_module_def)

lemma ensure_adds_zero:
  assumes "ifces_arr_ok m" "config_ifces_cnt m = 0"
  shows "\<exists>k n. reload_check_module_allocated_interfaces c m =
    m\<lparr>config_ifces := config_ifces m @ replicate k zero_interface, config_ifces_arr_size := n\<rparr>"
proof -
  define n where "n = config_ifces_arr_size m"
  have l: "n = 0 \<Longrightarrow> config_ifces m = []" "m = m\<lparr>config_ifces_cnt := 0\<rparr>" using assms by (auto simp: ifces_arr_ok_def n_def)
  have "reload_check_module_allocated_interfaces c m =
     (let k = (if n = 0 then IFCES_ARRAY_START_SIZE else if n = c then n div 2 else 0)
      in m\<lparr>config_ifces := config_ifces m @ replicate k zero_interface, config_ifces_arr_size := n + k\<rparr>)"
    using l by (cases m) (auto simp: reload_check_module_allocated_interfaces_def n_def Let_def)
  then show ?thesis unfolding Let_def by blast
qed

lemma insert_restores:
  "lib_ok lib cn \<Longrightarrow> ifc_ok ifc \<Longrightarrow>
     ifc_fields (ifc_insert lib (xchildren (indent ws k (backup_interface cn ifc))) zero_interface) = ifc_fields ifc"
  using ifc_text[of ifc] padded_ifc_insert[OF interface_padded[of lib cn ifc ws k]]
  by (cases "ifc_note ifc"; cases "ifc_params ifc"; cases "ifc_direction ifc"; cases "ifc_type ifc")
    (simp_all add: backup_interface_def value_new_child ifc_fields_def zero_interface_def)

lemma ifc_loop_restores:
  "lib_ok lib cn \<Longrightarrow> list_all ifc_ok js \<Longrightarrow> ifces_arr_ok m \<Longrightarrow> c \<le> config_ifces_arr_size m \<Longrightarrow>
     config_ifces_cnt m = 0 \<Longrightarrow> list_all (\<lambda>i. i = zero_interface) (drop c (config_ifces m)) \<Longrightarrow>
     \<exists>xs n. ifc_loop lib ch True (map (\<lambda>j. indent ws k (backup_interface cn j)) js) c m =
         ((m\<lparr>config_ifces := xs, config_ifces_arr_size := n\<rparr>, True), c + length js) \<and>
       map ifc_fields (take (c + length js) xs) = map ifc_fields (take c (config_ifces m)) @ map ifc_fields js"
proof (induction js arbitrary: c m)
  case Nil
  have "m = m\<lparr>config_ifces := config_ifces m, config_ifces_arr_size := config_ifces_arr_size m\<rparr>" by simp
  then show ?case by (intro exI[of _ "config_ifces m"] exI[of _ "config_ifces_arr_size m"]) simp
next
  case (Cons j js)
  from ensure_adds_zero[OF Cons.prems(3,5)] obtain l n where
    e: "reload_check_module_allocated_interfaces c m =
      m\<lparr>config_ifces := config_ifces m @ replicate l zero_interface, config_ifces_arr_size := n\<rparr>" by blast
  define ys where "ys = config_ifces m @ replicate l zero_interface"
  note sh = ensure_ifces_shape(2,3)[OF Cons.prems(3,4), unfolded e, folded ys_def]
  have len: "c \<le> length (config_ifces m)" "c < length ys" using Cons.prems(3,4) sh by (simp_all add: ifces_arr_ok_def)
  have z: "list_all (\<lambda>i. i = zero_interface) (drop c ys)" using Cons.prems(6) len(1) by (auto simp: ys_def list_all_iff)
  then have yc: "ys ! c = zero_interface" using len(2) by (simp add: Cons_nth_drop_Suc[symmetric])
  define zs where "zs = ys[c := ifc_insert lib (xchildren (indent ws k (backup_interface cn j))) zero_interface]"
  let ?m = "m\<lparr>config_ifces := zs, config_ifces_arr_size := n\<rparr>"
  have "drop (Suc c) zs = drop (Suc c) ys" by (simp add: zs_def)
  then have "list_all (\<lambda>i. i = zero_interface) (drop (Suc c) zs)"
    using z set_drop_subset_set_drop[of c "Suc c" ys] by (auto simp: list_all_iff)
  moreover have "ifces_arr_ok ?m" "Suc c \<le> config_ifces_arr_size ?m" using sh by (simp_all add: ifces_arr_ok_def zs_def)
  ultimately obtain xs n' where IH:
    "ifc_loop lib ch True (map (\<lambda>j. indent ws k (backup_interface cn j)) js) (Suc c) ?m =
       ((?m\<lparr>config_ifces := xs, config_ifces_arr_size := n'\<rparr>, True), Suc c + length js)"
    "map ifc_fields (take (Suc c + length js) xs) = map ifc_fields (take (Suc c) zs) @ map ifc_fields js"
    using Cons.IH[of ?m "Suc c"] Cons.prems(1,2,5) by auto
  have "map ifc_fields (take (Suc c) zs) = map ifc_fields (take c (config_ifces m)) @ [ifc_fields j]"
    using len Cons.prems(1,2) by (simp add: zs_def take_Suc_conv_app_nth insert_restores) (simp add: ys_def)
  moreover have "ifc_loop lib ch True (map (\<lambda>j. indent ws k (backup_interface cn j)) (j # js)) c m =
      ifc_loop lib ch True (map (\<lambda>j. indent ws k (backup_interface cn j)) js) (Suc c) (m\<lparr>config_ifces_arr_size := n, config_ifces := zs\<rparr>)"
    using e yc by (simp add: ys_def[symmetric] Let_def zs_def)
  moreover have "m\<lparr>config_ifces_arr_size := n, config_ifces := zs\<rparr> = ?m" by simp
  ultimately show ?case using IH by (intro exI[of _ xs] exI[of _ n']) (simp del: ifc_loop.simps)
qed

lemma trapinterfaces_restores:
  assumes "lib_ok lib cn" "list_all ifc_ok js" "wf_ifces m" "config_ifces_cnt m = 0" "list_all (\<lambda>i. i = zero_interface) (config_ifces m)"
    "padded cs (map (\<lambda>j. indent ws k (backup_interface cn j)) js)"
  shows "\<exists>xs n. reload_trapinterfaces lib True cs m True =
      (m\<lparr>config_ifces := xs, config_ifces_arr_size := n, config_ifces_cnt := length js\<rparr>, True) \<and>
    map ifc_fields (take (length js) xs) = map ifc_fields js"
proof -
  obtain xs n where l: "ifc_loop lib cs True (map (\<lambda>j. indent ws k (backup_interface cn j)) js) 0 m =
      ((m\<lparr>config_ifces := xs, config_ifces_arr_size := n\<rparr>, True), length js)" "map ifc_fields (take (length js) xs) = map ifc_fields js"
    using ifc_loop_restores[OF assms(1,2), of m 0 cs ws k] assms(3-5) by (auto simp: wf_ifces_arr)
  then show ?thesis
    using padded_ifc_loop[OF assms(6), of lib cs 0 m cs] by (intro exI[of _ xs] exI[of _ n]) (simp add: reload_trapinterfaces_def)
qed

lemma strncmp_flags [simp]: "strncmp_eq ''true'' ''true''" "\<not> strncmp_eq ''true'' ''false''"
  by (simp_all add: strncmp_eq_def)

lemma new_child_cases:
  assumes "lib_ok lib cn" "plain_text t"
  shows "process_module_child lib True (new_child cn ''name'' t) (m, ins) = (m\<lparr>module_name := Some t\<rparr>, ins)"
    "\<not> module_modified_by_reload m \<Longrightarrow>
       process_module_child lib True (new_child cn ''path'' t) (m, ins) = (m\<lparr>module_path := Some t\<rparr>, ins)"
    "\<not> module_modified_by_reload m \<Longrightarrow>
       process_module_child lib True (new_child cn ''params'' t) (m, ins) = (m\<lparr>module_params := Some t\<rparr>, ins)"
  using value_new_child[OF assms] by (simp_all add: process_module_child_def reload_process_module_atribute_def)

lemma flag_child_case:
  assumes "lib_ok lib cn"
  shows "\<exists>n. process_module_child lib True (flag_child cn b) (m, ins) = (m\<lparr>module_enabled := b, module_restart_cnt := n\<rparr>, ins)"
proof -
  have "process_module_child lib True (flag_child cn b) (m, ins) =
      (m\<lparr>module_enabled := b, module_restart_cnt := if b then -1 else module_restart_cnt m\<rparr>, ins)"
    using value_flag[OF assms, of b]
    by (simp add: process_module_child_def reload_resolve_module_enabled_def Let_def)
  then show ?thesis by blast
qed

text \<open>A module element of the backup, applied to a blank slot.\<close>

definition restored :: "running_module \<Rightarrow> running_module \<Rightarrow> bool" where
  "restored m r \<longleftrightarrow> saved r = saved m \<and> \<not> module_modified_by_reload r"

lemma children_restore:
  assumes "lib_ok lib cn" "backup_ok_module m" "blank b" "wf_ifces b" "module_pid b = module_pid m"
  shows "\<exists>r. process_module_children lib True (xchildren (indent ws k (backup_module cn m))) (b, True) = (r, True) \<and> restored m r"
proof -
  let ?cs = "file_children cn ws (Suc k) m"
  note pad = padded_children[OF module_padded[OF assms(1,2), of ws k]]
  obtain nm p where np: "module_name m = Some nm" "module_path m = Some p" "plain_text nm" "plain_text p"
    using assms(2) by (auto simp: backup_ok_module_def)
  let ?b1 = "b\<lparr>module_name := Some nm, module_path := Some p, module_params := module_params m\<rparr>"
  have nb: "\<not> module_modified_by_reload b" "module_params b = None" using assms(3) by (simp_all add: blank_def)
  have 1: "process_module_children lib True (opt_child cn ''name'' (module_name m) @ opt_child cn ''path'' (module_path m) @
      opt_child cn ''params'' (module_params m)) (b, True) = (?b1, True)"
    using assms(1,2) np nb by (cases "module_params m")
      (auto simp: process_module_children_def new_child_cases backup_ok_module_def)
  from flag_child_case[OF assms(1), of "module_enabled m" ?b1 True] obtain n where
    2: "process_module_child lib True (flag_child cn (module_enabled m)) (?b1, True) =
      (?b1\<lparr>module_enabled := module_enabled m, module_restart_cnt := n\<rparr>, True)" by blast
  let ?b2 = "?b1\<lparr>module_enabled := module_enabled m, module_restart_cnt := n\<rparr>"
  have sv: "list_all ifc_ok (saved_ifces m)" "length (saved_ifces m) = config_ifces_cnt m"
    using assms(2) by (auto simp: backup_ok_module_def saved_ifces_def)
  show ?thesis
  proof (cases "config_ifces_cnt m = 0")
    case True
    then have "process_module_children lib True ?cs (b, True) = (?b2, True)"
      using 1 2 by (simp add: file_children_def module_leaves_def backup_trapinterfaces_def process_module_children_def)
    moreover have "restored m ?b2"
      using nb assms(3,5) np True by (simp add: restored_def saved_def saved_ifces_def blank_def)
    ultimately show ?thesis unfolding pad by blast
  next
    case False
    have ok: "wf_ifces ?b2" "config_ifces_cnt ?b2 = 0" "list_all (\<lambda>i. i = zero_interface) (config_ifces ?b2)"
      using assms(3,4) by (simp_all add: blank_def wf_ifces_def)
    let ?t = "Xml_Node XML_ELEMENT_NODE ''trapinterfaces'' (map (backup_interface cn) (saved_ifces m)) [] []"
    have tr: "backup_trapinterfaces cn m = [?t]" using False by (simp add: backup_trapinterfaces_def)
    from trapinterfaces_restores[OF assms(1) sv(1) ok trapinterfaces_padded[of ?t cn m ws "Suc k"]] tr obtain xs l where
      3: "reload_trapinterfaces lib True (xchildren (indent ws (Suc k) ?t)) ?b2 True =
        (?b2\<lparr>config_ifces := xs, config_ifces_arr_size := l, config_ifces_cnt := config_ifces_cnt m\<rparr>, True)"
      "map ifc_fields (take (config_ifces_cnt m) xs) = map ifc_fields (saved_ifces m)" unfolding sv(2) by auto
    let ?b3 = "?b2\<lparr>config_ifces := xs, config_ifces_arr_size := l, config_ifces_cnt := config_ifces_cnt m\<rparr>"
    have "process_module_children lib True ?cs (b, True) = process_module_child lib True (indent ws (Suc k) ?t) (?b2, True)"
      using 1 2 tr by (simp add: file_children_def module_leaves_def process_module_children_def del: indent.simps)
    also have "\<dots> = (?b3, True)" using 3(1) by (simp add: process_module_child_def del: indent.simps)
    finally have "process_module_children lib True ?cs (b, True) = (?b3, True)" .
    moreover have "restored m ?b3"
      using nb assms(5) np 3(2) by (simp add: restored_def saved_def saved_ifces_def)
    ultimately show ?thesis unfolding pad by blast
  qed
qed

text \<open>Every step of the loops adds one module to the loaded ones and leaves the slots behind them blank.\<close>

definition restoring :: "running_module list \<Rightarrow> sup \<Rightarrow> bool" where
  "restoring ms s \<longleftrightarrow> sup_inv start_ok s \<and> list_all2 restored ms (loaded s) \<and>
     list_all blank (drop (loaded_modules_cnt s) (running_modules s))"

lemma restored_extra:
  "restored m (reload_count_module_interfaces r) = restored m r"
  "restored m (r\<lparr>module_profile := p\<rparr>) = restored m r"
proof -
  have "map ifc_fields (saved_ifces (reload_count_module_interfaces r)) = map ifc_fields (saved_ifces r)"
    by (simp add: saved_ifces_def reload_count_module_interfaces_def comp_def ifc_fields_def take_map min_def)
  then show "restored m (reload_count_module_interfaces r) = restored m r"
    by (simp add: restored_def saved_def reload_count_module_interfaces_def)
  show "restored m (r\<lparr>module_profile := p\<rparr>) = restored m r" by (simp add: restored_def saved_def saved_ifces_def)
qed

lemma restoring_check:
  assumes "restoring ms s"
  shows "restoring ms (check_running_modules_allocated_memory s)"
    "loaded_modules_cnt (check_running_modules_allocated_memory s) < running_modules_array_size (check_running_modules_allocated_memory s)"
proof -
  have w: "sup_inv start_ok s" "wf_sup s" using assms by (simp_all add: restoring_def sup_inv_def)
  show "loaded_modules_cnt (check_running_modules_allocated_memory s) < running_modules_array_size (check_running_modules_allocated_memory s)"
    by (rule at_start.sup_inv_check[OF w(1)])
  show "restoring ms (check_running_modules_allocated_memory s)"
    using at_start.sup_inv_check(1)[OF w(1)] loaded_check[OF w(2)] assms w(2)
    by (auto simp: restoring_def check_running_modules_allocated_memory_def wf_sup_def list_all_iff Let_def)
qed

lemma apply_restores:
  assumes "lib_ok lib cn" "backup_ok_module m" "restoring ms s" "loaded_modules_cnt s < running_modules_array_size s"
    "new_module v" "module_ifc_insert v" "found_ok lib s s v (indent ws k (backup_module cn m)) (loaded_modules_cnt s) key"
    "profile_in pr (length (profiles s))"
  shows "restoring (ms @ [m]) (apply_module lib RELOAD_INIT_LOAD_CONFIG pr (indent ws k (backup_module cn m)) (loaded_modules_cnt s) v s)"
    "profiles (apply_module lib RELOAD_INIT_LOAD_CONFIG pr (indent ws k (backup_module cn m)) (loaded_modules_cnt s) v s) = profiles s"
proof -
  have w: "sup_inv start_ok s" "wf_sup s" "list_all2 restored ms (loaded s)"
    "list_all blank (drop (loaded_modules_cnt s) (running_modules s))"
    using assms(3) by (simp_all add: restoring_def sup_inv_def)
  let ?c = "loaded_modules_cnt s" and ?e = "indent ws k (backup_module cn m)"
  let ?b = "running_modules s ! ?c" and ?s = "apply_module lib RELOAD_INIT_LOAD_CONFIG pr ?e ?c v s"
  have c: "?c < length (running_modules s)" using assms(4) w(2) by (simp add: wf_sup_def)
  have b: "blank ?b" using w(4) c by (simp add: Cons_nth_drop_Suc[symmetric])
  have wb: "wf_ifces ?b" using sup_inv_slot(1)[OF w(1) assms(4)] .
  have "get_prop lib ?e ''module_pid'' = Some (print_int (module_pid m))" using assms(1) by (simp add: lib_ok_def) (simp add: backup_module_def)
  moreover have "atoi (print_int (module_pid m)) = module_pid m" using assms(2) by (intro atoi_print_int) (simp_all add: backup_ok_module_def)
  ultimately have p: "restore_pid lib RELOAD_INIT_LOAD_CONFIG ?e (?b\<lparr>module_checked_by_reload := True\<rparr>) =
      ?b\<lparr>module_checked_by_reload := True, module_pid := module_pid m\<rparr>" by (simp add: restore_pid_def)
  obtain r where r: "process_module_children lib True (xchildren ?e) (?b\<lparr>module_checked_by_reload := True, module_pid := module_pid m\<rparr>, True) =
      (r, True)" "restored m r"
    using children_restore[OF assms(1,2), of "?b\<lparr>module_checked_by_reload := True, module_pid := module_pid m\<rparr>" ws k] b wb
    by (auto simp: blank_def wf_ifces_def)
  define m3 where "m3 = (case pr of None \<Rightarrow> reload_count_module_interfaces r
    | Some p \<Rightarrow> (reload_count_module_interfaces r)\<lparr>module_profile := Some p\<rparr>)"
  have a: "?s = (set_module ?c m3 s)\<lparr>loaded_modules_cnt := ?c + 1\<rparr>"
    using assms(5,6) p r(1) by (simp add: apply_module_def m3_def Let_def)
  have "restored m m3" using r(2) by (simp add: m3_def restored_extra split: option.split)
  moreover have "loaded ?s = loaded s @ [m3]" using loaded_append[OF w(2) refl assms(4)] a by simp
  moreover have "drop (Suc ?c) (running_modules ?s) = drop (Suc ?c) (running_modules s)" using a by (simp add: set_module_def)
  then have "list_all blank (drop (loaded_modules_cnt ?s) (running_modules ?s))"
    using w(4) c a by (simp add: Cons_nth_drop_Suc[symmetric])
  moreover have "sup_inv start_ok ?s" by (rule at_start.sup_inv_apply(1)[OF w(1) assms(4,7,8)])
  ultimately show "restoring (ms @ [m]) ?s" using w(3) by (simp add: restoring_def list_all2_appendI)
  show "profiles ?s = profiles s" by (rule at_start.sup_inv_apply(2)[OF w(1) assms(4,7,8)])
qed

lemma backup_usable:
  assumes "lib_ok lib cn" "backup_ok_module m" "module_name m = Some nm"
  shows "usable lib (xchildren (indent ws k (backup_module cn m))) nm"
proof -
  obtain p where p: "module_path m = Some p" using assms(2) by (auto simp: backup_ok_module_def)
  then have "plain_text nm" "plain_text p" using assms(2,3) by (auto simp: backup_ok_module_def)
  then have "usable lib (file_children cn ws (Suc k) m) nm"
    using assms p by (cases "module_params m")
      (auto simp: file_children_def module_leaves_def backup_trapinterfaces_def usable_def value_new_child)
  then show ?thesis using padded_named_values[OF module_padded[OF assms(1,2), of ws k]] by (simp add: usable_def)
qed

lemma restored_names: "list_all2 restored ms rs \<Longrightarrow> map module_name rs = map module_name ms"
  by (induction rule: list_all2_induct) (simp_all add: restored_def saved_def)

lemma modules_loop_restores:
  "padded cs es \<Longrightarrow> filter (\<lambda>n. xname n = ''module'') es = map (\<lambda>m. indent ws k (backup_module cn m)) ms \<Longrightarrow> lib_ok lib cn \<Longrightarrow>
     list_all backup_ok_module ms \<Longrightarrow> restoring pre s \<Longrightarrow> distinct (map module_name (pre @ ms)) \<Longrightarrow> profile_in pr (length (profiles s)) \<Longrightarrow>
     restoring (pre @ ms) (fst (modules_loop lib RELOAD_INIT_LOAD_CONFIG pr cs v s)) \<and>
     profiles (fst (modules_loop lib RELOAD_INIT_LOAD_CONFIG pr cs v s)) = profiles s"
proof (induction arbitrary: ms pre v s rule: padded.induct)
  case (padded_elem cs es n)
  show ?case
  proof (cases "xname n = ''module''")
    case True
    with padded_elem.prems(1) obtain m ms' where ms: "ms = m # ms'" "n = indent ws k (backup_module cn m)"
      "filter (\<lambda>n. xname n = ''module'') es = map (\<lambda>m. indent ws k (backup_module cn m)) ms'" by (cases ms) auto
    define s1 where "s1 = check_running_modules_allocated_memory s"
    note s1 = restoring_check[OF padded_elem.prems(4), folded s1_def]
    have ps: "profiles s1 = profiles s" by (simp add: s1_def check_running_modules_allocated_memory_def Let_def)
    obtain nm where nm: "module_name m = Some nm" using padded_elem.prems(3) ms(1) by (auto simp: backup_ok_module_def)
    have "map module_name (loaded s1) = map module_name pre" using s1(1) restored_names by (simp add: restoring_def)
    then have "module_name ` set (loaded s1) = module_name ` set pre" by (metis list.set_map)
    then have none: "find_loaded_module s1 nm = None" using padded_elem.prems(5) nm ms(1) by (auto simp: find_loaded_module_None)
    have ok: "backup_ok_module m" using padded_elem.prems(3) ms(1) by simp
    note us = backup_usable[OF padded_elem.prems(2) ok nm, of ws k, folded ms(2)]
    from find_basic_usable[OF us, of s1 cs "new_module v" "module_ifc_insert v"] none
    obtain s2 v2 idx where
      r: "reload_find_and_check_module_basic_elements lib s1 (n # cs) (basic_start (new_module v) (module_ifc_insert v)) =
        Some ((s2, v2), n # cs)" and f: "found_ok lib s1 s2 v2 n idx nm" by (auto simp: not_yet_seen_def)
    have fo: "idx = loaded_modules_cnt s1" "s2 = s1" "new_module v2" "module_ifc_insert v2" "found_idx v2 = Some idx"
      using f none by (auto simp: found_ok_def)
    let ?s = "apply_module lib RELOAD_INIT_LOAD_CONFIG pr n (loaded_modules_cnt s1) v2 s1"
    have a: "restoring (pre @ [m]) ?s" "profiles ?s = profiles s1"
      using apply_restores[OF padded_elem.prems(2) ok s1 fo(3,4) f[unfolded fo(1,2) ms(2)], folded ms(2)] padded_elem.prems(6) ps
      by simp_all
    have "modules_loop lib RELOAD_INIT_LOAD_CONFIG pr (n # cs) v s = modules_loop lib RELOAD_INIT_LOAD_CONFIG pr cs v2 ?s"
      using r fo True by (simp add: s1_def[symmetric] Let_def)
    moreover have "restoring ((pre @ [m]) @ ms') (fst (modules_loop lib RELOAD_INIT_LOAD_CONFIG pr cs v2 ?s)) \<and>
        profiles (fst (modules_loop lib RELOAD_INIT_LOAD_CONFIG pr cs v2 ?s)) = profiles ?s"
      using padded_elem.prems a ps ms by (intro padded_elem.IH) auto
    ultimately show ?thesis using a(2) ps ms(1) by simp
  qed (use padded_elem in simp)
qed simp_all

lemma profile_restored:
  assumes "lib_ok lib cn" "plain_text (profile_name p)"
  shows "reload_find_and_check_modules_profile_basic_elements lib (xchildren (indent ws k (backup_profile cn s p))) = Some p"
proof -
  have skip: "profile_loop lib (map (\<lambda>m. indent ws l (backup_module cn m)) ms) nc nm ec en = ((nc, nm), (ec, en))" for ms nc nm ec en l
    by (induction ms) simp_all
  have "profile_loop lib (xchildren (indent ws k (backup_profile cn s p))) 0 [] 0 False =
      profile_loop lib (profile_children cn s ws (Suc k) p) 0 [] 0 False" by (rule padded_profile_loop[OF profile_padded[OF assms]])
  then show ?thesis
    using assms by (cases p) (simp add: reload_find_and_check_modules_profile_basic_elements_def profile_children_def
        value_new_child value_flag skip)
qed

lemma root_loop_restores:
  "lib_ok lib cn \<Longrightarrow> list_all (\<lambda>p. plain_text (profile_name p)) ps \<Longrightarrow>
     \<forall>p \<in> set ps. list_all backup_ok_module (modules_named s (profile_name p)) \<Longrightarrow> restoring pre t \<Longrightarrow>
     distinct (map module_name (pre @ concat (map (\<lambda>p. modules_named s (profile_name p)) ps))) \<Longrightarrow>
     restoring (pre @ concat (map (\<lambda>p. modules_named s (profile_name p)) ps))
       (root_loop lib RELOAD_INIT_LOAD_CONFIG (map (\<lambda>p. indent ws k (backup_profile cn s p)) ps) v t) \<and>
     profiles (root_loop lib RELOAD_INIT_LOAD_CONFIG (map (\<lambda>p. indent ws k (backup_profile cn s p)) ps) v t) = profiles t @ ps"
proof (induction ps arbitrary: pre v t)
  case (Cons p ps)
  let ?ms = "modules_named s (profile_name p)" and ?e = "indent ws k (backup_profile cn s p)"
  let ?t = "t\<lparr>profiles := profiles t @ [p], loaded_profile_cnt := loaded_profile_cnt t + 1\<rparr>"
  let ?loop = "modules_loop lib RELOAD_INIT_LOAD_CONFIG (Some (length (profiles t))) (xchildren ?e) v ?t"
  have pl: "plain_text (profile_name p)" using Cons.prems(2) by simp
  have "filter (\<lambda>n. xname n = ''module'') (profile_children cn s ws (Suc k) p) = map (\<lambda>m. indent ws (Suc k) (backup_module cn m)) ?ms"
    by (simp add: profile_children_def filter_map comp_def)
  moreover have "restoring pre ?t"
    using Cons.prems(4) at_start.sup_inv_add_profile[of t p] by (simp add: restoring_def loaded_def)
  moreover have "distinct (map module_name (pre @ ?ms))" using Cons.prems(5) by auto
  ultimately have l: "restoring (pre @ ?ms) (fst ?loop)" "profiles (fst ?loop) = profiles t @ [p]"
    using modules_loop_restores[OF profile_padded[OF Cons.prems(1) pl, of ws k s] _ Cons.prems(1), of ws "Suc k" ?ms pre ?t "Some (length (profiles t))" v]
      Cons.prems(3)
    by (simp_all add: profile_in_def)
  have "apply_modules_element lib RELOAD_INIT_LOAD_CONFIG ?e v t = ?loop"
    using profile_restored[OF Cons.prems(1) pl, of ws k s] by (simp add: apply_modules_element_def)
  then show ?case
    using Cons.IH[OF Cons.prems(1) _ _ l(1), of "snd ?loop"] Cons.prems(2,3,5) l(2) by (simp add: case_prod_unfold Let_def)
qed simp

lemma finish_restores:
  assumes "restoring ms s"
  shows "map saved (loaded (finish_reload RELOAD_INIT_LOAD_CONFIG 0 s)) = map saved ms"
proof -
  have "saved (init_restored RELOAD_INIT_LOAD_CONFIG (mark_modified r)) = saved m" if "restored m r" for m r
    using that by (simp add: restored_def saved_def saved_ifces_def init_restored_def mark_modified_def init_module_variables_def Let_def)
  then have "map (\<lambda>r. saved (init_restored RELOAD_INIT_LOAD_CONFIG (mark_modified r))) rs = map saved ms"
    if "list_all2 restored ms rs" for rs
    using that by (auto simp: list_all2_conv_all_nth intro: nth_equalityI)
  moreover have "loaded (finish_reload RELOAD_INIT_LOAD_CONFIG 0 s) =
      map (\<lambda>r. init_restored RELOAD_INIT_LOAD_CONFIG (mark_modified r)) (loaded s)"
    using assms by (simp add: finish_reload_def loaded_def map_first_def Let_def restoring_def sup_inv_def wf_sup_def comp_def)
  ultimately show ?thesis using assms by (simp add: restoring_def comp_def)
qed

lemma backup_restores:
  fixes d sock ws
  assumes "wf_sup s" "backup_ok s" "lib_ok lib cn" "sup_inv start_ok s0" "loaded_modules_cnt s0 = 0" "list_all blank (running_modules s0)"
  defines "s' \<equiv> fst (reload_document lib RELOAD_INIT_LOAD_CONFIG (Some (indent ws 0 (generate_backup_config_file cn d sock s))) s0)"
  shows "map saved (loaded s') = map saved (backed_up s)" "profiles s' = profiles s"
proof -
  let ?t = "root_loop lib RELOAD_INIT_LOAD_CONFIG (map (\<lambda>p. indent ws 1 (backup_profile cn s p)) (profiles s)) (basic_start False False) (reset_for_reload s0)"
  note b = backed_up_distinct[OF assms(1,2)]
  have "restoring [] (reset_for_reload s0)"
    using at_start.sup_inv_reset[OF assms(4)] assms(5,6)
    by (simp add: restoring_def loaded_def) (auto simp: reset_for_reload_def list_all_iff blank_def reset_module_def)
  moreover have "\<forall>m \<in> set (backed_up s). module_name m = Some (mod_key m)"
    using b(2) by (auto simp: list_all_iff backup_ok_module_def mod_key_def)
  then have "distinct (map module_name (backed_up s))" using b(1) by (auto simp: distinct_map inj_on_def)
  ultimately have r: "restoring (backed_up s) ?t" "profiles ?t = profiles s"
    using root_loop_restores[OF assms(3), of "profiles s" s "[]"] assms(2) b(2)
    by (auto simp: backed_up_def backup_ok_def list_all_iff reset_for_reload_def)
  have s': "s' = finish_reload RELOAD_INIT_LOAD_CONFIG 0 ?t"
    unfolding s'_def using backup_accepted[OF assms(1-3)] assms(5)
    by (simp add: reload_document_def apply_configuration_def padded_root_loop[OF root_padded])
  show "map saved (loaded s') = map saved (backed_up s)" unfolding s' by (rule finish_restores[OF r(1)])
  show "profiles s' = profiles s" unfolding s' using r(2) by (simp add: finish_reload_def Let_def)
qed

lemma backup_initialized:
  assumes "wf_sup s" "backup_ok s" "lib_ok lib cn" "parse f = Some (Some (indent ws 0 (generate_backup_config_file cn d sock s)))"
  shows "let ((s', ret), es) = supervisor_initialization lib False (Some f) parse generated gener_file True initial_globals
    in map saved (loaded s') = map saved (backed_up s) \<and> profiles s' = profiles s \<and> es = [Unlink f] \<and> ret = 0"
proof -
  let ?s1 = "check_running_modules_allocated_memory (initial_globals\<lparr>running_modules_array_size := 0\<rparr>)"
  have i: "sup_inv start_ok (initial_globals\<lparr>running_modules_array_size := 0\<rparr>)"
    by (simp add: sup_inv_def wf_sup_def initial_globals_def loaded_def size_ok_def)
  have "loaded_modules_cnt ?s1 = 0" "list_all blank (running_modules ?s1)"
    by (simp_all add: check_running_modules_allocated_memory_def initial_globals_def list_all_iff)
  from backup_restores[OF assms(1-3) at_start.sup_inv_check(1)[OF i] this, of ws d sock] show ?thesis
    using assms(4) by (simp add: supervisor_initialization_def reload_configuration_def load_document_def start_service_thread_def loaded_def)
qed

text \<open>
  C22. A supervisor that starts with the backup its predecessor wrote, whatever white space the file has been indented with, removes the file and has loaded exactly
  the modules that belonged to a profile, grouped by profile, each with its name, process identifier, path, parameters, enabled flag and
  interfaces, and the same profiles.
\<close>

theorem backup_round_trip:
  assumes "wf_sup s" "backup_ok s" "lib_ok lib cn" "parse f = Some (Some (indent ws 0 (generate_backup_config_file cn d sock s)))"
  shows "let ((s', ret), es) = supervisor_initialization lib False (Some f) parse generated gener_file True initial_globals
    in map saved (loaded s') = map saved (backed_up s) \<and> profiles s' = profiles s \<and> es = [Unlink f] \<and> ret = 0"
  by (rule backup_initialized[where cn = cn and ws = ws and d = d and sock = sock and s = s and parse = parse and f = f, OF assms])

text \<open>An example: one module with a process and an interface.\<close>

definition text_nodes :: "string \<Rightarrow> xml_node list" where
  "text_nodes t = [Xml_Node XML_TEXT_NODE ''text'' [] [] t]"

definition backup_state :: sup where
  "backup_state = initial_globals\<lparr>running_modules := [fresh_module\<lparr>module_name := Some ''m'', module_path := Some ''/bin/m'',
       module_pid := 17, module_enabled := True, module_profile := Some 0, config_ifces_cnt := 1,
       config_ifces := (config_ifces fresh_module)[0 := zero_interface\<lparr>ifc_direction := Some ''IN''\<rparr>]\<rparr>, fresh_module],
     running_modules_array_size := 2, loaded_modules_cnt := 1, profiles := [\<lparr>profile_name = ''p'', profile_enabled = True\<rparr>],
     loaded_profile_cnt := 1\<rparr>"

lemma backup_state_ok: "wf_sup backup_state" "backup_ok backup_state"
  by (simp_all add: backup_state_def initial_globals_def wf_sup_def size_ok_def wf_ifces_def wf_profile_def loaded_def fresh_module_def
      zero_module_def IFCES_ARRAY_START_SIZE_def backup_ok_def backup_ok_module_def plain_text_def saved_ifces_def ifc_ok_def zero_interface_def
      numeral_eq_Suc)

theorem backup_round_trip_witness:
  "map sv_pid (map saved (loaded (fst (fst (supervisor_initialization doc_lib False (Some ''b'')
     (\<lambda>f. Some (Some (indent (\<lambda>k. [CHR 0x0A]) 0 (generate_backup_config_file text_nodes False [] backup_state)))) True ''g'' True initial_globals))))) = [17]"
proof -
  have l: "lib_ok doc_lib text_nodes" by (simp add: lib_ok_def doc_lib_def text_nodes_def)
  have "map saved (backed_up backup_state) = map saved (loaded backup_state)"
    by (simp add: backed_up_def modules_named_def in_profile_def profile_ref_def backup_state_def initial_globals_def loaded_def)
  then show ?thesis
    using backup_round_trip[OF backup_state_ok l, of "\<lambda>f. Some (Some (indent (\<lambda>k. [CHR 0x0A]) 0 (generate_backup_config_file text_nodes False [] backup_state)))"
        "''b''" "\<lambda>k. [CHR 0x0A]" False "[]" True "''g''"]
    by (simp add: case_prod_unfold Let_def saved_def loaded_def backup_state_def initial_globals_def)
qed

end
