(* ===== verification/Daemon.thy ===== *)
theory Daemon
  imports Backup
begin

section \<open>Daemon mode: the server thread and its clients\<close>

text \<open>
  \<^verbatim>\<open>supervisor.c\<close>, lines 1251-1779, and the wait for the clients in \<open>supervisor_termination\<close> (lines 3515-3551).
  The server thread accepts connections into an array of client slots and starts one thread for each; the client
  threads share \<open>server_internals\<close>, \<open>input_fd\<close> and \<open>output_fd\<close>. Each thread is a function from its program
  counter to the next; a counter stands wherever the code takes or releases the mutex, waits, or touches what
  another thread may read, so that the step relation interleaves as the mutex allows. Proved: the counter of
  clients agrees with the array, a connection below the limit always finds a free slot, at most one client is in the
  configuration mode and only it receives the output, client threads end after a stop was requested.
\<close>

subsection \<open>Structures\<close>

definition MAX_NUMBER_SUP_CLIENTS :: nat where
  "MAX_NUMBER_SUP_CLIENTS = 5"

definition CLIENT_CONFIG_MODE_CODE :: int where "CLIENT_CONFIG_MODE_CODE = 789123"

definition CLIENT_STATS_MODE_CODE :: int where "CLIENT_STATS_MODE_CODE = 456987"

definition CLIENT_INFO_MODE_CODE :: int where "CLIENT_INFO_MODE_CODE = 113366"

definition CLIENT_RELOAD_MODE_CODE :: int where "CLIENT_RELOAD_MODE_CODE = 115599"

lemmas client_codes = CLIENT_CONFIG_MODE_CODE_def CLIENT_STATS_MODE_CODE_def CLIENT_INFO_MODE_CODE_def CLIENT_RELOAD_MODE_CODE_def

text \<open>A stream is the descriptor it was opened on; \<open>None\<close> is \<open>NULL\<close>.\<close>

record sup_client =
  client_input_stream :: "int option"
  client_output_stream :: "int option"
  client_input_stream_fd :: int
  client_sd :: int
  client_connected :: bool
  client_id :: int

record server_internals =
  clients :: "sup_client list"
  clients_cnt :: int
  server_sd :: int
  daemon_terminated :: bool
  next_client_id :: "16 word"
  config_mode_active :: bool

text \<open>\<open>Own_Stream\<close>: the standard input, or the log of the supervisor for the output.\<close>

datatype stream_ref = Own_Stream | Client_Stream nat

text \<open>Where the server thread is: \<open>Scanning sd x\<close> looks at slot \<open>x\<close> for the new connection \<open>sd\<close>.\<close>

datatype server_pc = Serving | Accepted int | Scanning int nat | Stored nat | Counted nat | Create_Failed | Server_Exit

text \<open>
  Where a client thread is. \<open>Option_Loop n\<close> is the main loop with \<open>nine_cnt = n\<close>; \<open>Disconnect k r\<close> is
  statement \<open>k\<close> of \<open>daemon_disconnect_client\<close>, with \<open>r\<close> for the call that precedes a reload.
\<close>

datatype client_pc = Opening | Reading_Code | Config_Lock | Config_Entered | Option_Loop nat | Leaving | Leaving_Unlock
  | Disconnect nat bool | Reloading

record daemon =
  server :: server_internals
  output_fd :: stream_ref
  input_fd :: stream_ref
  open_fds :: "int set"
  server_at :: server_pc
  threads :: "(nat \<times> client_pc) list"
  managed :: sup
  events :: "os_event list"

subsection \<open>Initialization\<close>

text \<open>\<open>calloc_ok k\<close>: the \<open>k\<close>-th call of \<open>calloc\<close> succeeds; \<open>None\<close> is the return value -1.\<close>

definition free_client :: sup_client where
  "free_client = \<lparr>client_input_stream = None, client_output_stream = None, client_input_stream_fd = -1, client_sd = -1,
     client_connected = False, client_id = 0\<rparr>"

definition daemon_init_structures :: "(nat \<Rightarrow> bool) \<Rightarrow> server_internals option" where
  "daemon_init_structures calloc_ok =
     (if \<not> calloc_ok 0 \<or> \<not> calloc_ok 1 \<or> \<not> list_all (\<lambda>x. calloc_ok (x + 2)) [0..<MAX_NUMBER_SUP_CLIENTS] then None
      else Some \<lparr>clients = replicate MAX_NUMBER_SUP_CLIENTS free_client, clients_cnt = 0, server_sd = 0,
             daemon_terminated = False, next_client_id = 0, config_mode_active = False\<rparr>)"

text \<open>\<open>sd\<close> is the result of \<open>socket\<close>; the other arguments tell whether \<open>fcntl\<close>, \<open>bind\<close> and \<open>listen\<close> succeed.\<close>

definition daemon_init_socket :: "string \<Rightarrow> int \<Rightarrow> bool \<Rightarrow> bool \<Rightarrow> bool \<Rightarrow> server_internals \<Rightarrow> (server_internals \<times> int) \<times> os_event list" where
  "daemon_init_socket path sd fcntl_ok bind_ok listen_ok si =
     (let si1 = si\<lparr>server_sd := sd\<rparr>
      in ((si1, if sd = -1 \<or> \<not> fcntl_ok \<or> \<not> bind_ok \<or> \<not> listen_ok then -1 else 0), [Unlink path]))"

datatype daemon_start = Start_Failed | Parent_Exit | Daemon_Started server_internals

definition daemon_mode_initialization ::
  "int \<Rightarrow> int \<Rightarrow> (nat \<Rightarrow> bool) \<Rightarrow> string \<Rightarrow> int \<Rightarrow> bool \<Rightarrow> bool \<Rightarrow> bool \<Rightarrow> daemon_start" where
  "daemon_mode_initialization fork_ret setsid_ret calloc_ok path sd fcntl_ok bind_ok listen_ok =
     (if fork_ret < 0 then Start_Failed
      else if fork_ret > 0 then Parent_Exit
      else if setsid_ret < 0 then Start_Failed
      else (case daemon_init_structures calloc_ok of
              None \<Rightarrow> Start_Failed
            | Some si \<Rightarrow>
                (let ((si1, ret), es) = daemon_init_socket path sd fcntl_ok bind_ok listen_ok si
                 in if ret \<noteq> 0 then Start_Failed else Daemon_Started si1)))"

subsection \<open>The server thread\<close>

datatype select_ret = Select_Error | Select_Ready | Select_Timeout

record server_answers =
  srv_select :: select_ret
  srv_accept :: int
  create_ok :: bool

definition set_client :: "nat \<Rightarrow> sup_client \<Rightarrow> daemon \<Rightarrow> daemon" where
  "set_client x c d = d\<lparr>server := (server d)\<lparr>clients := (clients (server d))[x := c]\<rparr>\<rparr>"

definition add_clients :: "int \<Rightarrow> daemon \<Rightarrow> daemon" where
  "add_clients n d = d\<lparr>server := (server d)\<lparr>clients_cnt := clients_cnt (server d) + n\<rparr>\<rparr>"

definition close_fd :: "int \<Rightarrow> daemon \<Rightarrow> daemon" where
  "close_fd fd d = d\<lparr>open_fds := open_fds d - {fd}\<rparr>"

definition store_client :: "int \<Rightarrow> nat \<Rightarrow> daemon \<Rightarrow> daemon" where
  "store_client sd x d =
     (let c = clients (server d) ! x;
          d1 = set_client x (c\<lparr>client_sd := sd, client_id := uint (next_client_id (server d)), client_connected := True\<rparr>) d
      in d1\<lparr>server := (server d1)\<lparr>next_client_id := next_client_id (server d1) + 1\<rparr>\<rparr>)"

text \<open>One step of \<open>daemon_mode_server_routine\<close>.\<close>

definition server_step :: "server_answers \<Rightarrow> daemon \<Rightarrow> daemon" where
  "server_step a d =
     (case server_at d of
        Serving \<Rightarrow>
          if daemon_terminated (server d) then d\<lparr>server_at := Server_Exit\<rparr>
          else (case srv_select a of
                  Select_Error \<Rightarrow> d\<lparr>server_at := Server_Exit\<rparr>
                | Select_Timeout \<Rightarrow> d
                | Select_Ready \<Rightarrow>
                    if srv_accept a = -1 then d
                    else d\<lparr>open_fds := insert (srv_accept a) (open_fds d), server_at := Accepted (srv_accept a)\<rparr>)
      | Accepted sd \<Rightarrow>
          if clients_cnt (server d) < int MAX_NUMBER_SUP_CLIENTS then d\<lparr>server_at := Scanning sd 0\<rparr>
          else (close_fd sd d)\<lparr>server_at := Serving\<rparr>
      | Scanning sd x \<Rightarrow>
          if x \<ge> MAX_NUMBER_SUP_CLIENTS then d\<lparr>server_at := Serving\<rparr>
          else if client_sd (clients (server d) ! x) = -1 then (store_client sd x d)\<lparr>server_at := Stored x\<rparr>
          else d\<lparr>server_at := Scanning sd (Suc x)\<rparr>
      | Stored x \<Rightarrow> (add_clients 1 d)\<lparr>server_at := Counted x\<rparr>
      | Counted x \<Rightarrow>
          if create_ok a then d\<lparr>threads := threads d @ [(x, Opening)], server_at := Serving\<rparr>
          else (let c = clients (server d) ! x
                in (set_client x (c\<lparr>client_sd := -1, client_connected := False\<rparr>) (close_fd (client_sd c) d))
                     \<lparr>server_at := Create_Failed\<rparr>)
      | Create_Failed \<Rightarrow> (add_clients (-1) d)\<lparr>server_at := Serving\<rparr>
      | Server_Exit \<Rightarrow> d)"

subsection \<open>A client thread\<close>

text \<open>
  The answers one step consumes: of \<open>fdopen\<close> and \<open>fileno\<close>, of \<open>select\<close>, \<open>ioctl\<close> and \<open>fgets\<close>, and those of the chosen
  operation, whose own input is \<open>op_input\<close>.
\<close>

record client_answers =
  fdopen_in_ok :: bool
  fdopen_out_ok :: bool
  fileno_ret :: int
  cli_select :: select_ret
  bytes_to_read :: int
  cli_line :: "string option"
  op_input :: "string option"
  op_kill0 :: "int \<Rightarrow> kill_result"
  op_reload :: "sup \<Rightarrow> (sup \<times> bool) \<times> os_event list"

definition daemon_open_client_streams :: "client_answers \<Rightarrow> sup_client \<Rightarrow> sup_client \<times> int" where
  "daemon_open_client_streams a c =
     (let c1 = c\<lparr>client_input_stream := if fdopen_in_ok a then Some (client_sd c) else None\<rparr>
      in if client_input_stream c1 = None then (c1, -1)
         else (let c2 = c1\<lparr>client_output_stream := if fdopen_out_ok a then Some (client_sd c1) else None\<rparr>
               in if client_output_stream c2 = None then (c2, -1)
                  else (let c3 = c2\<lparr>client_input_stream_fd := fileno_ret a\<rparr>
                        in (c3, if client_input_stream_fd c3 < 0 then -1 else 0))))"

text \<open>
  With a single descriptor in its set, \<open>select\<close> returns a positive number only when that descriptor is ready.
\<close>

definition daemon_get_code_from_client :: "client_answers \<Rightarrow> int c_ret" where
  "daemon_get_code_from_client a =
     (case cli_select a of
        Select_Error \<Rightarrow> Ret (-1)
      | Select_Timeout \<Rightarrow> Ret (-3)
      | Select_Ready \<Rightarrow>
          if bytes_to_read a = 0 \<or> bytes_to_read a = -1 then Ret (-2)
          else (case get_input_from_stream (cli_line a) of
                  Undefined \<Rightarrow> Undefined
                | Ret None \<Rightarrow> Ret (-1)
                | Ret (Some buffer) \<Rightarrow>
                    (case sscanf_d buffer of
                       None \<Rightarrow> Ret (-1)
                     | Some request \<Rightarrow>
                         if request \<in> {CLIENT_CONFIG_MODE_CODE, CLIENT_RELOAD_MODE_CODE, CLIENT_STATS_MODE_CODE, CLIENT_INFO_MODE_CODE}
                         then Ret request else Ret (-1))))"

text \<open>The statements of \<open>daemon_disconnect_client\<close> up to the counter.\<close>

definition disconnect_statement :: "nat \<Rightarrow> nat \<Rightarrow> daemon \<Rightarrow> daemon" where
  "disconnect_statement k x d =
     (let c = clients (server d) ! x
      in if k = 0 then
           (let c1 = c\<lparr>client_connected := False\<rparr>
            in if client_input_stream_fd c1 \<ge> 0
               then set_client x (c1\<lparr>client_input_stream_fd := -1\<rparr>) (close_fd (client_input_stream_fd c1) d)
               else set_client x c1 d)
         else if k = 1 then
           (case client_input_stream c of None \<Rightarrow> d | Some fd \<Rightarrow> set_client x (c\<lparr>client_input_stream := None\<rparr>) (close_fd fd d))
         else if k = 2 then
           (case client_output_stream c of None \<Rightarrow> d | Some fd \<Rightarrow> set_client x (c\<lparr>client_output_stream := None\<rparr>) (close_fd fd d))
         else if client_sd c \<ge> 0 then set_client x (c\<lparr>client_sd := -1\<rparr>) (close_fd (client_sd c) d) else d)"

definition set_streams :: "stream_ref \<Rightarrow> daemon \<Rightarrow> daemon" where
  "set_streams r d = d\<lparr>output_fd := r, input_fd := r\<rparr>"

definition set_active :: "bool \<Rightarrow> daemon \<Rightarrow> daemon" where
  "set_active b d = d\<lparr>server := (server d)\<lparr>config_mode_active := b\<rparr>\<rparr>"

definition operate :: "sup \<times> os_event list \<Rightarrow> daemon \<Rightarrow> daemon" where
  "operate r d = d\<lparr>managed := fst r, events := events d @ snd r\<rparr>"

text \<open>One round of the main loop of the configuration mode after \<open>select\<close> reported input.\<close>

definition serve_request :: "client_answers \<Rightarrow> nat \<Rightarrow> nat \<Rightarrow> daemon \<Rightarrow> (daemon \<times> (nat \<times> client_pc) option) c_ret" where
  "serve_request a x nine_cnt d =
     (case get_input_from_stream (cli_line a) of
        Undefined \<Rightarrow> Undefined
      | Ret line \<Rightarrow>
          (let request = get_number_from_input_choosing_option line
           in if 1 \<le> request \<and> request \<le> 9 then
                (case interactive_choice (op_reload a) (op_kill0 a) request (op_input a) (managed d) of
                   Undefined \<Rightarrow> Undefined
                 | Ret r \<Rightarrow> Ret (operate r d, Some (x, Option_Loop nine_cnt)))
              else if request = 0 then
                Ret (if nine_cnt + 1 = 3 then d\<lparr>server := (server d)\<lparr>daemon_terminated := True\<rparr>\<rparr> else d,
                     Some (x, Option_Loop (nine_cnt + 1)))
              else Ret (d, Some (x, Option_Loop nine_cnt))))"

text \<open>One step of \<open>daemon_serve_client_routine\<close>; \<open>None\<close> for \<open>pthread_exit\<close>.\<close>

definition client_step :: "client_answers \<Rightarrow> nat \<times> client_pc \<Rightarrow> daemon \<Rightarrow> (daemon \<times> (nat \<times> client_pc) option) c_ret" where
  "client_step a t d =
     (let x = fst t; si = server d; c = clients si ! x
      in case snd t of
           Opening \<Rightarrow>
             (let (c1, ret) = daemon_open_client_streams a c
              in Ret (set_client x c1 d, Some (x, if ret \<noteq> 0 then Disconnect 0 False else Reading_Code)))
         | Reading_Code \<Rightarrow>
             (case daemon_get_code_from_client a of
                Undefined \<Rightarrow> Undefined
              | Ret code \<Rightarrow>
                  Ret (d, Some (x, if code = CLIENT_CONFIG_MODE_CODE then Config_Lock
                                   else Disconnect 0 (code = CLIENT_RELOAD_MODE_CODE))))
         | Config_Lock \<Rightarrow>
             if config_mode_active si then Ret (d, Some (x, Disconnect 0 False))
             else Ret (set_active True d, Some (x, Config_Entered))
         | Config_Entered \<Rightarrow> Ret (set_streams (Client_Stream x) d, Some (x, Option_Loop 0))
         | Option_Loop nine_cnt \<Rightarrow>
             if \<not> client_connected c \<or> daemon_terminated si then Ret (d, Some (x, Leaving))
             else (case cli_select a of
                     Select_Error \<Rightarrow> Ret (d, Some (x, Leaving))
                   | Select_Timeout \<Rightarrow> Ret (d, Some (x, Option_Loop 0))
                   | Select_Ready \<Rightarrow>
                       if bytes_to_read a = 0 \<or> bytes_to_read a = -1 then Ret (d, Some (x, Leaving))
                       else serve_request a x nine_cnt d)
         | Leaving \<Rightarrow> Ret (set_streams Own_Stream d, Some (x, Leaving_Unlock))
         | Leaving_Unlock \<Rightarrow> Ret (set_active False d, Some (x, Disconnect 0 False))
         | Disconnect k r \<Rightarrow>
             if k < 4 then Ret (disconnect_statement k x d, Some (x, Disconnect (Suc k) r))
             else Ret (add_clients (-1) d, if r then Some (x, Reloading) else None)
         | Reloading \<Rightarrow>
             (let (r, es) = op_reload a (managed d)
              in Ret (operate (fst r, es) d, None)))"

definition replace_thread :: "nat \<Rightarrow> (nat \<times> client_pc) option \<Rightarrow> (nat \<times> client_pc) list \<Rightarrow> (nat \<times> client_pc) list" where
  "replace_thread i t ts = take i ts @ (case t of None \<Rightarrow> [] | Some t' \<Rightarrow> [t']) @ drop (Suc i) ts"

text \<open>
  The wait of \<open>supervisor_termination\<close> before it frees the slots: \<open>seen k\<close> are the flags \<open>client_connected\<close> as the
  scan with \<open>attemps = k\<close> finds them. Whether all clients were seen disconnected.
\<close>

function wait_for_clients :: "(nat \<Rightarrow> bool list) \<Rightarrow> nat \<Rightarrow> bool" where
  "wait_for_clients seen attemps =
     (if attemps \<ge> 2 then False else if True \<in> set (seen attemps) then wait_for_clients seen (attemps + 1) else True)"
  by pat_completeness auto

termination
  by (relation "measure (\<lambda>(seen, attemps). 2 - attemps)") auto

declare wait_for_clients.simps [simp del]

subsection \<open>All interleavings\<close>

text \<open>
  What is relied on of the operating system: \<open>accept\<close> returns -1 or a descriptor that is not open, and
  \<open>fileno\<close> the descriptor of the stream.
\<close>

definition accept_ok :: "server_answers \<Rightarrow> daemon \<Rightarrow> bool" where
  "accept_ok a d \<longleftrightarrow> server_at d \<noteq> Serving \<or> srv_accept a = -1 \<or> 0 \<le> srv_accept a \<and> srv_accept a \<notin> open_fds d"

definition fresh_daemon :: "server_internals \<Rightarrow> int set \<Rightarrow> sup \<Rightarrow> os_event list \<Rightarrow> daemon" where
  "fresh_daemon si fds s es = \<lparr>server = si, output_fd = Own_Stream, input_fd = Own_Stream, open_fds = fds, server_at = Serving,
     threads = [], managed = s, events = es\<rparr>"

text \<open>Steps of the daemon's own threads; the reload a client asks for reads the default file.\<close>

inductive daemon_step :: "libxml \<Rightarrow> daemon \<Rightarrow> daemon \<Rightarrow> bool" for lib where
  by_server: "accept_ok a d \<Longrightarrow> daemon_step lib d (server_step a d)"
| by_client: "i < length (threads d) \<Longrightarrow> client_step a (threads d ! i) d = Ret (d', t)
    \<Longrightarrow> op_reload a = reload_configuration lib RELOAD_DEFAULT_CONFIG_FILE backup parse generated gener_file None
    \<Longrightarrow> daemon_step lib d (d'\<lparr>threads := replace_thread i t (threads d)\<rparr>)"
| by_signal: "daemon_step lib d (d\<lparr>server := (server d)\<lparr>daemon_terminated := True\<rparr>, managed := request_termination stop_all (managed d)\<rparr>)"

inductive_cases daemon_stepE: "daemon_step lib d d'"

text \<open>
  All runs of the daemon together with the service thread, whose periods change only the modules.
\<close>

inductive daemon_run ::
  "('j, 'z) jansson_scheme \<Rightarrow> (u32 \<Rightarrow> bool) \<Rightarrow> (string \<Rightarrow> string) \<Rightarrow> libxml \<Rightarrow> daemon \<Rightarrow> u32 \<Rightarrow> bool"
  for J calloc_ok sock_path lib where
  daemon_start: "daemon_mode_initialization fork_ret setsid_ret alloc path sd fcntl_ok bind_ok listen_ok = Daemon_Started si
    \<Longrightarrow> supervisor_initialization lib netconf backup parse generated gener_file True initial_globals = ((s, 0), es)
    \<Longrightarrow> daemon_run J calloc_ok sock_path lib (fresh_daemon si fds s es) 256"
| daemon_thread: "daemon_run J calloc_ok sock_path lib d bs \<Longrightarrow> daemon_step lib d d' \<Longrightarrow> daemon_run J calloc_ok sock_path lib d' bs"
| daemon_period: "daemon_run J calloc_ok sock_path lib d bs \<Longrightarrow> answers_ok env
    \<Longrightarrow> service_period J calloc_ok sock_path env bs (managed d) = Period_Done (r, bs')
    \<Longrightarrow> daemon_run J calloc_ok sock_path lib (operate r d) bs'"
| daemon_service_exit: "daemon_run J calloc_ok sock_path lib d bs
    \<Longrightarrow> service_period J calloc_ok sock_path env bs (managed d) = Thread_Exit r
    \<Longrightarrow> daemon_run J calloc_ok sock_path lib (operate r d) bs"

subsection \<open>Slots and their counter\<close>

text \<open>A thread holds its slot until it has set \<open>client_sd\<close> to -1, and is counted until it has decremented the counter.\<close>

definition holds_slot :: "client_pc \<Rightarrow> bool" where
  "holds_slot pc \<longleftrightarrow> (case pc of Disconnect k r \<Rightarrow> k < 4 | Reloading \<Rightarrow> False | _ \<Rightarrow> True)"

definition server_slot :: "server_pc \<Rightarrow> nat list" where
  "server_slot p = (case p of Stored x \<Rightarrow> [x] | Counted x \<Rightarrow> [x] | _ \<Rightarrow> [])"

definition owners :: "server_pc \<Rightarrow> (nat \<times> client_pc) list \<Rightarrow> nat list" where
  "owners p ts = server_slot p @ map fst (filter (\<lambda>t. holds_slot (snd t)) ts)"

definition counted_threads :: "server_pc \<Rightarrow> (nat \<times> client_pc) list \<Rightarrow> nat" where
  "counted_threads p ts = length (filter (\<lambda>t. snd t \<noteq> Reloading) ts) +
     (case p of Counted x \<Rightarrow> 1 | Create_Failed \<Rightarrow> 1 | _ \<Rightarrow> 0)"

text \<open>The invariant, in terms of the descriptors of the slots, the counter and the places of the threads.\<close>

definition server_ok :: "int list \<Rightarrow> int \<Rightarrow> server_pc \<Rightarrow> bool" where
  "server_ok sds cnt p \<longleftrightarrow>
     (case p of
        Accepted sd \<Rightarrow> 0 \<le> sd
      | Scanning sd x \<Rightarrow> 0 \<le> sd \<and> cnt < int MAX_NUMBER_SUP_CLIENTS \<and> (\<exists>y. x \<le> y \<and> y < MAX_NUMBER_SUP_CLIENTS \<and> sds ! y = -1)
      | Stored x \<Rightarrow> cnt < int MAX_NUMBER_SUP_CLIENTS
      | _ \<Rightarrow> True)"

definition slots_ok :: "int list \<Rightarrow> int \<Rightarrow> server_pc \<Rightarrow> (nat \<times> client_pc) list \<Rightarrow> bool" where
  "slots_ok sds cnt p ts \<longleftrightarrow> length sds = MAX_NUMBER_SUP_CLIENTS \<and> (\<forall>sd \<in> set sds. -1 \<le> sd) \<and>
     distinct (owners p ts) \<and> (\<forall>x. x \<in> set (owners p ts) \<longleftrightarrow> x < MAX_NUMBER_SUP_CLIENTS \<and> sds ! x \<noteq> -1) \<and>
     int (counted_threads p ts) = cnt \<and> cnt \<le> int MAX_NUMBER_SUP_CLIENTS \<and> server_ok sds cnt p"

lemma owners_thread:
  "owners p (as @ (x, pc) # bs) = server_slot p @ map fst (filter (\<lambda>t. holds_slot (snd t)) as) @
     (if holds_slot pc then [x] else []) @ map fst (filter (\<lambda>t. holds_slot (snd t)) bs)"
  "owners p (as @ bs) = server_slot p @ map fst (filter (\<lambda>t. holds_slot (snd t)) as) @ map fst (filter (\<lambda>t. holds_slot (snd t)) bs)"
  by (simp_all add: owners_def)

lemma counted_thread:
  "counted_threads p (as @ t # bs) = counted_threads p (as @ bs) + (if snd t = Reloading then 0 else 1)"
  by (simp add: counted_threads_def)

lemma holds_counted: "holds_slot pc \<Longrightarrow> pc \<noteq> Reloading"
  by (auto simp: holds_slot_def)

lemma cleared_slot: "length sds = n \<Longrightarrow> y < n \<Longrightarrow> sds[x := -1] ! y = (-1 :: int) \<longleftrightarrow> y = x \<or> sds ! y = -1"
  by (cases "y = x") auto

text \<open>The moves of a client thread.\<close>

lemma slots_keep:
  "slots_ok sds cnt p (as @ (x, pc) # bs) \<Longrightarrow> holds_slot pc \<Longrightarrow> holds_slot pc' \<Longrightarrow> slots_ok sds cnt p (as @ (x, pc') # bs)"
  using holds_counted[of pc] holds_counted[of pc'] by (simp add: slots_ok_def owners_thread counted_thread)

lemma slots_release:
  assumes "slots_ok sds cnt p (as @ (x, pc) # bs)" "holds_slot pc" "\<not> holds_slot pc'" "pc' \<noteq> Reloading"
  shows "slots_ok (sds[x := -1]) cnt p (as @ (x, pc') # bs)"
proof -
  let ?o = "owners p (as @ (x, pc) # bs)" and ?o' = "owners p (as @ (x, pc') # bs)"
  have o: "set ?o = insert x (set ?o')" "x \<notin> set ?o'" "distinct ?o'"
    using assms by (auto simp: slots_ok_def owners_thread)
  have len: "length sds = MAX_NUMBER_SUP_CLIENTS" "server_ok sds cnt p" using assms(1) by (simp_all add: slots_ok_def)
  then have "server_ok (sds[x := -1]) cnt p"
    using cleared_slot[OF len(1)] by (cases p) (auto simp: server_ok_def)
  moreover have "y \<in> set ?o' \<longleftrightarrow> y < MAX_NUMBER_SUP_CLIENTS \<and> sds[x := -1] ! y \<noteq> -1" for y
    using assms(1) o cleared_slot[OF len(1), of y x] by (auto simp: slots_ok_def)
  moreover have "-1 \<le> sd" if "sd \<in> set (sds[x := -1])" for sd
    using that assms(1) set_update_subset_insert[of sds x "-1"] by (auto simp: slots_ok_def)
  ultimately show ?thesis
    using assms o holds_counted[OF assms(2)] by (simp add: slots_ok_def counted_thread)
qed

lemma slots_leave:
  assumes "slots_ok sds cnt p (as @ (x, pc) # bs)" "\<not> holds_slot pc" "pc \<noteq> Reloading"
  shows "slots_ok sds (cnt - 1) p (as @ bs)" "slots_ok sds (cnt - 1) p (as @ (x, Reloading) # bs)"
proof -
  have "server_ok sds cnt p" using assms(1) by (simp add: slots_ok_def)
  then have "server_ok sds (cnt - 1) p" by (auto simp: server_ok_def split: server_pc.splits)
  then show "slots_ok sds (cnt - 1) p (as @ bs)" "slots_ok sds (cnt - 1) p (as @ (x, Reloading) # bs)"
    using assms by (simp_all add: slots_ok_def owners_thread counted_thread holds_slot_def)
qed

lemma slots_gone:
  "slots_ok sds cnt p (as @ (x, Reloading) # bs) \<Longrightarrow> slots_ok sds cnt p (as @ bs)"
  by (simp add: slots_ok_def owners_thread counted_thread holds_slot_def)

text \<open>The moves of the server thread.\<close>

lemma free_slot_exists:
  assumes "slots_ok sds cnt p ts" "cnt < int MAX_NUMBER_SUP_CLIENTS" "server_slot p = []"
  shows "\<exists>y < MAX_NUMBER_SUP_CLIENTS. sds ! y = -1"
proof (rule ccontr)
  assume "\<not> ?thesis"
  then have "set (owners p ts) = {..<MAX_NUMBER_SUP_CLIENTS}" using assms(1) by (auto simp: slots_ok_def)
  moreover have "distinct (owners p ts)" using assms(1) by (simp add: slots_ok_def)
  ultimately have "length (owners p ts) = MAX_NUMBER_SUP_CLIENTS" using distinct_card by force
  moreover have "length (owners p ts) \<le> counted_threads p ts"
  proof -
    have "length (filter (\<lambda>t. holds_slot (snd t)) ts) \<le> length (filter (\<lambda>t. snd t \<noteq> Reloading) ts)"
      using holds_counted by (induction ts) auto
    then show ?thesis using assms(3) by (simp add: owners_def counted_threads_def)
  qed
  ultimately show False using assms(1,2) by (simp add: slots_ok_def)
qed

lemma slots_server_idle:
  assumes "slots_ok sds cnt p ts" "server_slot p = []" "server_slot q = []" "counted_threads q ts = counted_threads p ts" "server_ok sds cnt q"
  shows "slots_ok sds cnt q ts"
  using assms by (simp add: slots_ok_def owners_def)

lemma slots_store:
  assumes "slots_ok sds cnt (Scanning sd x) ts" "x < MAX_NUMBER_SUP_CLIENTS" "sds ! x = -1"
  shows "slots_ok (sds[x := sd]) cnt (Stored x) ts"
proof -
  have sd: "0 \<le> sd" "cnt < int MAX_NUMBER_SUP_CLIENTS" using assms(1) by (simp_all add: slots_ok_def server_ok_def)
  have len: "length sds = MAX_NUMBER_SUP_CLIENTS" using assms(1) by (simp add: slots_ok_def)
  have o: "owners (Stored x) ts = x # owners (Scanning sd x) ts" by (simp add: owners_def server_slot_def)
  have nx: "x \<notin> set (owners (Scanning sd x) ts)" using assms by (simp add: slots_ok_def)
  have "y \<in> set (owners (Stored x) ts) \<longleftrightarrow> y < MAX_NUMBER_SUP_CLIENTS \<and> sds[x := sd] ! y \<noteq> -1" for y
    using assms(1,2) sd len unfolding o by (auto simp: slots_ok_def nth_list_update)
  moreover have "-1 \<le> d" if "d \<in> set (sds[x := sd])" for d
    using that assms(1) sd set_update_subset_insert[of sds x sd] by (auto simp: slots_ok_def)
  ultimately show ?thesis
    using assms(1) sd nx o by (simp add: slots_ok_def counted_threads_def server_ok_def)
qed

lemma slots_count: "slots_ok sds cnt (Stored x) ts \<Longrightarrow> slots_ok sds (cnt + 1) (Counted x) ts"
  by (simp add: slots_ok_def owners_def server_slot_def counted_threads_def server_ok_def)

lemma slots_create: "slots_ok sds cnt (Counted x) ts \<Longrightarrow> slots_ok sds cnt Serving (ts @ [(x, Opening)])"
  by (auto simp: slots_ok_def owners_def server_slot_def counted_threads_def server_ok_def holds_slot_def)

lemma slots_create_failed:
  assumes "slots_ok sds cnt (Counted x) ts"
  shows "slots_ok (sds[x := -1]) cnt Create_Failed ts"
proof -
  have o: "owners (Counted x) ts = x # owners Create_Failed ts" by (simp add: owners_def server_slot_def)
  have len: "length sds = MAX_NUMBER_SUP_CLIENTS" using assms by (simp add: slots_ok_def)
  have "y \<in> set (owners Create_Failed ts) \<longleftrightarrow> y < MAX_NUMBER_SUP_CLIENTS \<and> sds[x := -1] ! y \<noteq> -1" for y
    using assms o cleared_slot[OF len, of y x] by (auto simp: slots_ok_def)
  moreover have "-1 \<le> d" if "d \<in> set (sds[x := -1])" for d
    using that assms set_update_subset_insert[of sds x "-1"] by (auto simp: slots_ok_def)
  ultimately show ?thesis using assms o by (simp add: slots_ok_def counted_threads_def server_ok_def)
qed

text \<open>One step of each thread.\<close>

definition daemon_slots :: "daemon \<Rightarrow> bool" where
  "daemon_slots d \<longleftrightarrow> slots_ok (map client_sd (clients (server d))) (clients_cnt (server d)) (server_at d) (threads d)"

lemma set_client_fields [simp]:
  "clients (server (set_client x c d)) = (clients (server d))[x := c]"
  "clients_cnt (server (set_client x c d)) = clients_cnt (server d)"
  "config_mode_active (server (set_client x c d)) = config_mode_active (server d)"
  "daemon_terminated (server (set_client x c d)) = daemon_terminated (server d)"
  "server_at (set_client x c d) = server_at d" "threads (set_client x c d) = threads d"
  "output_fd (set_client x c d) = output_fd d" "input_fd (set_client x c d) = input_fd d"
  "managed (set_client x c d) = managed d" "events (set_client x c d) = events d"
  by (simp_all add: set_client_def)

lemma small_updates [simp]:
  "server (close_fd fd d) = server d" "server_at (close_fd fd d) = server_at d" "threads (close_fd fd d) = threads d"
  "output_fd (close_fd fd d) = output_fd d" "input_fd (close_fd fd d) = input_fd d"
  "managed (close_fd fd d) = managed d" "events (close_fd fd d) = events d"
  "server (set_streams r d) = server d" "server_at (set_streams r d) = server_at d" "threads (set_streams r d) = threads d"
  "output_fd (set_streams r d) = r" "input_fd (set_streams r d) = r"
  "managed (set_streams r d) = managed d" "events (set_streams r d) = events d"
  "server (operate e d) = server d" "server_at (operate e d) = server_at d" "threads (operate e d) = threads d"
  "output_fd (operate e d) = output_fd d" "input_fd (operate e d) = input_fd d"
  "managed (operate e d) = fst e" "events (operate e d) = events d @ snd e"
  by (simp_all add: close_fd_def set_streams_def operate_def)

lemma server_updates [simp]:
  "clients (server (set_active b d)) = clients (server d)" "clients_cnt (server (set_active b d)) = clients_cnt (server d)"
  "config_mode_active (server (set_active b d)) = b" "server_at (set_active b d) = server_at d" "threads (set_active b d) = threads d"
  "daemon_terminated (server (set_active b d)) = daemon_terminated (server d)"
  "output_fd (set_active b d) = output_fd d" "input_fd (set_active b d) = input_fd d"
  "managed (set_active b d) = managed d" "events (set_active b d) = events d"
  "clients (server (add_clients n d)) = clients (server d)" "clients_cnt (server (add_clients n d)) = clients_cnt (server d) + n"
  "config_mode_active (server (add_clients n d)) = config_mode_active (server d)"
  "daemon_terminated (server (add_clients n d)) = daemon_terminated (server d)"
  "server_at (add_clients n d) = server_at d" "threads (add_clients n d) = threads d"
  "output_fd (add_clients n d) = output_fd d" "input_fd (add_clients n d) = input_fd d"
  "managed (add_clients n d) = managed d" "events (add_clients n d) = events d"
  by (simp_all add: set_active_def add_clients_def)

lemma store_client_fields [simp]:
  "map client_sd (clients (server (store_client sd x d))) = (map client_sd (clients (server d)))[x := sd]"
  "clients_cnt (server (store_client sd x d)) = clients_cnt (server d)" "threads (store_client sd x d) = threads d"
  "config_mode_active (server (store_client sd x d)) = config_mode_active (server d)"
  "output_fd (store_client sd x d) = output_fd d" "input_fd (store_client sd x d) = input_fd d"
  "managed (store_client sd x d) = managed d" "events (store_client sd x d) = events d"
  by (simp_all add: store_client_def Let_def map_update)

lemma server_step_slots:
  assumes "daemon_slots d" "accept_ok a d"
  shows "daemon_slots (server_step a d)"
proof -
  let ?sds = "map client_sd (clients (server d))" and ?cnt = "clients_cnt (server d)" and ?ts = "threads d"
  have s: "slots_ok ?sds ?cnt (server_at d) ?ts" using assms(1) by (simp add: daemon_slots_def)
  have len: "length (clients (server d)) = MAX_NUMBER_SUP_CLIENTS" using s by (simp add: slots_ok_def)
  have idle: "slots_ok ?sds ?cnt q ?ts"
    if "server_slot (server_at d) = []" "server_slot q = []" "counted_threads q ?ts = counted_threads (server_at d) ?ts" "server_ok ?sds ?cnt q"
    for q by (rule slots_server_idle[OF s that])
  show ?thesis
  proof (cases "server_at d")
    case Serving
    with assms idle[of "Accepted (srv_accept a)"] idle[of Server_Exit] show ?thesis
      by (auto simp: server_step_def daemon_slots_def server_slot_def counted_threads_def server_ok_def accept_ok_def split: select_ret.split)
  next
    case (Accepted sd)
    have "server_ok ?sds ?cnt (Accepted sd)" using s Accepted by (simp add: slots_ok_def)
    moreover have "\<exists>y<MAX_NUMBER_SUP_CLIENTS. ?sds ! y = -1" if "?cnt < int MAX_NUMBER_SUP_CLIENTS"
      using free_slot_exists[OF s that] Accepted by (simp add: server_slot_def)
    ultimately show ?thesis
      using Accepted idle[of "Scanning sd 0"] idle[of Serving]
      by (auto simp: server_step_def daemon_slots_def server_slot_def counted_threads_def server_ok_def)
  next
    case (Scanning sd x)
    have ok: "server_ok ?sds ?cnt (Scanning sd x)" using s Scanning by (simp add: slots_ok_def)
    then have lt: "x < MAX_NUMBER_SUP_CLIENTS" by (auto simp: server_ok_def)
    show ?thesis
    proof (cases "client_sd (clients (server d) ! x) = -1")
      case True
      with slots_store[of ?sds ?cnt sd x ?ts] s Scanning lt len show ?thesis by (simp add: server_step_def daemon_slots_def)
    next
      case False
      then have "server_ok ?sds ?cnt (Scanning sd (Suc x))"
        using ok len lt by (auto simp: server_ok_def Suc_le_eq) (metis le_neq_implies_less nth_map)
      with False Scanning lt idle[of "Scanning sd (Suc x)"] show ?thesis
        by (simp add: server_step_def daemon_slots_def server_slot_def counted_threads_def)
    qed
  next
    case (Stored x)
    with slots_count s show ?thesis by (simp add: server_step_def daemon_slots_def)
  next
    case (Counted x)
    with slots_create[of ?sds ?cnt x ?ts] slots_create_failed[of ?sds ?cnt x ?ts] s show ?thesis
      by (simp add: server_step_def daemon_slots_def Let_def map_update)
  next
    case Create_Failed
    with s show ?thesis
      by (auto simp: server_step_def daemon_slots_def slots_ok_def owners_def server_slot_def counted_threads_def server_ok_def)
  next
    case Server_Exit
    with assms show ?thesis by (simp add: server_step_def)
  qed
qed

lemma thread_split:
  assumes "i < length ts"
  shows "\<exists>as bs. ts = as @ ts ! i # bs \<and> replace_thread i None ts = as @ bs \<and> (\<forall>t. replace_thread i (Some t) ts = as @ t # bs)"
  using id_take_nth_drop[OF assms] by (intro exI[of _ "take i ts"] exI[of _ "drop (Suc i) ts"]) (simp add: replace_thread_def)

lemma open_streams_sd: "client_sd (fst (daemon_open_client_streams a c)) = client_sd c"
  by (simp add: daemon_open_client_streams_def Let_def)

lemma disconnect_sds:
  assumes "\<forall>c \<in> set (clients (server d)). -1 \<le> client_sd c" "x < length (clients (server d))" "k < 4"
  shows "map client_sd (clients (server (disconnect_statement k x d))) =
    (if k = 3 then (map client_sd (clients (server d)))[x := -1] else map client_sd (clients (server d)))"
proof -
  let ?cs = "clients (server d)"
  have same: "(map client_sd ?cs)[x := client_sd (?cs ! x)] = map client_sd ?cs" using assms(2) by (simp add: list_update_same_conv)
  moreover have "\<not> 0 \<le> client_sd (?cs ! x) \<Longrightarrow> client_sd (?cs ! x) = -1" using assms(1,2) by (metis le_less nth_mem zle_add1_eq_le add.left_inverse not_le)
  ultimately show ?thesis
    using assms(3) by (auto simp: disconnect_statement_def Let_def map_update split: option.split)
qed

lemma disconnect_fields [simp]:
  "clients_cnt (server (disconnect_statement k x d)) = clients_cnt (server d)"
  "config_mode_active (server (disconnect_statement k x d)) = config_mode_active (server d)"
  "daemon_terminated (server (disconnect_statement k x d)) = daemon_terminated (server d)"
  "server_at (disconnect_statement k x d) = server_at d" "threads (disconnect_statement k x d) = threads d"
  "output_fd (disconnect_statement k x d) = output_fd d" "input_fd (disconnect_statement k x d) = input_fd d"
  "managed (disconnect_statement k x d) = managed d" "events (disconnect_statement k x d) = events d"
  by (simp_all add: disconnect_statement_def Let_def split: option.split)

text \<open>What a step of a client thread at one of its places is.\<close>

definition same_slots :: "daemon \<Rightarrow> daemon \<Rightarrow> bool" where
  "same_slots d d' \<longleftrightarrow> map client_sd (clients (server d')) = map client_sd (clients (server d)) \<and>
     clients_cnt (server d') = clients_cnt (server d) \<and> server_at d' = server_at d"

lemma client_step_cases:
  assumes "client_step a (x, pc) d = Ret (d', t)"
  obtains (go) pc' where "t = Some (x, pc')" "holds_slot pc" "holds_slot pc'" "\<forall>k r. pc \<noteq> Disconnect k r" "same_slots d d'"
  | (disc) k r where "pc = Disconnect k r" "k < 4" "t = Some (x, Disconnect (Suc k) r)" "d' = disconnect_statement k x d"
  | (leave) k r where "pc = Disconnect k r" "4 \<le> k" "t = (if r then Some (x, Reloading) else None)" "d' = add_clients (-1) d"
  | (gone) "pc = Reloading" "t = None" "same_slots d d'"
proof (cases pc)
  case (Disconnect k r)
  with assms disc leave show ?thesis by (auto simp: client_step_def not_less split: if_splits)
next
  case Reloading
  with assms gone show ?thesis by (auto simp: client_step_def same_slots_def case_prod_unfold Let_def)
next
  case Opening
  have "map client_sd ((clients (server d))[x := fst (daemon_open_client_streams a (clients (server d) ! x))]) = map client_sd (clients (server d))"
    by (cases "x < length (clients (server d))") (simp_all add: map_update open_streams_sd list_update_same_conv list_update_beyond)
  with assms go Opening show ?thesis by (auto simp: client_step_def same_slots_def holds_slot_def case_prod_unfold Let_def)
next
  case (Option_Loop n)
  with assms go show ?thesis
    by (auto simp: client_step_def serve_request_def same_slots_def holds_slot_def Let_def split: if_splits select_ret.splits c_ret.splits)
qed (use assms go in \<open>auto simp: client_step_def same_slots_def holds_slot_def Let_def split: if_splits c_ret.splits\<close>)

lemma client_step_slots:
  assumes "daemon_slots d" "i < length (threads d)" "client_step a (threads d ! i) d = Ret (d', t)"
  shows "daemon_slots (d'\<lparr>threads := replace_thread i t (threads d)\<rparr>)"
proof -
  obtain x pc where xp: "threads d ! i = (x, pc)" by fastforce
  obtain as bs where sp: "threads d = as @ (x, pc) # bs" "replace_thread i None (threads d) = as @ bs"
    "\<forall>t. replace_thread i (Some t) (threads d) = as @ t # bs"
    using thread_split[OF assms(2)] xp by auto
  let ?sds = "map client_sd (clients (server d))" and ?cnt = "clients_cnt (server d)"
  have s: "slots_ok ?sds ?cnt (server_at d) (as @ (x, pc) # bs)" using assms(1) sp(1) by (simp add: daemon_slots_def)
  from assms(3)[unfolded xp] show ?thesis
  proof (cases rule: client_step_cases)
    case (go pc')
    with slots_keep[OF s] sp(3) show ?thesis by (simp add: daemon_slots_def same_slots_def)
  next
    case (disc k r)
    have hold: "holds_slot pc" using disc by (simp add: holds_slot_def)
    then have "x \<in> set (owners (server_at d) (as @ (x, pc) # bs))" by (simp add: owners_thread)
    then have "x < length (clients (server d))" using s by (simp add: slots_ok_def)
    moreover have "\<forall>c \<in> set (clients (server d)). -1 \<le> client_sd c" using s by (simp add: slots_ok_def)
    ultimately have sds: "map client_sd (clients (server d')) = (if k = 3 then ?sds[x := -1] else ?sds)"
      using disconnect_sds disc(2,4) by blast
    show ?thesis
    proof (cases "k = 3")
      case True
      with slots_release[OF s hold, of "Disconnect 4 r"] sp(3) disc sds show ?thesis
        by (simp add: daemon_slots_def holds_slot_def)
    next
      case False
      with slots_keep[OF s hold, of "Disconnect (Suc k) r"] sp(3) disc sds show ?thesis
        by (simp add: daemon_slots_def holds_slot_def)
    qed
  next
    case (leave k r)
    then have "\<not> holds_slot pc" "pc \<noteq> Reloading" by (simp_all add: holds_slot_def)
    with slots_leave[OF s] leave sp(2,3) show ?thesis by (cases r) (simp_all add: daemon_slots_def)
  next
    case gone
    with slots_gone s sp(2) show ?thesis by (simp add: daemon_slots_def same_slots_def)
  qed
qed

subsection \<open>The configuration mode\<close>

definition in_config :: "client_pc \<Rightarrow> bool" where
  "in_config pc \<longleftrightarrow> (case pc of Config_Entered \<Rightarrow> True | Option_Loop n \<Rightarrow> True | Leaving \<Rightarrow> True | Leaving_Unlock \<Rightarrow> True | _ \<Rightarrow> False)"

definition config_stream :: "nat \<times> client_pc \<Rightarrow> stream_ref" where
  "config_stream t = (case snd t of Option_Loop n \<Rightarrow> Client_Stream (fst t) | Leaving \<Rightarrow> Client_Stream (fst t) | _ \<Rightarrow> Own_Stream)"

definition config_threads :: "daemon \<Rightarrow> (nat \<times> client_pc) list" where
  "config_threads d = filter (\<lambda>t. in_config (snd t)) (threads d)"

definition config_ok :: "bool \<Rightarrow> stream_ref \<Rightarrow> (nat \<times> client_pc) list \<Rightarrow> bool" where
  "config_ok active out cts \<longleftrightarrow>
     (case cts of [] \<Rightarrow> \<not> active \<and> out = Own_Stream | t # ts \<Rightarrow> ts = [] \<and> active \<and> out = config_stream t)"

definition daemon_config :: "daemon \<Rightarrow> bool" where
  "daemon_config d \<longleftrightarrow> input_fd d = output_fd d \<and> config_ok (config_mode_active (server d)) (output_fd d) (config_threads d)"

lemma server_step_config: "daemon_config d \<Longrightarrow> daemon_config (server_step a d)"
  by (auto simp: server_step_def daemon_config_def config_threads_def in_config_def Let_def split: server_pc.split select_ret.split)

text \<open>A thread that is in the section is the only one there.\<close>

lemma config_only:
  "config_ok b out (as @ t # bs) \<longleftrightarrow> as = [] \<and> bs = [] \<and> b \<and> out = config_stream t"
  by (cases as; cases bs) (auto simp: config_ok_def)

lemma config_single [simp]: "config_ok b out [t] \<longleftrightarrow> b \<and> out = config_stream t"
  by (auto simp: config_ok_def)

lemma client_step_config_cases:
  assumes "client_step a (x, pc) d = Ret (d', t)" "input_fd d = output_fd d"
  obtains (outside) "\<not> in_config pc" "\<forall>u. t = Some u \<longrightarrow> \<not> in_config (snd u)" "output_fd d' = output_fd d" "input_fd d' = output_fd d'"
      "config_mode_active (server d') = config_mode_active (server d)"
  | (enter) "pc = Config_Lock" "\<not> config_mode_active (server d)" "t = Some (x, Config_Entered)" "output_fd d' = output_fd d"
      "input_fd d' = output_fd d'" "config_mode_active (server d')"
  | (inside) u where "in_config pc" "t = Some u" "in_config (snd u)" "output_fd d' = (if config_stream u = config_stream (x, pc) then output_fd d else config_stream u)"
      "input_fd d' = output_fd d'" "config_mode_active (server d') = config_mode_active (server d)"
  | (exit) "pc = Leaving_Unlock" "t = Some (x, Disconnect 0 False)" "output_fd d' = output_fd d" "input_fd d' = output_fd d'"
      "\<not> config_mode_active (server d')"
proof (cases pc)
  case (Option_Loop n)
  with assms inside show ?thesis
    by (auto simp: client_step_def serve_request_def in_config_def config_stream_def Let_def split: if_splits select_ret.splits c_ret.splits)
next
  case Config_Entered
  with assms inside show ?thesis by (auto simp: client_step_def in_config_def config_stream_def)
next
  case Leaving
  with assms inside show ?thesis by (auto simp: client_step_def in_config_def config_stream_def)
next
  case Leaving_Unlock
  with assms exit show ?thesis by (auto simp: client_step_def)
next
  case Config_Lock
  with assms enter outside show ?thesis by (auto simp: client_step_def in_config_def split: if_splits)
qed (use assms outside in \<open>auto simp: client_step_def in_config_def case_prod_unfold Let_def split: if_splits c_ret.splits\<close>)

lemma client_step_config:
  assumes "daemon_config d" "i < length (threads d)" "client_step a (threads d ! i) d = Ret (d', t)"
  shows "daemon_config (d'\<lparr>threads := replace_thread i t (threads d)\<rparr>)"
proof -
  obtain x pc where xp: "threads d ! i = (x, pc)" by fastforce
  obtain as bs where sp: "threads d = as @ (x, pc) # bs" "replace_thread i None (threads d) = as @ bs"
    "\<forall>t. replace_thread i (Some t) (threads d) = as @ t # bs"
    using thread_split[OF assms(2)] xp by auto
  define fa where "fa = filter (\<lambda>t. in_config (snd t)) as"
  define fb where "fb = filter (\<lambda>t. in_config (snd t)) bs"
  have c: "input_fd d = output_fd d"
    "config_ok (config_mode_active (server d)) (output_fd d) (if in_config pc then fa @ (x, pc) # fb else fa @ fb)"
    using assms(1) sp(1) by (auto simp: daemon_config_def config_threads_def fa_def fb_def)
  have new: "config_threads (d'\<lparr>threads := replace_thread i t (threads d)\<rparr>) =
      (case t of None \<Rightarrow> fa @ fb | Some u \<Rightarrow> if in_config (snd u) then fa @ u # fb else fa @ fb)"
    using sp(2,3) by (cases t) (auto simp: config_threads_def fa_def fb_def)
  from assms(3)[unfolded xp] c(1) show ?thesis
  proof (cases rule: client_step_config_cases)
    case outside
    with c new show ?thesis by (auto simp: daemon_config_def split: option.split)
  next
    case enter
    with c(2) have "fa @ fb = []" "output_fd d = Own_Stream" by (auto simp: in_config_def config_ok_def split: list.splits)
    with enter new show ?thesis by (simp add: daemon_config_def in_config_def config_ok_def config_stream_def)
  next
    case (inside u)
    with c new show ?thesis by (auto simp: daemon_config_def config_only)
  next
    case exit
    with c new show ?thesis
      by (auto simp: daemon_config_def in_config_def config_only) (simp add: config_ok_def config_stream_def)
  qed
qed

subsection \<open>Every run of the daemon\<close>

lemma daemon_step_inv:
  assumes "daemon_step lib d d'" "daemon_slots d" "daemon_config d"
  shows "daemon_slots d' \<and> daemon_config d'"
  using assms
proof (cases rule: daemon_step.cases)
  case (by_server a)
  with assms show ?thesis using server_step_slots server_step_config by blast
next
  case (by_client i a d'' t)
  with assms show ?thesis using client_step_slots client_step_config by blast
next
  case (by_signal stop_all)
  with assms show ?thesis by (simp add: daemon_slots_def daemon_config_def config_threads_def)
qed

lemma fresh_daemon_inv:
  assumes "daemon_mode_initialization fork_ret setsid_ret alloc path sd fcntl_ok bind_ok listen_ok = Daemon_Started si"
  shows "daemon_slots (fresh_daemon si fds s es) \<and> daemon_config (fresh_daemon si fds s es)"
proof -
  have "clients si = replicate MAX_NUMBER_SUP_CLIENTS free_client" "clients_cnt si = 0" "\<not> config_mode_active si"
    using assms by (auto simp: daemon_mode_initialization_def daemon_init_structures_def daemon_init_socket_def Let_def
        split: if_splits option.splits)
  then show ?thesis
    by (simp add: daemon_slots_def daemon_config_def fresh_daemon_def slots_ok_def owners_def server_slot_def counted_threads_def
        server_ok_def config_ok_def config_threads_def free_client_def)
qed

lemma daemon_run_inv: "daemon_run J calloc_ok sock_path lib d bs \<Longrightarrow> daemon_slots d \<and> daemon_config d"
proof (induction rule: daemon_run.induct)
  case (daemon_start fork_ret setsid_ret alloc path sd fcntl_ok bind_ok listen_ok si netconf backup parse generated gener_file s es fds)
  then show ?case by (intro fresh_daemon_inv)
next
  case (daemon_thread d bs d')
  then show ?case using daemon_step_inv by blast
qed (simp_all add: daemon_slots_def daemon_config_def config_threads_def)

text \<open>A client thread after a stop was requested: how many steps it has left.\<close>

definition steps_left :: "client_pc \<Rightarrow> nat" where
  "steps_left pc =
     (case pc of Opening \<Rightarrow> 13 | Reading_Code \<Rightarrow> 12 | Config_Lock \<Rightarrow> 11 | Config_Entered \<Rightarrow> 10 | Option_Loop n \<Rightarrow> 9 | Leaving \<Rightarrow> 8
      | Leaving_Unlock \<Rightarrow> 7 | Disconnect k r \<Rightarrow> 6 - min k 4 | Reloading \<Rightarrow> 1)"

lemma client_step_stops:
  assumes "daemon_terminated (server d)" "client_step a t d = Ret (d', Some t')"
  shows "daemon_terminated (server d') \<and> steps_left (snd t') < steps_left (snd t)"
  using assms
  by (cases "snd t") (auto simp: client_step_def steps_left_def case_prod_unfold Let_def split: if_splits c_ret.splits)

subsection \<open>Schedules\<close>

text \<open>A run as a list of the threads that move, with their answers; \<open>None\<close> when one of them cannot.\<close>

datatype actor = Server_Moves server_answers | Client_Moves nat client_answers

definition no_reload :: "libxml \<Rightarrow> sup \<Rightarrow> (sup \<times> bool) \<times> os_event list" where
  "no_reload lib = reload_configuration lib RELOAD_DEFAULT_CONFIG_FILE None (\<lambda>f. None) False [] None"

fun schedule :: "libxml \<Rightarrow> actor list \<Rightarrow> daemon \<Rightarrow> daemon option" where
  "schedule lib [] d = Some d"
| "schedule lib (Server_Moves a # as) d = (if accept_ok a d then schedule lib as (server_step a d) else None)"
| "schedule lib (Client_Moves i a # as) d =
     (if i < length (threads d)
      then (case client_step (a\<lparr>op_reload := no_reload lib\<rparr>) (threads d ! i) d of
              Undefined \<Rightarrow> None
            | Ret (d', t) \<Rightarrow> schedule lib as (d'\<lparr>threads := replace_thread i t (threads d)\<rparr>))
      else None)"

lemma schedule_run:
  "schedule lib as d = Some d' \<Longrightarrow> daemon_run J calloc_ok sock_path lib d bs \<Longrightarrow> daemon_run J calloc_ok sock_path lib d' bs"
proof (induction lib as d rule: schedule.induct)
  case (2 lib a as d)
  then show ?case by (auto split: if_splits intro: daemon_thread by_server)
next
  case (3 lib i a as d)
  then obtain d1 t where c: "i < length (threads d)" "client_step (a\<lparr>op_reload := no_reload lib\<rparr>) (threads d ! i) d = Ret (d1, t)"
    "schedule lib as (d1\<lparr>threads := replace_thread i t (threads d)\<rparr>) = Some d'"
    by (auto split: if_splits c_ret.splits)
  have "daemon_run J calloc_ok sock_path lib (d1\<lparr>threads := replace_thread i t (threads d)\<rparr>) bs"
    using daemon_thread[OF "3.prems"(2) by_client[OF c(1,2)]] by (simp add: no_reload_def)
  with "3.IH"[OF c(1,2) refl c(3)] show ?case by simp
qed simp

definition first_state :: daemon where
  "first_state = fresh_daemon \<lparr>clients = replicate MAX_NUMBER_SUP_CLIENTS free_client, clients_cnt = 0, server_sd = 3,
     daemon_terminated = False, next_client_id = 0, config_mode_active = False\<rparr> {0, 1, 2, 3}
     (fst (fst (supervisor_initialization doc_lib True None (\<lambda>f. None) False [] True initial_globals))) []"

lemma first_state_run: "daemon_run J calloc_ok sock_path doc_lib first_state 256"
  unfolding first_state_def
  by (rule daemon_start[where fork_ret = 0 and setsid_ret = 0 and alloc = "\<lambda>k. True" and path = "[]" and sd = 3 and fcntl_ok = True
        and bind_ok = True and listen_ok = True and netconf = True and backup = None and parse = "\<lambda>f. None" and generated = False
        and gener_file = "[]"])
    (simp_all add: daemon_mode_initialization_def daemon_init_structures_def daemon_init_socket_def supervisor_initialization_def Let_def list_all_iff)

definition connect :: actor where
  "connect = Server_Moves \<lparr>srv_select = Select_Ready, srv_accept = 5, create_ok = True\<rparr>"

definition client_says :: "nat \<Rightarrow> select_ret \<Rightarrow> string \<Rightarrow> actor" where
  "client_says i sel line = Client_Moves i \<lparr>fdopen_in_ok = True, fdopen_out_ok = True, fileno_ret = 5, cli_select = sel,
     bytes_to_read = 7, cli_line = Some line, op_input = None, op_kill0 = (\<lambda>p. Kill_ESRCH), op_reload = no_reload doc_lib\<rparr>"

definition two_clients :: "actor list" where
  "two_clients = [connect, connect, connect, connect, connect,
     client_says 0 Select_Ready [], client_says 0 Select_Timeout [], client_says 0 Select_Timeout [],
     connect, connect, connect, connect, connect, connect,
     client_says 1 Select_Ready (''789123'' @ [CHR 0x0A]), client_says 1 Select_Ready (''789123'' @ [CHR 0x0A]),
     client_says 1 Select_Ready [], client_says 1 Select_Ready [], client_says 0 Select_Ready []]"

lemma no_clients: "replicate MAX_NUMBER_SUP_CLIENTS c = [c, c, c, c, c]"
  by (simp add: MAX_NUMBER_SUP_CLIENTS_def numeral_eq_Suc)

lemma config_code_line: "get_input_from_stream (Some (''789123'' @ [CHR 0x0A])) = Ret (Some ''789123'')" "sscanf_d ''789123'' = Some 789123"
  by (simp_all add: get_input_from_stream_def DEFAULT_SIZE_OF_BUFFER_def sscanf_d_def is_space_def is_digit_def scan_digits_def
      char_digit_def clamp64_def to_int32_def)

lemmas daemon_steps = server_step_def accept_ok_def client_step_def store_client_def set_client_def add_clients_def close_fd_def
  daemon_open_client_streams_def daemon_get_code_from_client_def disconnect_statement_def replace_thread_def set_active_def
  set_streams_def client_codes

lemma two_clients_result:
  "\<exists>d. schedule doc_lib two_clients first_state = Some d \<and> (1, Option_Loop 0) \<in> set (threads d) \<and>
     client_connected (clients (server d) ! 1) \<and> client_sd (clients (server d) ! 1) \<notin> open_fds d"
  by (simp add: two_clients_def first_state_def fresh_daemon_def connect_def client_says_def no_clients free_client_def
      daemon_steps config_code_line[simplified] MAX_NUMBER_SUP_CLIENTS_def Let_def)

subsection \<open>Properties\<close>



text \<open>
  C25. In every run at most one client is in the configuration mode, the flag \<open>config_mode_active\<close> is set exactly while one is,
  and the output of the supervisor goes to a client only while that client is in this mode.
\<close>

theorem config_mode_exclusive:
  assumes "daemon_run J calloc_ok sock_path lib d bs"
  shows "length (config_threads d) \<le> 1 \<and> (config_mode_active (server d) \<longleftrightarrow> config_threads d \<noteq> []) \<and>
    (\<forall>x. output_fd d = Client_Stream x \<longrightarrow> (\<exists>pc. config_threads d = [(x, pc)])) \<and> input_fd d = output_fd d"
proof -
  have c: "input_fd d = output_fd d" "config_ok (config_mode_active (server d)) (output_fd d) (config_threads d)"
    using daemon_run_inv[OF assms] by (simp_all add: daemon_config_def)
  then show ?thesis
    by (cases "config_threads d") (auto simp: config_ok_def config_stream_def split: client_pc.splits)
qed

theorem config_mode_exclusive_witness:
  "\<not> config_mode_active (server first_state) \<and> length (config_threads first_state) \<le> 1"
  using config_mode_exclusive[OF first_state_run] by (simp add: first_state_def fresh_daemon_def)



text \<open>
  C39. \<open>daemon_disconnect_client\<close> closes the descriptor of a client up to four times. There is a run in which the number was given to a new
  connection in between: the second \<open>close\<close> cuts off another client that is in the configuration mode.
\<close>

theorem disconnect_closes_other_client:
  "\<exists>d. daemon_run J calloc_ok sock_path doc_lib d 256 \<and> (1, Option_Loop 0) \<in> set (threads d) \<and>
     client_connected (clients (server d) ! 1) \<and> client_sd (clients (server d) ! 1) \<notin> open_fds d"
  using two_clients_result schedule_run[OF _ first_state_run] by blast

lemma one_client_result:
  "\<exists>d. schedule doc_lib (take 8 two_clients) first_state = Some d \<and> threads d = [(0, Disconnect 1 False)] \<and>
     \<not> (\<exists>c \<in> set (clients (server d)). client_connected c)"
  by (simp add: two_clients_def first_state_def fresh_daemon_def connect_def client_says_def no_clients free_client_def
      daemon_steps MAX_NUMBER_SUP_CLIENTS_def numeral_eq_Suc Let_def)

text \<open>
  \<open>supervisor_termination\<close> waits for the flags \<open>client_connected\<close>, which a leaving client clears first. There is a run in which it finds
  all clients gone and goes on to free their slots while a client thread still works on one.
\<close>

theorem slots_freed_in_use:
  "\<exists>d. daemon_run J calloc_ok sock_path doc_lib d 256 \<and> wait_for_clients (\<lambda>k. map client_connected (clients (server d))) 0 \<and>
     (\<exists>x pc. (x, pc) \<in> set (threads d) \<and> holds_slot pc)"
proof -
  obtain d where d: "schedule doc_lib (take 8 two_clients) first_state = Some d" "threads d = [(0, Disconnect 1 False)]"
    "\<not> (\<exists>c \<in> set (clients (server d)). client_connected c)" using one_client_result by blast
  have "wait_for_clients (\<lambda>k. map client_connected (clients (server d))) 0"
    using d(3) by (subst wait_for_clients.simps) auto
  moreover have "\<exists>x pc. (x, pc) \<in> set (threads d) \<and> holds_slot pc" using d(2) by (simp add: holds_slot_def)
  ultimately show ?thesis using schedule_run[OF d(1) first_state_run] by blast
qed

end
