(* ===== verification/Status_Text.thy ===== *)
theory Status_Text
  imports Service
begin

section \<open>Printing the state of the modules\<close>

text \<open>
  \<open>print_msg\<close> and the macro \<open>VERBOSE\<close> (\<^verbatim>\<open>internal.c\<close>, \<^verbatim>\<open>internal.h\<close>) and the options of the menu that print the
  modules (\<^verbatim>\<open>supervisor.c\<close>, lines 2572-2606 and 3191-3351). A message is a list of pieces, so that its visible text can
  be told from the escape sequences. Proved: the columns of the brief status are aligned whatever the names, numbers and
  process identifiers are, every module of a profile is printed once, and the detailed status stays inside the arrays of
  statistics.
\<close>

subsection \<open>Messages\<close>

datatype piece = Text string | Esc string

fun piece_text :: "piece \<Rightarrow> string" where
  "piece_text (Text t) = t"
| "piece_text (Esc t) = t"

fun visible :: "piece list \<Rightarrow> string" where
  "visible [] = []"
| "visible (Text t # ps) = t @ visible ps"
| "visible (Esc t # ps) = visible ps"

definition esc :: "string \<Rightarrow> piece" where
  "esc t = Esc (CHR 0x1B # t)"

definition FORMAT_RESET :: piece where "FORMAT_RESET = esc ''[0m''"

definition FORMAT_BOLD :: piece where "FORMAT_BOLD = esc ''[1m''"

definition FORMAT_WARNING :: piece where "FORMAT_WARNING = esc ''[38;5;196m''"

definition FORMAT_RUNNING :: piece where "FORMAT_RUNNING = esc ''[38;5;40;1m''"

definition FORMAT_STOPPED :: piece where "FORMAT_STOPPED = esc ''[38;5;196;1m''"

lemmas format_defs = FORMAT_RESET_def FORMAT_BOLD_def FORMAT_WARNING_def FORMAT_RUNNING_def FORMAT_STOPPED_def esc_def

text \<open>\<open>snprintf (verbose_msg, 4095, \<dots>)\<close>: at most 4094 characters of the message.\<close>

fun cut_pieces :: "nat \<Rightarrow> piece list \<Rightarrow> piece list" where
  "cut_pieces n [] = []"
| "cut_pieces n (Text t # ps) = Text (take n t) # cut_pieces (n - length t) ps"
| "cut_pieces n (Esc t # ps) = Esc (take n t) # cut_pieces (n - length t) ps"

definition verbose :: "piece list \<Rightarrow> piece list" where
  "verbose ps = cut_pieces 4094 ps"

fun msg_len :: "piece list \<Rightarrow> nat" where
  "msg_len [] = 0"
| "msg_len (p # ps) = length (piece_text p) + msg_len ps"

datatype msg_level = STATISTICS | MODULE_EVENT | N_STDOUT | DEBUG | SUP_LOG

text \<open>The text written to each stream so far; \<open>None\<close> for a stream that is not open.\<close>

record log_streams =
  to_statistics :: "string option"
  to_module_event :: "string option"
  to_output :: "string option"
  to_debug_log :: "string option"
  to_supervisor_log :: "string option"

definition print_msg :: "msg_level \<Rightarrow> string \<Rightarrow> log_streams \<Rightarrow> log_streams" where
  "print_msg level t o' =
     (let put = map_option (\<lambda>w. w @ t)
      in case level of
           STATISTICS \<Rightarrow> to_statistics_update put o'
         | MODULE_EVENT \<Rightarrow> to_module_event_update put o'
         | N_STDOUT \<Rightarrow> to_output_update put o'
         | DEBUG \<Rightarrow> to_debug_log_update put o'
         | SUP_LOG \<Rightarrow> to_supervisor_log_update put o')"

definition VERBOSE :: "msg_level \<Rightarrow> piece list \<Rightarrow> log_streams \<Rightarrow> log_streams" where
  "VERBOSE level ps o' = print_msg level (concat (map piece_text (verbose ps))) o'"

lemma cut_pieces_id: "msg_len ps \<le> n \<Longrightarrow> cut_pieces n ps = ps"
  by (induction n ps rule: cut_pieces.induct) auto

lemma verbose_id: "msg_len ps \<le> 4094 \<Longrightarrow> verbose ps = ps"
  by (simp add: verbose_def cut_pieces_id)

lemma visible_append [simp]: "visible (ps @ qs) = visible ps @ visible qs"
  by (induction ps rule: visible.induct) auto

subsection \<open>Formats\<close>

text \<open>\<open>%*c\<close> of a blank: at least one character, and the absolute value of the width.\<close>

definition blanks :: "int \<Rightarrow> string" where
  "blanks w = replicate (max 1 (nat \<bar>w\<bar>)) (CHR '' '')"

text \<open>\<open>%s\<close> of the GNU C library.\<close>

definition text_of :: "string option \<Rightarrow> string" where
  "text_of t = (case t of None \<Rightarrow> ''(null)'' | Some u \<Rightarrow> u)"

definition newline :: string where
  "newline = [CHR 0x0A]"

lemma length_blanks: "1 \<le> w \<Longrightarrow> length (blanks w) = nat w"
  by (simp add: blanks_def)

subsection \<open>The brief status\<close>

text \<open>The loop \<open>if (len > longest) longest = len\<close>.\<close>

fun longest :: "nat \<Rightarrow> nat list \<Rightarrow> nat" where
  "longest l [] = l"
| "longest l (n # ns) = longest (if n > l then n else l) ns"

definition longest_mod_num :: "sup \<Rightarrow> int" where
  "longest_mod_num s = int (get_digits_num (int (loaded_modules_cnt s) - 1))"

definition longest_mod_pid :: "sup \<Rightarrow> int" where
  "longest_mod_pid s =
     (let p = longest 0 (map (\<lambda>m. get_digits_num (module_pid m)) (loaded s)) in if 3 > p then 3 else int p)"

definition name_len :: "running_module \<Rightarrow> nat" where
  "name_len m = (case module_name m of None \<Rightarrow> 0 | Some n \<Rightarrow> length n)"

definition longest_name_end :: "sup \<Rightarrow> int" where
  "longest_name_end s =
     (let longest_prof_name = longest 0 (map (\<lambda>p. length (profile_name p)) (profiles s));
          longest_mod_name = longest 0 (map name_len (loaded s));
          min_name_end = 11 + longest_mod_num s;
          longest_prof_row = 9 + int longest_prof_name;
          longest_mod_row = 3 + longest_mod_num s + 3 + int longest_mod_name;
          name_end = (if longest_prof_row > longest_mod_row then longest_prof_row + 1 else longest_mod_row + 1)
      in if min_name_end > name_end then min_name_end else name_end)"

datatype status_row = Title "piece list" | Header "piece list" | Profile_Row nat "piece list" | Module_Row nat "piece list"
  | Detail "piece list" | Empty_Row

definition header_row :: "sup \<Rightarrow> status_row" where
  "header_row s =
     Header (verbose [FORMAT_BOLD, Text (blanks (4 + longest_mod_num s)), Text ''| name'',
       Text (blanks (longest_name_end s - longest_mod_num s - 10)), Text ''| enabled | status  | PID'', FORMAT_RESET,
       Text (blanks (longest_mod_pid s + 1 - 3)), Text (''|'' @ newline)])"

definition profile_row :: "sup \<Rightarrow> nat \<Rightarrow> status_row" where
  "profile_row s i =
     (let p = profiles s ! i; len = 9 + int (length (profile_name p))
      in Profile_Row i (verbose ([FORMAT_BOLD, Text (''Profile: '' @ profile_name p), Text (blanks (longest_name_end s - len)), FORMAT_RESET,
             Text ''|  ''] @
           (if profile_enabled p then [FORMAT_RUNNING, Text ''true'', FORMAT_RESET, Text (''   |'' @ newline)]
            else [FORMAT_STOPPED, Text ''false'', FORMAT_RESET, Text (''  |'' @ newline)]))))"

text \<open>The number and the name, also printed by the other options.\<close>

definition number_and_name :: "sup \<Rightarrow> nat \<Rightarrow> string" where
  "number_and_name s x =
     ''   '' @ print_int (int x) @ blanks (longest_mod_num s + 1 - int (get_digits_num (int x))) @ ''| '' @
     text_of (module_name (running_modules s ! x))"

definition module_row :: "sup \<Rightarrow> nat \<Rightarrow> status_row" where
  "module_row s x =
     (let m = running_modules s ! x;
          len = 3 + longest_mod_num s + 3 + int (name_len m)
      in Module_Row x
           (verbose [Text (number_and_name s x)] @
            verbose [Text (blanks (longest_name_end s - len))] @
            verbose (if module_enabled m then [Text ''|  '', FORMAT_RUNNING, Text ''true'', FORMAT_RESET, Text ''   | '']
                     else [Text ''|  '', FORMAT_STOPPED, Text ''false'', FORMAT_RESET, Text ''  | '']) @
            verbose (if module_status m then [FORMAT_RUNNING, Text ''running'', FORMAT_RESET, Text '' | '']
                     else [FORMAT_STOPPED, Text ''stopped'', FORMAT_RESET, Text '' | '']) @
            verbose [Text (print_int (module_pid m) @ blanks (longest_mod_pid s + 1 - int (get_digits_num (module_pid m))) @ ''|'' @ newline)]))"

text \<open>The numbers of the loaded modules whose profile is the one at position \<open>i\<close>.\<close>

definition profile_modules :: "sup \<Rightarrow> nat \<Rightarrow> nat list" where
  "profile_modules s i = filter (\<lambda>x. module_profile (running_modules s ! x) = Some i) [0..<loaded_modules_cnt s]"

definition no_module_row :: status_row where
  "no_module_row = Title (verbose [FORMAT_WARNING, Text (''[WARNING] No module is loaded.'' @ newline), FORMAT_RESET])"

text \<open>\<open>Undefined\<close>: \<open>strlen\<close> of the name of a module that has none.\<close>

definition interactive_print_brief_status :: "sup \<Rightarrow> status_row list c_ret" where
  "interactive_print_brief_status s =
     (if loaded_modules_cnt s = 0 then Ret [no_module_row]
      else if list_ex (\<lambda>m. module_name m = None) (loaded s) then Undefined
      else Ret (Title (verbose [Text (''--- [CONFIGURATION STATUS] ---'' @ newline)]) # header_row s #
             concat (map (\<lambda>i. profile_row s i # map (module_row s) (profile_modules s i) @ [Empty_Row]) [0..<length (profiles s)])))"

subsection \<open>The detailed status and the loaded configuration\<close>

text \<open>The results of the iterations of a loop; \<open>Undefined\<close> when one is.\<close>

fun collect :: "'a c_ret list \<Rightarrow> 'a list c_ret" where
  "collect [] = Ret []"
| "collect (r # rs) =
     (case r of Undefined \<Rightarrow> Undefined
      | Ret v \<Rightarrow> (case collect rs of Undefined \<Rightarrow> Undefined | Ret vs \<Rightarrow> Ret (v # vs)))"

text \<open>Element \<open>y\<close> of an array of statistics.\<close>

definition cell :: "'a list option \<Rightarrow> nat \<Rightarrow> 'a c_ret" where
  "cell d y = (case d of None \<Rightarrow> Undefined | Some cs \<Rightarrow> if y < length cs then Ret (cs ! y) else Undefined)"

text \<open>A format with \<open>%c\<close>: a zero byte ends the message.\<close>

definition with_char :: "string \<Rightarrow> u8 \<Rightarrow> string \<Rightarrow> string" where
  "with_char before c after = (if c = 0 then before else before @ [char_of (unat c)] @ after)"

definition in_ifc_row :: "running_module \<Rightarrow> nat \<Rightarrow> status_row c_ret" where
  "in_ifc_row m y =
     (case cell (in_ifces_data m) y of
        Undefined \<Rightarrow> Undefined
      | Ret i \<Rightarrow> Ret (Detail
          (verbose [Text (with_char (''      IFC '' @ print_int (int y) @ '':  IN; '') (in_ifc_type i) (''; '' @ text_of (in_ifc_id i) @ ''; ''))] @
           verbose [FORMAT_BOLD, Text (if in_ifc_state i = 1 then ''connected'' else ''not connected''), FORMAT_RESET, Text newline])))"

definition out_ifc_row :: "running_module \<Rightarrow> nat \<Rightarrow> status_row c_ret" where
  "out_ifc_row m y =
     (case cell (out_ifces_data m) y of
        Undefined \<Rightarrow> Undefined
      | Ret i \<Rightarrow> Ret (Detail
          (verbose [Text (with_char (''      IFC '' @ print_int (sint (of_nat y + total_in_ifces_cnt m)) @ '':  OUT; '') (out_ifc_type i)
                       (''; '' @ text_of (out_ifc_id i) @ ''; ''))] @
           verbose [FORMAT_BOLD, Text (''num of clients: '' @ print_int (sint (num_clients i))), FORMAT_RESET, Text newline])))"

definition detailed_module :: "sup \<Rightarrow> nat \<Rightarrow> status_row list c_ret" where
  "detailed_module s x =
     (let m = running_modules s ! x;
          row = verbose [Text (number_and_name s x)] @
            verbose (Text '' | '' # (if module_enabled m then [FORMAT_RUNNING, Text ''enabled''] else [FORMAT_STOPPED, Text ''disabled'']) @
              [FORMAT_RESET, Text '' | '']) @
            verbose (if module_status m then [FORMAT_RUNNING, Text ''running'', FORMAT_RESET, Text ('' | PID: '' @ print_int (module_pid m) @ newline)]
                     else [FORMAT_STOPPED, Text ''stopped'', FORMAT_RESET, Text newline]);
          service = Detail (verbose [Text ''      IFC service: '', FORMAT_BOLD,
              Text (if module_service_ifc_isconnected m then ''connected'' else ''not connected''), FORMAT_RESET, Text newline])
      in if \<not> module_status m then Ret [Module_Row x row]
         else if \<not> module_service_ifc_isconnected m then Ret [Module_Row x row, service]
         else (case collect (map (in_ifc_row m) [0..<unat (total_in_ifces_cnt m)] @ map (out_ifc_row m) [0..<unat (total_out_ifces_cnt m)]) of
                 Undefined \<Rightarrow> Undefined
               | Ret rows \<Rightarrow> Ret (Module_Row x row # service # rows)))"

definition detailed_profile :: "sup \<Rightarrow> nat \<Rightarrow> status_row list c_ret" where
  "detailed_profile s i =
     (let p = profiles s ! i
      in case collect (map (detailed_module s) (profile_modules s i)) of
           Undefined \<Rightarrow> Undefined
         | Ret rows \<Rightarrow>
             Ret (Profile_Row i (verbose ([FORMAT_BOLD, Text (''Profile: '' @ profile_name p @ '' ('')] @
                    (if profile_enabled p then [FORMAT_RUNNING, Text ''enabled'', FORMAT_RESET, Text ('')'' @ newline)]
                     else [FORMAT_STOPPED, Text ''disabled'', FORMAT_RESET, Text ('')'' @ newline), FORMAT_RESET]))) #
                  concat rows @ [Empty_Row]))"

definition interactive_print_detailed_status :: "sup \<Rightarrow> status_row list c_ret" where
  "interactive_print_detailed_status s =
     (if loaded_modules_cnt s = 0 then Ret [no_module_row]
      else case collect (map (detailed_profile s) [0..<length (profiles s)]) of
             Undefined \<Rightarrow> Undefined
           | Ret rows \<Rightarrow> Ret (Title (verbose [Text (''--- [PRINTING CONFIGURATION] ---'' @ newline)]) # concat rows))"

definition or_none :: "string option \<Rightarrow> string" where
  "or_none t = (case t of None \<Rightarrow> ''none'' | Some u \<Rightarrow> u)"

definition config_ifc_row :: "running_module \<Rightarrow> nat \<Rightarrow> status_row" where
  "config_ifc_row m y =
     (let i = config_ifces m ! y
      in Detail (verbose [Text ''      '', FORMAT_BOLD, Text (''IFC '' @ print_int (int y) @ '':''), FORMAT_RESET,
           Text (''  '' @ or_none (ifc_direction i) @ ''; '' @ or_none (ifc_type i) @ ''; '' @ or_none (ifc_params i) @ ''; '' @
             or_none (ifc_note i) @ newline)]))"

definition config_module :: "sup \<Rightarrow> nat \<Rightarrow> status_row list" where
  "config_module s x =
     (let m = running_modules s ! x
      in [Module_Row x (verbose [Text (number_and_name s x @ newline)]),
          Detail (verbose [Text ''      '', FORMAT_BOLD, Text ''PATH:'', FORMAT_RESET, Text ('' '' @ or_none (module_path m) @ newline)]),
          Detail (verbose [Text ''      '', FORMAT_BOLD, Text ''PARAMS:'', FORMAT_RESET, Text ('' '' @ or_none (module_params m) @ newline)])] @
         map (config_ifc_row m) [0..<config_ifces_cnt m])"

text \<open>\<open>Undefined\<close>: an interface read behind the array.\<close>

definition interactive_print_loaded_configuration :: "sup \<Rightarrow> status_row list c_ret" where
  "interactive_print_loaded_configuration s =
     (if loaded_modules_cnt s = 0 then Ret [no_module_row]
      else if list_ex (\<lambda>m. module_profile m \<noteq> None \<and> config_ifces_cnt m > length (config_ifces m)) (loaded s) then Undefined
      else Ret (Title (verbose [Text (''--- [PRINTING CONFIGURATION] ---'' @ newline)]) #
             concat (map (\<lambda>i. Profile_Row i (verbose [FORMAT_BOLD, Text (''Profile: '' @ profile_name (profiles s ! i)), FORMAT_RESET, Text newline]) #
                            concat (map (config_module s) (profile_modules s i)) @ [Empty_Row])
                        [0..<length (profiles s)])))"

subsection \<open>Alignment\<close>

definition bars :: "int list \<Rightarrow> string \<Rightarrow> bool" where
  "bars cs v \<longleftrightarrow> list_all (\<lambda>c. nat c < length v \<and> v ! nat c = CHR ''|'') cs"

text \<open>The separators of a table whose names end at column \<open>e\<close> and whose process identifiers have \<open>p\<close> characters.\<close>

fun row_aligned :: "int \<Rightarrow> int \<Rightarrow> status_row \<Rightarrow> bool" where
  "row_aligned e p (Header ps) \<longleftrightarrow> bars [e, e + 10, e + 20, e + 23 + p] (visible ps) \<and> length (visible ps) = nat (e + 25 + p)"
| "row_aligned e p (Module_Row x ps) \<longleftrightarrow> bars [e, e + 10, e + 20, e + 23 + p] (visible ps) \<and> length (visible ps) = nat (e + 25 + p)"
| "row_aligned e p (Profile_Row i ps) \<longleftrightarrow> bars [e, e + 10] (visible ps) \<and> length (visible ps) = nat (e + 12)"
| "row_aligned e p r \<longleftrightarrow> True"

lemma bars_table:
  assumes "v = a @ ''|'' @ b @ ''|'' @ c @ ''|'' @ d @ ''|'' @ newline"
    and "int (length a) = e" "length b = 9" "length c = 9" "int (length d) = p + 2"
  shows "bars [e, e + 10, e + 20, e + 23 + p] v \<and> length v = nat (e + 25 + p)"
proof -
  have "nat (e + 10) = length a + 10" "nat (e + 20) = length a + 20" "nat (e + 23 + p) = length a + 21 + length d" "nat e = length a"
    "nat (e + 25 + p) = length a + 23 + length d"
    using assms(2,5) by simp_all
  then show ?thesis
    using assms by (simp add: bars_def nth_append newline_def)
qed

lemma bars_profile:
  assumes "v = a @ ''|'' @ b @ ''|'' @ newline" and "int (length a) = e" "length b = 9"
  shows "bars [e, e + 10] v \<and> length v = nat (e + 12)"
proof -
  have "nat (e + 10) = length a + 10" "nat e = length a" "nat (e + 12) = length a + 12"
    using assms(2) by simp_all
  then show ?thesis
    using assms by (simp add: bars_def nth_append newline_def)
qed

lemma longest_ge: "l \<le> longest l ns" and longest_mem: "n \<in> set ns \<Longrightarrow> n \<le> longest l ns"
  by (induction l ns rule: longest.induct) (auto split: if_splits)

lemma digits_mono:
  assumes "0 \<le> a" "a \<le> b"
  shows "get_digits_num a \<le> get_digits_num b"
proof -
  have "0 < length (print_nat (nat \<bar>b\<bar>))" by simp
  then have "nat \<bar>b\<bar> < 10 ^ length (print_nat (nat \<bar>b\<bar>))"
    using length_print_nat_le by blast
  moreover have "nat \<bar>a\<bar> \<le> nat \<bar>b\<bar>" using assms by simp
  ultimately show ?thesis
    unfolding get_digits_num_print by (subst length_print_nat_le) (simp, linarith)
qed

lemma digits_num_pos: "1 \<le> get_digits_num a"
  by (simp add: get_digits_num_print Suc_le_eq)

lemma length_print_int: "0 \<le> a \<Longrightarrow> length (print_int a) = get_digits_num a"
  by (simp add: print_int_def get_digits_num_print)

text \<open>The bounds the widths give: all fields of the table have a positive width.\<close>

lemma name_end_bounds:
  shows "11 + longest_mod_num s \<le> longest_name_end s"
    and "p \<in> set (profiles s) \<Longrightarrow> 10 + int (length (profile_name p)) \<le> longest_name_end s"
    and "m \<in> set (loaded s) \<Longrightarrow> 7 + longest_mod_num s + int (name_len m) \<le> longest_name_end s"
proof -
  show "11 + longest_mod_num s \<le> longest_name_end s"
    by (simp add: longest_name_end_def Let_def)
  show "10 + int (length (profile_name p)) \<le> longest_name_end s" if "p \<in> set (profiles s)"
    using longest_mem[of "length (profile_name p)" "map (\<lambda>p. length (profile_name p)) (profiles s)" 0] that
    by (auto simp: longest_name_end_def Let_def)
  show "7 + longest_mod_num s + int (name_len m) \<le> longest_name_end s" if "m \<in> set (loaded s)"
    using longest_mem[of "name_len m" "map name_len (loaded s)" 0] that
    by (auto simp: longest_name_end_def Let_def)
qed

lemma longest_mod_pid_bounds:
  shows "3 \<le> longest_mod_pid s"
    and "m \<in> set (loaded s) \<Longrightarrow> int (get_digits_num (module_pid m)) \<le> longest_mod_pid s"
proof -
  show "3 \<le> longest_mod_pid s" by (simp add: longest_mod_pid_def Let_def)
  show "int (get_digits_num (module_pid m)) \<le> longest_mod_pid s" if "m \<in> set (loaded s)"
    using longest_mem[of "get_digits_num (module_pid m)" "map (\<lambda>m. get_digits_num (module_pid m)) (loaded s)" 0] that
    by (auto simp: longest_mod_pid_def Let_def)
qed

text \<open>A table that is narrower than the buffer of a message.\<close>

definition table_fits :: "sup \<Rightarrow> bool" where
  "table_fits s \<longleftrightarrow> longest_name_end s + longest_mod_pid s \<le> 4000"

lemma longest_mod_num_pos: "1 \<le> longest_mod_num s"
  using digits_num_pos[of "int (loaded_modules_cnt s) - 1"] by (simp add: longest_mod_num_def)

lemma header_aligned:
  assumes "table_fits s"
  shows "row_aligned (longest_name_end s) (longest_mod_pid s) (header_row s)"
proof -
  let ?e = "longest_name_end s" and ?p = "longest_mod_pid s" and ?n = "longest_mod_num s"
  let ?a = "blanks (4 + ?n) @ ''| name'' @ blanks (?e - ?n - 10)" and ?d = "'' PID'' @ blanks (?p + 1 - 3)"
  have len: "int (length ?a) = ?e" "int (length ?d) = ?p + 2"
    using name_end_bounds(1)[of s] longest_mod_pid_bounds(1)[of s] longest_mod_num_pos[of s] by (simp_all add: length_blanks)
  let ?ps = "[FORMAT_BOLD, Text (blanks (4 + ?n)), Text ''| name'', Text (blanks (?e - ?n - 10)),
    Text ''| enabled | status  | PID'', FORMAT_RESET, Text (blanks (?p + 1 - 3)), Text (''|'' @ newline)]"
  have "int (msg_len ?ps) \<le> 4094"
    using len assms by (simp add: format_defs table_fits_def newline_def)
  then have id: "verbose ?ps = ?ps" by (intro verbose_id) simp
  have "visible ?ps = ?a @ ''|'' @ '' enabled '' @ ''|'' @ '' status  '' @ ''|'' @ ?d @ ''|'' @ newline"
    by (simp add: format_defs)
  from bars_table[OF this len(1) _ _ len(2)] show ?thesis
    unfolding header_row_def row_aligned.simps id by simp
qed

lemma profile_row_aligned:
  assumes "table_fits s" "i < length (profiles s)"
  shows "row_aligned (longest_name_end s) (longest_mod_pid s) (profile_row s i)"
proof -
  let ?e = "longest_name_end s" and ?pr = "profiles s ! i"
  let ?a = "''Profile: '' @ profile_name ?pr @ blanks (?e - (9 + int (length (profile_name ?pr))))"
  let ?b = "if profile_enabled ?pr then ''  true   '' else ''  false  ''"
  have len: "int (length ?a) = ?e"
    using name_end_bounds(2)[of ?pr s] assms(2) by (simp add: length_blanks)
  let ?ps = "[FORMAT_BOLD, Text (''Profile: '' @ profile_name ?pr), Text (blanks (?e - (9 + int (length (profile_name ?pr))))), FORMAT_RESET,
             Text ''|  ''] @
           (if profile_enabled ?pr then [FORMAT_RUNNING, Text ''true'', FORMAT_RESET, Text (''   |'' @ newline)]
            else [FORMAT_STOPPED, Text ''false'', FORMAT_RESET, Text (''  |'' @ newline)])"
  have "int (msg_len ?ps) \<le> 4094"
    using len assms(1) longest_mod_pid_bounds(1)[of s] by (simp add: format_defs table_fits_def newline_def)
  then have id: "verbose ?ps = ?ps" by (intro verbose_id) simp
  have "visible ?ps = ?a @ ''|'' @ ?b @ ''|'' @ newline"
    by (simp add: format_defs)
  from bars_profile[OF this len] show ?thesis
    unfolding profile_row_def Let_def row_aligned.simps id by simp
qed

lemma length_number_and_name:
  assumes "x < loaded_modules_cnt s" "module_name (running_modules s ! x) = Some n"
  shows "int (length (number_and_name s x)) = 6 + longest_mod_num s + int (length n)"
proof -
  have "get_digits_num (int x) \<le> get_digits_num (int (loaded_modules_cnt s) - 1)"
    using assms(1) by (intro digits_mono) auto
  then show ?thesis
    using assms(2) by (simp add: number_and_name_def text_of_def length_print_int length_blanks longest_mod_num_def)
qed

lemma module_row_aligned:
  assumes "wf_sup s" "table_fits s" "x < loaded_modules_cnt s" "0 \<le> module_pid (running_modules s ! x)"
  shows "row_aligned (longest_name_end s) (longest_mod_pid s) (module_row s x)"
proof -
  let ?e = "longest_name_end s" and ?p = "longest_mod_pid s" and ?m = "running_modules s ! x"
  have mem: "?m \<in> set (loaded s)"
    using assms(1,3) by (metis length_loaded loaded_nth nth_mem)
  then obtain n where n: "module_name ?m = Some n"
    using assms(1) by (auto simp: wf_sup_def list_all_iff)
  let ?a = "number_and_name s x @ blanks (?e - (3 + longest_mod_num s + 3 + int (name_len ?m)))"
  let ?b = "if module_enabled ?m then ''  true   '' else ''  false  ''" and ?c = "if module_status ?m then '' running '' else '' stopped ''"
  let ?d = "'' '' @ print_int (module_pid ?m) @ blanks (?p + 1 - int (get_digits_num (module_pid ?m)))"
  have len: "int (length ?a) = ?e" "int (length ?d) = ?p + 2"
    using name_end_bounds(3)[OF mem] longest_mod_pid_bounds(2)[OF mem] length_number_and_name[OF assms(3) n] assms(4) n
    by (simp_all add: length_blanks name_len_def length_print_int)
  have "verbose [Text (number_and_name s x)] = [Text (number_and_name s x)]"
    and "verbose [Text (blanks (?e - (3 + longest_mod_num s + 3 + int (name_len ?m))))] =
      [Text (blanks (?e - (3 + longest_mod_num s + 3 + int (name_len ?m))))]"
    and "verbose [Text (print_int (module_pid ?m) @ blanks (?p + 1 - int (get_digits_num (module_pid ?m))) @ ''|'' @ newline)] =
      [Text (print_int (module_pid ?m) @ blanks (?p + 1 - int (get_digits_num (module_pid ?m))) @ ''|'' @ newline)]"
    using len assms(2) longest_mod_pid_bounds(1)[of s] name_end_bounds(1)[of s] longest_mod_num_pos[of s]
    by (auto intro!: verbose_id simp: table_fits_def newline_def)
  then obtain ps where row: "module_row s x = Module_Row x ps" and
    "visible ps = ?a @ ''|'' @ ?b @ ''|'' @ ?c @ ''|'' @ ?d @ ''|'' @ newline"
    by (simp add: module_row_def Let_def verbose_def format_defs)
  from bars_table[OF this(2) len(1) _ _ len(2)] show ?thesis
    unfolding row row_aligned.simps by simp
qed

subsection \<open>What is printed\<close>

definition row_modules :: "status_row \<Rightarrow> nat list" where
  "row_modules r = (case r of Module_Row x ps \<Rightarrow> [x] | _ \<Rightarrow> [])"

text \<open>The numbers of the modules printed, in their order.\<close>

definition printed_modules :: "status_row list \<Rightarrow> nat list" where
  "printed_modules rows = concat (map row_modules rows)"

text \<open>The contract of the three options: each module that has a profile is printed exactly once.\<close>

definition prints_each_once :: "sup \<Rightarrow> status_row list \<Rightarrow> bool" where
  "prints_each_once s rows \<longleftrightarrow> distinct (printed_modules rows) \<and>
     set (printed_modules rows) = {x. x < loaded_modules_cnt s \<and> module_profile (running_modules s ! x) \<noteq> None}"

lemma printed_modules_simps [simp]:
  "printed_modules [] = []"
  "printed_modules (Title ps # rows) = printed_modules rows"
  "printed_modules (Header ps # rows) = printed_modules rows"
  "printed_modules (Detail ps # rows) = printed_modules rows"
  "printed_modules (Empty_Row # rows) = printed_modules rows"
  "printed_modules (Profile_Row i ps # rows) = printed_modules rows"
  "printed_modules (Module_Row x ps # rows) = x # printed_modules rows"
  "printed_modules (rows @ rows') = printed_modules rows @ printed_modules rows'"
  by (simp_all add: printed_modules_def row_modules_def)

lemma printed_concat: "printed_modules (concat rows) = concat (map printed_modules rows)"
  by (induction rows) simp_all

lemma set_profile_modules: "x \<in> set (profile_modules s i) \<longleftrightarrow> x < loaded_modules_cnt s \<and> module_profile (running_modules s ! x) = Some i"
  by (auto simp: profile_modules_def)

lemma distinct_profile_modules: "distinct (concat (map (profile_modules s) [0..<n]))"
  by (induction n) (auto simp: set_profile_modules profile_modules_def)

text \<open>A listing that goes through the profiles meets the contract.\<close>

lemma prints_each_onceI:
  assumes "wf_sup s" "printed_modules rows = concat (map (profile_modules s) [0..<length (profiles s)])"
  shows "prints_each_once s rows"
proof -
  have "i < length (profiles s)" if "x < loaded_modules_cnt s" "module_profile (running_modules s ! x) = Some i" for x i
  proof -
    have "wf_profile (length (profiles s)) (running_modules s ! x)"
      using assms(1) that(1) by (simp add: wf_sup_def list_all_length)
    then show ?thesis using that(2) by (auto simp: wf_profile_def)
  qed
  then show ?thesis
    using distinct_profile_modules[of s "length (profiles s)"]
    by (auto simp: prints_each_once_def assms(2) set_profile_modules)
qed

lemma collect_map:
  assumes "\<And>x. x \<in> set xs \<Longrightarrow> \<exists>v. f x = Ret v \<and> P x v"
  shows "\<exists>vs. collect (map f xs) = Ret vs \<and> list_all2 P xs vs"
  using assms
proof (induction xs)
  case (Cons x xs)
  then obtain v where "f x = Ret v" "P x v" by auto
  moreover obtain vs where "collect (map f xs) = Ret vs" "list_all2 P xs vs"
    using Cons by auto
  ultimately show ?case by auto
qed simp

lemma printed_list_all2: "list_all2 (\<lambda>x rows. printed_modules rows = g x) xs rs \<Longrightarrow> printed_modules (concat rs) = concat (map g xs)"
  by (induction rule: list_all2_induct) simp_all

lemma list_all2_details: "list_all2 (\<lambda>x row. printed_modules [row] = []) xs rs \<Longrightarrow> printed_modules rs = []"
  by (induction rule: list_all2_induct) (auto simp: printed_modules_def)

lemma detailed_module_prints:
  assumes "stats_ok (running_modules s ! x)"
  shows "\<exists>rows. detailed_module s x = Ret rows \<and> printed_modules rows = [x]"
proof -
  let ?m = "running_modules s ! x"
  let ?f = "\<lambda>(out, y). if out then out_ifc_row ?m y else in_ifc_row ?m y"
  let ?ys = "map (Pair False) [0..<unat (total_in_ifces_cnt ?m)] @ map (Pair True) [0..<unat (total_out_ifces_cnt ?m)]"
  have "\<exists>row. ?f z = Ret row \<and> printed_modules [row] = []" if "z \<in> set ?ys" for z
    using assms that by (auto simp: stats_ok_def stat_cells_def in_ifc_row_def out_ifc_row_def cell_def split: option.splits)
  then have "\<exists>rs. collect (map ?f ?ys) = Ret rs \<and> list_all2 (\<lambda>z row. printed_modules [row] = []) ?ys rs"
    by (rule collect_map)
  then obtain rs where "collect (map ?f ?ys) = Ret rs" "printed_modules rs = []"
    using list_all2_details by blast
  then show ?thesis
    by (simp add: detailed_module_def Let_def comp_def)
qed

lemma detailed_profile_prints:
  assumes "\<And>x. x < loaded_modules_cnt s \<Longrightarrow> stats_ok (running_modules s ! x)"
  shows "\<exists>rows. detailed_profile s i = Ret rows \<and> printed_modules rows = profile_modules s i"
proof -
  have "\<exists>rs. collect (map (detailed_module s) (profile_modules s i)) = Ret rs \<and>
      list_all2 (\<lambda>x rows. printed_modules rows = [x]) (profile_modules s i) rs"
    using assms by (intro collect_map detailed_module_prints) (simp add: set_profile_modules)
  then show ?thesis
    by (auto simp: detailed_profile_def Let_def dest!: printed_list_all2)
qed

text \<open>
  Printing the detailed status of any state that satisfies the invariant of the service thread stays inside the arrays of
  interface statistics and prints every module of a profile once.
\<close>

theorem detailed_status_complete:
  assumes "service_inv tr s" "0 < loaded_modules_cnt s"
  shows "\<exists>rows. interactive_print_detailed_status s = Ret rows \<and> prints_each_once s rows"
proof -
  have wf: "wf_sup s" using assms(1) by (simp add: service_inv_def)
  have "stats_ok (running_modules s ! x)" if "x < loaded_modules_cnt s" for x
    using assms(1) that by (auto simp: service_inv_def all_mod_ok_def list_all_length wf_sup_def mod_ok_def)
  then have "\<exists>rs. collect (map (detailed_profile s) [0..<length (profiles s)]) = Ret rs \<and>
      list_all2 (\<lambda>i rows. printed_modules rows = profile_modules s i) [0..<length (profiles s)] rs"
    by (intro collect_map detailed_profile_prints)
  then show ?thesis
    using assms(2) by (auto simp: interactive_print_detailed_status_def dest!: printed_list_all2 intro!: prints_each_onceI[OF wf])
qed

lemma loaded_configuration_prints:
  assumes "wf_sup s" "0 < loaded_modules_cnt s"
  shows "\<exists>rows. interactive_print_loaded_configuration s = Ret rows \<and> prints_each_once s rows"
proof -
  have "config_ifces_cnt m \<le> length (config_ifces m)" if "m \<in> set (loaded s)" for m
    using assms(1) that by (auto simp: wf_sup_def list_all_iff wf_ifces_def loaded_def dest!: in_set_takeD)
  then have "\<not> list_ex (\<lambda>m. module_profile m \<noteq> None \<and> config_ifces_cnt m > length (config_ifces m)) (loaded s)"
    by (force simp: list_ex_iff)
  moreover have "printed_modules (map (config_ifc_row m) ys) = []" for m ys
    by (induction ys) (simp_all add: config_ifc_row_def Let_def)
  then have "printed_modules (config_module s x) = [x]" for x
    by (simp add: config_module_def Let_def)
  ultimately show ?thesis
    using assms(2)
    by (auto simp: interactive_print_loaded_configuration_def printed_concat comp_def intro!: prints_each_onceI[OF assms(1)])
qed

text \<open>
  C33. In every row of the brief status the separators stand in the same columns, for any names and numbers, as long as the
  process identifiers are not negative and the table is narrower than the buffer of a message; every module of a profile has one row.
\<close>

theorem brief_status_aligned:
  assumes "wf_sup s" "0 < loaded_modules_cnt s" "table_fits s" "\<forall>m \<in> set (loaded s). 0 \<le> module_pid m"
  shows "\<exists>rows. interactive_print_brief_status s = Ret rows \<and>
    list_all (row_aligned (longest_name_end s) (longest_mod_pid s)) rows \<and> prints_each_once s rows"
proof -
  let ?ok = "row_aligned (longest_name_end s) (longest_mod_pid s)"
  have "?ok (module_row s x)" if "x < loaded_modules_cnt s" for x
    using assms that by (intro module_row_aligned) (auto simp: length_loaded[OF assms(1)] loaded_nth all_set_conv_all_nth)
  then have "list_all ?ok (map (module_row s) (profile_modules s i))" for i
    by (auto simp: list_all_iff set_profile_modules)
  moreover have "printed_modules (map (module_row s) xs) = xs" for xs
    by (induction xs) (simp_all add: module_row_def Let_def)
  moreover have "\<not> list_ex (\<lambda>m. module_name m = None) (loaded s)"
    using assms(1) by (auto simp: wf_sup_def list_ex_iff list_all_iff)
  moreover have "printed_modules (header_row s # rows) = printed_modules rows" "printed_modules (profile_row s i # rows) = printed_modules rows" for i rows
    by (simp_all add: header_row_def profile_row_def Let_def)
  ultimately show ?thesis
    using assms(2) header_aligned[OF assms(3)] profile_row_aligned[OF assms(3)]
    by (auto simp: interactive_print_brief_status_def printed_concat comp_def list_all_iff intro!: prints_each_onceI[OF assms(1)])
qed

subsection \<open>An example\<close>

lemma example_state:
  shows "wf_sup (one_module disabled_running)" "loaded (one_module disabled_running) = [disabled_running]"
    "loaded_modules_cnt (one_module disabled_running) = 1" "profiles (one_module disabled_running) = [\<lparr>profile_name = ''p'', profile_enabled = True\<rparr>]"
    "module_pid disabled_running = 42"
proof -
  show "wf_sup (one_module disabled_running)"
    by (rule wf_one_module) (simp_all add: disabled_running_def zero_module_def wf_ifces_def size_ok_def)
qed (simp_all add: one_module_def demo_sup_def loaded_def disabled_running_def)

lemma digits_below_10: "0 \<le> n \<Longrightarrow> n < 10 \<Longrightarrow> get_digits_num n = 1"
  by (simp add: get_digits_num_print print_nat.simps)

lemma example_table_fits: "table_fits (one_module disabled_running)"
  using example_state
  by (simp add: table_fits_def longest_name_end_def longest_mod_num_def longest_mod_pid_def digits_below_10 name_len_def
      disabled_running_def zero_module_def get_digits_num_print print_nat.simps)

theorem brief_status_aligned_witness:
  "\<exists>rows. interactive_print_brief_status (one_module disabled_running) = Ret rows \<and>
     list_all (row_aligned (longest_name_end (one_module disabled_running)) (longest_mod_pid (one_module disabled_running))) rows \<and>
     prints_each_once (one_module disabled_running) rows"
  by (rule brief_status_aligned[OF example_state(1) _ example_table_fits]) (simp_all add: example_state)

theorem detailed_status_complete_witness:
  "\<exists>rows. interactive_print_detailed_status (one_module disabled_running) = Ret rows \<and> prints_each_once (one_module disabled_running) rows"
proof (rule detailed_status_complete)
  show "service_inv [] (one_module disabled_running)"
    using example_state(1)
    by (simp add: service_inv_def all_mod_ok_def one_module_def demo_sup_def disabled_running_def zero_module_def mod_ok_defs stat_cells_def sent_inv_def)
qed (simp add: example_state)

end
