(* ===== verification/Log_Browser.thy ===== *)
theory Log_Browser
  imports Startup Status_Text
begin

section \<open>Browsing the log files\<close>

text \<open>
  \<open>interactive_browse_log_files\<close> (\<^verbatim>\<open>supervisor.c\<close>, lines 3009-3189): the list of logs, the choice, and the path that is
  shown with the pager or, by the daemon, handed to the client in a file. \<open>readable\<close> is \<open>access (path, R_OK) == 0\<close>.
  Proved: the file opened is the one printed under the chosen number and was readable when listed, and no access leaves
  the array of logs or the buffer of the path.
\<close>

subsection \<open>The list\<close>

text \<open>\<open>sprintf\<close> into the buffer of \<open>PATH_MAX\<close> bytes.\<close>

definition put_path :: "string \<Rightarrow> string c_ret" where
  "put_path t = (if length t < PATH_MAX then Ret t else Undefined)"

text \<open>\<open>uint16_t max_num_of_logs\<close>.\<close>

definition max_num_of_logs :: "sup \<Rightarrow> nat" where
  "max_num_of_logs s = (2 * loaded_modules_cnt s + 3) mod 2 ^ 16"

text \<open>The array \<open>avail_logs\<close>, the index written last, and the number of digits of the indices with the power of ten it stands for.\<close>

record log_list =
  avail_logs :: "bool list"
  log_idx :: int
  log_idx_dig_num :: int
  log_idx_rank :: int
  log_rows :: "piece list list"

text \<open>One log: the next index, the path built, its test and the entry in the array.\<close>

definition list_log :: "(string \<Rightarrow> bool) \<Rightarrow> string \<Rightarrow> (log_list \<Rightarrow> piece \<Rightarrow> piece list) \<Rightarrow> log_list \<Rightarrow> log_list c_ret" where
  "list_log readable path row l =
     (case put_path path of
        Undefined \<Rightarrow> Undefined
      | Ret p \<Rightarrow>
          if 0 \<le> log_idx l \<and> nat (log_idx l) < length (avail_logs l)
          then Ret (l\<lparr>avail_logs := (avail_logs l)[nat (log_idx l) := readable p],
                      log_rows := log_rows l @ [row l (if readable p then FORMAT_RUNNING else FORMAT_STOPPED)]\<rparr>)
          else Undefined)"

definition next_log :: "log_list \<Rightarrow> log_list" where
  "next_log l = l\<lparr>log_idx := log_idx l + 1\<rparr>"

definition count_digits :: "log_list \<Rightarrow> log_list" where
  "count_digits l =
     (if log_idx l \<ge> log_idx_rank l * 10
      then l\<lparr>log_idx_dig_num := log_idx_dig_num l + 1, log_idx_rank := log_idx_rank l * 10\<rparr> else l)"

text \<open>The columns of the row of a module: its standard output, standard error and name.\<close>

definition stdout_column :: "log_list \<Rightarrow> piece \<Rightarrow> piece list" where
  "stdout_column l colour =
     verbose [Text ''   '', colour, Text (print_int (log_idx l)), FORMAT_RESET] @ verbose [Text (blanks (10 - (3 + log_idx_dig_num l)) @ ''| '')]"

definition stderr_column :: "string \<Rightarrow> log_list \<Rightarrow> piece \<Rightarrow> piece list" where
  "stderr_column name l colour =
     verbose [colour, Text (print_int (log_idx l)), FORMAT_RESET] @ verbose [Text (blanks (19 - (12 + log_idx_dig_num l)) @ ''| '' @ name @ newline)]"

definition file_row :: "string \<Rightarrow> log_list \<Rightarrow> piece \<Rightarrow> piece list" where
  "file_row file l colour = verbose [Text ''   '', colour, Text (print_int (log_idx l)), FORMAT_RESET, Text ('' | '' @ file @ newline)]"

definition module_log_path :: "string \<Rightarrow> string \<Rightarrow> string \<Rightarrow> string" where
  "module_log_path logs name ending = logs @ MODULES_LOGS_DIR_NAME @ ''/'' @ name @ ending"

definition list_module_logs :: "(string \<Rightarrow> bool) \<Rightarrow> string \<Rightarrow> running_module \<Rightarrow> log_list \<Rightarrow> log_list c_ret" where
  "list_module_logs readable logs m l =
     (case module_name m of
        None \<Rightarrow> Undefined
      | Some name \<Rightarrow>
          (case list_log readable (module_log_path logs name ''_stdout'') stdout_column (count_digits (next_log l)) of
             Undefined \<Rightarrow> Undefined
           | Ret l1 \<Rightarrow> list_log readable (module_log_path logs name ''_stderr'') (stderr_column name) (next_log l1)))"

fun list_modules_logs :: "(string \<Rightarrow> bool) \<Rightarrow> string \<Rightarrow> running_module list \<Rightarrow> log_list \<Rightarrow> log_list c_ret" where
  "list_modules_logs readable logs [] l = Ret l"
| "list_modules_logs readable logs (m # ms) l =
     (case list_module_logs readable logs m l of Undefined \<Rightarrow> Undefined | Ret l1 \<Rightarrow> list_modules_logs readable logs ms l1)"

text \<open>The logs of the supervisor follow those of the modules.\<close>

definition sup_log_names :: "string list" where
  "sup_log_names = [SUPERVISOR_LOG_FILE_NAME, MODULES_STATS_FILE_NAME, MODULES_EVENTS_FILE_NAME]"

fun list_sup_logs :: "(string \<Rightarrow> bool) \<Rightarrow> string \<Rightarrow> string list \<Rightarrow> log_list \<Rightarrow> log_list c_ret" where
  "list_sup_logs readable logs [] l = Ret l"
| "list_sup_logs readable logs (f # fs) l =
     (case list_log readable (logs @ f) (file_row f) (next_log l) of
        Undefined \<Rightarrow> Undefined
      | Ret l1 \<Rightarrow> list_sup_logs readable logs fs l1)"

definition list_logs :: "(string \<Rightarrow> bool) \<Rightarrow> string \<Rightarrow> sup \<Rightarrow> log_list c_ret" where
  "list_logs readable logs s =
     (case list_modules_logs readable logs (loaded s)
             \<lparr>avail_logs = replicate (max_num_of_logs s) False, log_idx = -1, log_idx_dig_num = 1, log_idx_rank = 1, log_rows = []\<rparr> of
        Undefined \<Rightarrow> Undefined
      | Ret l \<Rightarrow> list_sup_logs readable logs sup_log_names l)"

subsection \<open>The choice\<close>

definition chosen_path :: "string \<Rightarrow> sup \<Rightarrow> nat \<Rightarrow> string" where
  "chosen_path logs s chosen_log_idx =
     (if int chosen_log_idx < int (max_num_of_logs s) - 3
      then module_log_path logs (text_of (module_name (running_modules s ! (chosen_log_idx div 2))))
             (if chosen_log_idx mod 2 = 0 then ''_stdout'' else ''_stderr'')
      else if int chosen_log_idx = int (max_num_of_logs s) - 3 then logs @ SUPERVISOR_LOG_FILE_NAME
      else if int chosen_log_idx = int (max_num_of_logs s) - 2 then logs @ MODULES_STATS_FILE_NAME
      else logs @ MODULES_EVENTS_FILE_NAME)"

definition SUP_CLI_TMP_FILE :: string where
  "SUP_CLI_TMP_FILE = SUP_TMP_DIR @ ''/sup_cli_tmp_file''"

text \<open>
  The end of the operation: the path given to the pager, or the contents of the file \<open>SUP_CLI_TMP_FILE\<close>;
  \<open>tmp_ok\<close> tells whether that file could be opened.
\<close>

datatype browse_end = Path_Error | Wrong_Input | Not_Available | Tmp_File_Error | Tmp_File string | Pager string

definition tmp_file_text :: "string \<Rightarrow> string" where
  "tmp_file_text path = print_int (int (length path)) @ newline @ path"

definition interactive_browse_log_files ::
  "(string \<Rightarrow> bool) \<Rightarrow> string \<Rightarrow> bool \<Rightarrow> bool \<Rightarrow> string option \<Rightarrow> sup \<Rightarrow> browse_end c_ret" where
  "interactive_browse_log_files readable logs daemon tmp_ok input s =
     (case put_path logs of
        Undefined \<Rightarrow> Undefined
      | Ret p \<Rightarrow>
          if length p < 1 then Ret Path_Error
          else (case list_logs readable p s of
                  Undefined \<Rightarrow> Undefined
                | Ret l \<Rightarrow>
                    (let chosen = get_number_from_input_choosing_option input
                     in if chosen = -1 \<or> chosen \<ge> int (max_num_of_logs s) then Ret Wrong_Input
                        else if \<not> avail_logs l ! nat chosen then Ret Not_Available
                        else (case put_path (chosen_path logs s (nat chosen)) of
                                Undefined \<Rightarrow> Undefined
                              | Ret path \<Rightarrow>
                                  Ret (if daemon then (if tmp_ok then Tmp_File (tmp_file_text path) else Tmp_File_Error)
                                       else Pager path)))))"

subsection \<open>The logs by number\<close>

definition module_log_paths :: "string \<Rightarrow> running_module \<Rightarrow> string list" where
  "module_log_paths logs m = map (module_log_path logs (text_of (module_name m))) [''_stdout'', ''_stderr'']"

text \<open>The path behind each number of the list.\<close>

definition log_paths :: "string \<Rightarrow> sup \<Rightarrow> string list" where
  "log_paths logs s = concat (map (module_log_paths logs) (loaded s)) @ map (\<lambda>f. logs @ f) sup_log_names"

text \<open>The array after the logs \<open>ps\<close> were listed.\<close>

definition listed :: "(string \<Rightarrow> bool) \<Rightarrow> nat \<Rightarrow> string list \<Rightarrow> log_list \<Rightarrow> bool" where
  "listed readable n ps l \<longleftrightarrow> log_idx l = int (length ps) - 1 \<and> length ps \<le> n \<and>
     avail_logs l = map readable ps @ replicate (n - length ps) False"

lemma list_log_listed:
  assumes "avail_logs l' = avail_logs l" "log_idx l' = log_idx l + 1"
    and "listed readable n ps l" "length p < PATH_MAX" "length ps < n"
  shows "\<exists>l1. list_log readable p row l' = Ret l1 \<and> listed readable n (ps @ [p]) l1"
proof -
  have "replicate (n - length ps) False = False # replicate (n - Suc (length ps)) False"
    using assms(5) by (simp add: Suc_diff_Suc flip: replicate_Suc)
  then show ?thesis
    using assms by (auto simp: listed_def list_log_def put_path_def list_update_append)
qed

lemma list_module_logs_listed:
  assumes "listed readable n ps l" "module_name m \<noteq> None" "\<forall>p \<in> set (module_log_paths logs m). length p < PATH_MAX" "length ps + 2 \<le> n"
  shows "\<exists>l1. list_module_logs readable logs m l = Ret l1 \<and> listed readable n (ps @ module_log_paths logs m) l1"
proof -
  obtain name where name: "module_name m = Some name" using assms(2) by auto
  let ?p = "module_log_path logs name ''_stdout''" and ?q = "module_log_path logs name ''_stderr''"
  have pq: "module_log_paths logs m = [?p, ?q]" by (simp add: module_log_paths_def name text_of_def)
  have "avail_logs (count_digits (next_log l)) = avail_logs l" "log_idx (count_digits (next_log l)) = log_idx l + 1"
    by (simp_all add: count_digits_def next_log_def)
  then obtain l1 where l1: "list_log readable ?p stdout_column (count_digits (next_log l)) = Ret l1" "listed readable n (ps @ [?p]) l1"
    using list_log_listed assms(1,3,4) pq by (metis add_2_eq_Suc' list.set_intros(1) Suc_le_lessD Suc_leD)
  moreover obtain l2 where "list_log readable ?q (stderr_column name) (next_log l1) = Ret l2" "listed readable n ((ps @ [?p]) @ [?q]) l2"
    using list_log_listed[of "next_log l1" l1 readable n "ps @ [?p]" ?q] l1(2) assms(3,4) pq by (auto simp: next_log_def)
  ultimately show ?thesis by (simp add: list_module_logs_def name pq)
qed

lemma list_modules_logs_listed:
  assumes "listed readable n ps l" "\<forall>m \<in> set ms. module_name m \<noteq> None"
    and "\<forall>p \<in> set (concat (map (module_log_paths logs) ms)). length p < PATH_MAX" "length ps + 2 * length ms \<le> n"
  shows "\<exists>l1. list_modules_logs readable logs ms l = Ret l1 \<and> listed readable n (ps @ concat (map (module_log_paths logs) ms)) l1"
  using assms
proof (induction ms arbitrary: ps l)
  case (Cons m ms)
  obtain l1 where l1: "list_module_logs readable logs m l = Ret l1" "listed readable n (ps @ module_log_paths logs m) l1"
    using list_module_logs_listed[of readable n ps l m logs] Cons.prems by auto
  have "length (module_log_paths logs m) = 2" by (simp add: module_log_paths_def)
  with Cons.IH[OF l1(2)] Cons.prems l1(1) show ?case by auto
qed simp

lemma list_sup_logs_listed:
  assumes "listed readable n ps l" "\<forall>f \<in> set fs. length (logs @ f) < PATH_MAX" "length ps + length fs \<le> n"
  shows "\<exists>l1. list_sup_logs readable logs fs l = Ret l1 \<and> listed readable n (ps @ map (\<lambda>f. logs @ f) fs) l1"
  using assms
proof (induction fs arbitrary: ps l)
  case (Cons f fs)
  obtain l1 where l1: "list_log readable (logs @ f) (file_row f) (next_log l) = Ret l1" "listed readable n (ps @ [logs @ f]) l1"
    using list_log_listed[of "next_log l" l readable n ps "logs @ f"] Cons.prems by (auto simp: next_log_def)
  with Cons.IH[OF l1(2)] Cons.prems show ?case by auto
qed simp

definition logs_fit :: "string \<Rightarrow> sup \<Rightarrow> bool" where
  "logs_fit logs s \<longleftrightarrow> 0 < length logs \<and> 2 * loaded_modules_cnt s + 3 < 2 ^ 16 \<and> list_all (\<lambda>p. length p < PATH_MAX) (log_paths logs s)"

lemma length_module_paths: "length (concat (map (module_log_paths logs) ms)) = 2 * length ms"
  by (induction ms) (simp_all add: module_log_paths_def)

lemma length_log_paths: "wf_sup s \<Longrightarrow> length (log_paths logs s) = 2 * loaded_modules_cnt s + 3"
  by (simp add: log_paths_def length_module_paths sup_log_names_def)

lemma list_logs_avail:
  assumes "wf_sup s" "logs_fit logs s"
  shows "\<exists>l. list_logs readable logs s = Ret l \<and> avail_logs l = map readable (log_paths logs s)"
proof -
  let ?l0 = "\<lparr>avail_logs = replicate (max_num_of_logs s) False, log_idx = -1, log_idx_dig_num = 1, log_idx_rank = 1, log_rows = []\<rparr>"
  let ?n = "2 * loaded_modules_cnt s + 3" and ?ps = "concat (map (module_log_paths logs) (loaded s))"
  have n: "max_num_of_logs s = ?n" using assms(2) by (simp add: max_num_of_logs_def logs_fit_def)
  have names: "\<forall>m \<in> set (loaded s). module_name m \<noteq> None" using assms(1) by (auto simp: wf_sup_def list_all_iff)
  have fit: "\<forall>p \<in> set ?ps. length p < PATH_MAX" "\<forall>f \<in> set sup_log_names. length (logs @ f) < PATH_MAX"
    using assms(2) by (auto simp: logs_fit_def log_paths_def list_all_iff ball_Un simp del: length_append)
  obtain l1 where l1: "list_modules_logs readable logs (loaded s) ?l0 = Ret l1" "listed readable ?n ?ps l1"
    using list_modules_logs_listed[of readable ?n "[]" ?l0 "loaded s" logs] names fit(1) assms(1) by (auto simp: listed_def n)
  obtain l2 where "list_sup_logs readable logs sup_log_names l1 = Ret l2" "listed readable ?n (log_paths logs s) l2"
    using list_sup_logs_listed[OF l1(2) fit(2)] assms(1) by (auto simp: length_module_paths sup_log_names_def log_paths_def)
  then show ?thesis
    using l1(1) length_log_paths[OF assms(1), of logs] by (auto simp: list_logs_def listed_def)
qed

lemma nth_module_paths:
  "k < 2 * length ms \<Longrightarrow> concat (map (module_log_paths logs) ms) ! k =
     module_log_path logs (text_of (module_name (ms ! (k div 2)))) (if k mod 2 = 0 then ''_stdout'' else ''_stderr'')"
proof (induction ms arbitrary: k)
  case (Cons m ms)
  show ?case
  proof (cases "k < 2")
    case True
    then show ?thesis by (cases k) (auto simp: module_log_paths_def)
  next
    case False
    then obtain j where "k = Suc (Suc j)" by (metis add_2_eq_Suc le_Suc_ex not_less)
    then show ?thesis using Cons by (simp add: module_log_paths_def)
  qed
qed simp

lemma chosen_path_nth:
  assumes "wf_sup s" "logs_fit logs s" "k < 2 * loaded_modules_cnt s + 3"
  shows "chosen_path logs s k = log_paths logs s ! k"
proof -
  have n: "max_num_of_logs s = 2 * loaded_modules_cnt s + 3" using assms(2) by (simp add: max_num_of_logs_def logs_fit_def)
  have len: "length (concat (map (module_log_paths logs) (loaded s))) = 2 * loaded_modules_cnt s"
    using assms(1) by (simp add: length_module_paths)
  consider "k < 2 * loaded_modules_cnt s" | "k = 2 * loaded_modules_cnt s" | "k = 2 * loaded_modules_cnt s + 1" | "k = 2 * loaded_modules_cnt s + 2"
    using assms(3) by linarith
  then show ?thesis
  proof cases
    case 1
    then have "loaded s ! (k div 2) = running_modules s ! (k div 2)" by (intro loaded_nth) simp
    with 1 len assms(1) show ?thesis
      by (simp add: chosen_path_def n log_paths_def nth_append nth_module_paths)
  qed (simp_all add: chosen_path_def n log_paths_def nth_append len sup_log_names_def)
qed

lemma browse_outcome:
  assumes "wf_sup s" "logs_fit logs s" "k = get_number_from_input_choosing_option input"
  shows "interactive_browse_log_files readable logs daemon tmp_ok input s =
    Ret (if k < 0 \<or> 2 * int (loaded_modules_cnt s) + 3 \<le> k then Wrong_Input
         else if \<not> readable (log_paths logs s ! nat k) then Not_Available
         else if \<not> daemon then Pager (log_paths logs s ! nat k)
         else if tmp_ok then Tmp_File (tmp_file_text (log_paths logs s ! nat k)) else Tmp_File_Error)"
proof -
  have n: "max_num_of_logs s = 2 * loaded_modules_cnt s + 3" using assms(2) by (simp add: max_num_of_logs_def logs_fit_def)
  have "length (log_paths logs s ! i) < PATH_MAX" if "i < 2 * loaded_modules_cnt s + 3" for i
    using assms(2) that length_log_paths[OF assms(1)] by (simp add: logs_fit_def list_all_length)
  moreover have "length logs < PATH_MAX" using assms(2) by (simp add: logs_fit_def log_paths_def list_all_iff sup_log_names_def)
  moreover have "k < 0 \<longleftrightarrow> k = -1"
    by (auto simp: assms(3) get_number_from_input_choosing_option_def split: option.splits)
  moreover obtain l where "list_logs readable logs s = Ret l" "avail_logs l = map readable (log_paths logs s)"
    using list_logs_avail[OF assms(1,2)] by blast
  moreover have "0 < length logs" using assms(2) by (simp add: logs_fit_def)
  ultimately show ?thesis
    using length_log_paths[OF assms(1), of logs] chosen_path_nth[OF assms(1,2)]
    by (auto simp: interactive_browse_log_files_def put_path_def n Let_def nat_less_iff simp flip: assms(3))
qed

lemma log_path_nonempty: "i < length (log_paths logs s) \<Longrightarrow> logs_fit logs s \<Longrightarrow> log_paths logs s ! i \<noteq> []"
  using nth_mem[of i "log_paths logs s"]
  by (auto simp: log_paths_def logs_fit_def module_log_paths_def module_log_path_def)


text \<open>With one loaded module, number 1 is its standard error output.\<close>

lemma example_logs_fit: "logs_fit ''/l/'' (one_module disabled_running)"
  using example_state
  by (simp add: logs_fit_def log_paths_def module_log_paths_def module_log_path_def sup_log_names_def MODULES_LOGS_DIR_NAME_def
      SUPERVISOR_LOG_FILE_NAME_def MODULES_STATS_FILE_NAME_def MODULES_EVENTS_FILE_NAME_def PATH_MAX_def disabled_running_def text_of_def)


end
