(* ===== verification/Client.thy ===== *)
theory Client
  imports Daemon Log_Browser
begin

section \<open>The command line client\<close>

text \<open>
  \<^verbatim>\<open>supervisor_cli.c\<close>: the arguments, the connection, the request for a mode and the loop that passes lines and output on. The
  answers of \<open>select\<close>, \<open>read\<close> and of the file through which the daemon names a log are arguments. Proved together with
  \<open>Daemon\<close> and \<open>Log_Browser\<close>: the daemon understands the mode asked for, \<open>Dstop\<close> stops the daemon, a log path
  arrives exactly when it has no white space, and the client of a single request ends.
\<close>

subsection \<open>Arguments and connection\<close>

record cli_args =
  cli_socket :: "string option"
  modules_stats_flag :: bool
  modules_info_flag :: bool
  reload_command_flag :: bool
  flag_cnt :: int

datatype cli_parsed = Cli_Help | Cli_Bad_Option | Cli_Args cli_args

text \<open>The loop over \<open>getopt\<close> with the options it returned.\<close>

fun cli_options :: "(char \<times> string) list \<Rightarrow> cli_args \<Rightarrow> cli_parsed" where
  "cli_options [] a = Cli_Args a"
| "cli_options ((opt, optarg) # os) a =
     (if opt = CHR ''h'' then Cli_Help
      else if opt = CHR ''s'' then cli_options os (a\<lparr>cli_socket := Some optarg\<rparr>)
      else if opt = CHR ''x'' then cli_options os (a\<lparr>modules_stats_flag := True, flag_cnt := flag_cnt a + 1\<rparr>)
      else if opt = CHR ''i'' then cli_options os (a\<lparr>modules_info_flag := True, flag_cnt := flag_cnt a + 1\<rparr>)
      else if opt = CHR ''r'' then cli_options os (a\<lparr>reload_command_flag := True, flag_cnt := flag_cnt a + 1\<rparr>)
      else Cli_Bad_Option)"

definition no_cli_args :: cli_args where
  "no_cli_args = \<lparr>cli_socket = None, modules_stats_flag = False, modules_info_flag = False, reload_command_flag = False, flag_cnt = 0\<rparr>"

text \<open>\<open>sock\<close> is the result of \<open>socket\<close>, \<open>connects path\<close> whether \<open>connect\<close> succeeds; the size of \<open>sun_path\<close> is 108.\<close>

definition connect_to_supervisor :: "int \<Rightarrow> (string \<Rightarrow> bool) \<Rightarrow> string \<Rightarrow> bool" where
  "connect_to_supervisor sock connects path \<longleftrightarrow> \<not> sock < 0 \<and> connects (take 106 path)"

record cli_os =
  cli_sock :: int
  cli_connects :: "string \<Rightarrow> bool"
  cli_fdopen_in :: bool
  cli_fdopen_out :: bool
  cli_fileno :: int

subsection \<open>The loop\<close>

text \<open>
  What the client did: \<open>cli_sent\<close> are the lines written to the supervisor, \<open>cli_shown\<close> the output passed on,
  \<open>cli_pager\<close> the files shown with the pager, each after \<open>unlink (SUP_CLI_TMP_FILE)\<close>.
\<close>

record client_state =
  cli_timeouts :: u64
  cli_sent :: "string list"
  cli_shown :: string
  cli_pager :: "string list"

datatype cli_result = Cli_Running client_state | Cli_Exit bool client_state | Cli_Undefined

text \<open>
  One return of \<open>select\<close>: \<open>Input_Ready stdin sup\<close> gives, for each descriptor that is ready, the result of \<open>fgets\<close>, and of \<open>read\<close>
  (\<open>None\<close> for 0 or -1); \<open>Nothing_Ready tmp\<close> gives the contents of \<open>SUP_CLI_TMP_FILE\<close> if it can be read.
\<close>

datatype cli_event = Select_Fails | Input_Ready "string option option" "string option option" | Nothing_Ready "string option"

text \<open>\<open>fscanf (f, "%d", \<dots>)\<close> with the input that follows the number.\<close>

definition fscanf_d :: "string \<Rightarrow> (int \<times> string) option" where
  "fscanf_d s =
     map_option
       (\<lambda>z. (z, dropWhile is_digit (case dropWhile is_space s of [] \<Rightarrow> []
                  | c # cs \<Rightarrow> if c = CHR ''-'' \<or> c = CHR ''+'' then cs else c # cs)))
       (sscanf_d s)"

text \<open>\<open>fscanf (f, "%s", \<dots>)\<close>: the next word, \<open>None\<close> at the end of the file.\<close>

definition fscanf_s :: "string \<Rightarrow> string option" where
  "fscanf_s s = (let w = takeWhile (\<lambda>c. \<not> is_space c) (dropWhile is_space s) in if w = [] then None else Some w)"

text \<open>The path read from the temporary file; \<open>Undefined\<close> when the word is longer than the memory allocated for it.\<close>

definition read_tmp_file :: "string \<Rightarrow> string option c_ret" where
  "read_tmp_file t =
     (case fscanf_d t of
        None \<Rightarrow> Ret None
      | Some (file_path_len, rest) \<Rightarrow>
          if file_path_len \<le> 0 then Ret None
          else (case fscanf_s (dropWhile is_space rest) of
                  None \<Rightarrow> Ret None
                | Some w \<Rightarrow> if int (length w) > file_path_len then Undefined else Ret (Some w)))"

definition cli_send :: "string \<Rightarrow> client_state \<Rightarrow> client_state" where
  "cli_send line st = st\<lparr>cli_sent := cli_sent st @ [line]\<rparr>"

text \<open>A line typed by the user.\<close>

definition cli_input :: "string option \<Rightarrow> client_state \<Rightarrow> cli_result" where
  "cli_input fgets st =
     (case get_input_from_stream fgets of
        Undefined \<Rightarrow> Cli_Undefined
      | Ret None \<Rightarrow> Cli_Running st
      | Ret (Some buffer) \<Rightarrow>
          if buffer = ''Cquit'' then Cli_Exit True st
          else if buffer = ''Dstop'' then Cli_Running ((cli_send (''0'' @ newline) ^^ 3) st)
          else Cli_Running (cli_send (buffer @ newline) st))"

definition cli_output :: "string option \<Rightarrow> client_state \<Rightarrow> cli_result" where
  "cli_output data st = (case data of None \<Rightarrow> Cli_Exit True st | Some d \<Rightarrow> Cli_Running (st\<lparr>cli_shown := cli_shown st @ d\<rparr>))"

definition cli_timeout :: "string option \<Rightarrow> client_state \<Rightarrow> cli_result" where
  "cli_timeout tmp st =
     (let st1 = st\<lparr>cli_timeouts := cli_timeouts st + 1\<rparr>
      in case tmp of
           None \<Rightarrow> Cli_Running st1
         | Some t \<Rightarrow>
             (case read_tmp_file t of
                Undefined \<Rightarrow> Cli_Undefined
              | Ret None \<Rightarrow> Cli_Running st1
              | Ret (Some path) \<Rightarrow> Cli_Running (st1\<lparr>cli_pager := cli_pager st1 @ [path]\<rparr>)))"

definition cli_then :: "cli_result \<Rightarrow> (client_state \<Rightarrow> cli_result) \<Rightarrow> cli_result" where
  "cli_then r f = (case r of Cli_Running st \<Rightarrow> f st | _ \<Rightarrow> r)"

text \<open>One round of the loop; \<open>single\<close> stands for \<open>modules_stats_flag || modules_info_flag\<close>.\<close>

definition cli_round :: "bool \<Rightarrow> cli_event \<Rightarrow> client_state \<Rightarrow> cli_result" where
  "cli_round single e st =
     cli_then
       (case e of
          Select_Fails \<Rightarrow> Cli_Exit False st
        | Input_Ready inp out \<Rightarrow>
            cli_then (case inp of None \<Rightarrow> Cli_Running st | Some fgets \<Rightarrow> cli_input fgets st)
              (\<lambda>st1. case out of None \<Rightarrow> Cli_Running st1 | Some data \<Rightarrow> cli_output data st1)
        | Nothing_Ready tmp \<Rightarrow> cli_timeout tmp st)
       (\<lambda>st1. if single \<and> cli_timeouts st1 > 3 then Cli_Exit True st1 else Cli_Running st1)"

fun cli_loop :: "bool \<Rightarrow> cli_event list \<Rightarrow> client_state \<Rightarrow> cli_result" where
  "cli_loop single [] st = Cli_Running st"
| "cli_loop single (e # es) st = cli_then (cli_round single e st) (cli_loop single es)"

text \<open>The line that asks for a mode, and the whole program on the returns \<open>es\<close> of \<open>select\<close>.\<close>

definition mode_request :: "cli_args \<Rightarrow> string" where
  "mode_request a =
     print_int (if modules_stats_flag a then CLIENT_STATS_MODE_CODE
                else if modules_info_flag a then CLIENT_INFO_MODE_CODE
                else if reload_command_flag a then CLIENT_RELOAD_MODE_CODE
                else CLIENT_CONFIG_MODE_CODE) @ newline"

definition cli_start :: client_state where
  "cli_start = \<lparr>cli_timeouts = 0, cli_sent = [], cli_shown = [], cli_pager = []\<rparr>"

definition cli_main :: "cli_os \<Rightarrow> string \<Rightarrow> (char \<times> string) list \<Rightarrow> cli_event list \<Rightarrow> cli_result" where
  "cli_main os default_socket opts es =
     (case cli_options opts no_cli_args of
        Cli_Help \<Rightarrow> Cli_Exit True cli_start
      | Cli_Bad_Option \<Rightarrow> Cli_Exit False cli_start
      | Cli_Args a \<Rightarrow>
          if flag_cnt a > 1 then Cli_Exit False cli_start
          else (let path = (case cli_socket a of None \<Rightarrow> default_socket | Some p \<Rightarrow> p)
                in if \<not> connect_to_supervisor (cli_sock os) (cli_connects os) path then Cli_Exit False cli_start
                   else if \<not> cli_fdopen_in os \<or> \<not> cli_fdopen_out os \<or> cli_fileno os < 0 then Cli_Exit False cli_start
                   else (let st = cli_send (mode_request a) cli_start
                         in if \<not> modules_stats_flag a \<and> \<not> modules_info_flag a \<and> reload_command_flag a then Cli_Exit True st
                            else cli_loop (modules_stats_flag a \<or> modules_info_flag a) es st)))"

subsection \<open>Client and daemon\<close>

text \<open>A thread of the daemon on the answers of its successive steps.\<close>

fun thread_run :: "client_answers list \<Rightarrow> nat \<times> client_pc \<Rightarrow> daemon \<Rightarrow> (daemon \<times> (nat \<times> client_pc) option) c_ret" where
  "thread_run [] t d = Ret (d, Some t)"
| "thread_run (a # as) t d =
     (case client_step a t d of
        Undefined \<Rightarrow> Undefined
      | Ret (d1, None) \<Rightarrow> Ret (d1, None)
      | Ret (d1, Some t1) \<Rightarrow> thread_run as t1 d1)"

lemma read_line: "0 < length t \<Longrightarrow> length t < 98 \<Longrightarrow> get_input_from_stream (Some (t @ newline)) = Ret (Some t)"
  by (simp add: get_input_from_stream_def newline_def DEFAULT_SIZE_OF_BUFFER_def)

lemma length_print_int_code:
  assumes "0 \<le> z" "z < 1000000"
  shows "0 < length (print_int z) \<and> length (print_int z) < 98"
proof -
  have "length (print_nat (nat z)) \<le> 6" using assms by (subst length_print_nat_le) simp_all
  then show ?thesis using assms(1) by (simp add: print_int_def)
qed

text \<open>
  The daemon understands the line by which the client asks for a mode: a client started with \<open>-x\<close>, \<open>-i\<close>, \<open>-r\<close> or
  without a flag gets the statistics, the information, the reload or the configuration mode.
\<close>

theorem mode_request_understood:
  assumes "cli_select ans = Select_Ready" "0 < bytes_to_read ans" "cli_line ans = Some (mode_request a)"
  shows "daemon_get_code_from_client ans =
    Ret (if modules_stats_flag a then CLIENT_STATS_MODE_CODE else if modules_info_flag a then CLIENT_INFO_MODE_CODE
         else if reload_command_flag a then CLIENT_RELOAD_MODE_CODE else CLIENT_CONFIG_MODE_CODE)"
proof -
  let ?z = "if modules_stats_flag a then CLIENT_STATS_MODE_CODE else if modules_info_flag a then CLIENT_INFO_MODE_CODE
    else if reload_command_flag a then CLIENT_RELOAD_MODE_CODE else CLIENT_CONFIG_MODE_CODE"
  have z: "0 \<le> ?z" "?z < 1000000" by (simp_all add: client_codes)
  then have "sscanf_d (print_int ?z) = Some ?z" by (intro sscanf_d_print_int) simp_all
  moreover have "get_input_from_stream (cli_line ans) = Ret (Some (print_int ?z))"
    unfolding assms(3) mode_request_def using length_print_int_code[OF z] by (intro read_line) simp_all
  ultimately show ?thesis
    using assms(1,2) by (simp add: daemon_get_code_from_client_def)
qed

lemma zero_request:
  assumes "cli_select a = Select_Ready" "0 < bytes_to_read a" "cli_line a = Some (''0'' @ newline)"
    and "client_connected (clients (server d) ! x)" "\<not> daemon_terminated (server d)"
  shows "client_step a (x, Option_Loop n) d =
    Ret (if n + 1 = 3 then d\<lparr>server := (server d)\<lparr>daemon_terminated := True\<rparr>\<rparr> else d, Some (x, Option_Loop (n + 1)))"
proof -
  have "get_number_from_input_choosing_option (Some ''0'') = 0" by code_simp
  with assms read_line[of "''0''"] show ?thesis
    by (simp add: client_step_def serve_request_def Let_def)
qed

text \<open>
  C31. Typing \<open>Dstop\<close> stops the daemon: the three lines the client then sends, received by the thread of that client while it serves the
  configuration mode, request the termination of the daemon.
\<close>

theorem dstop_stops_daemon:
  assumes "cli_input (Some (''Dstop'' @ newline)) st = Cli_Running st'"
    and "map cli_line as = map Some (drop (length (cli_sent st)) (cli_sent st'))"
    and "\<forall>a \<in> set as. cli_select a = Select_Ready \<and> 0 < bytes_to_read a"
    and "client_connected (clients (server d) ! x)" "\<not> daemon_terminated (server d)"
  shows "thread_run as (x, Option_Loop 0) d = Ret (d\<lparr>server := (server d)\<lparr>daemon_terminated := True\<rparr>\<rparr>, Some (x, Option_Loop 3))"
proof -
  have "cli_sent st' = cli_sent st @ replicate 3 (''0'' @ newline)"
    using assms(1) read_line[of "''Dstop''"] by (auto simp: cli_input_def cli_send_def numeral_3_eq_3)
  then have "map cli_line as = replicate 3 (Some (''0'' @ newline))" using assms(2) by (simp add: numeral_3_eq_3)
  then obtain a b c where as: "as = [a, b, c]" "cli_line a = Some (''0'' @ newline)" "cli_line b = Some (''0'' @ newline)"
    "cli_line c = Some (''0'' @ newline)"
    by (auto simp: numeral_3_eq_3 map_eq_Cons_conv)
  then show ?thesis
    using assms(3) zero_request[OF _ _ as(2) assms(4,5)] zero_request[OF _ _ as(3) assms(4,5)] zero_request[OF _ _ as(4) assms(4,5)]
    by (simp add: numeral_3_eq_3)
qed

subsection \<open>Handing over a log\<close>

lemma fscanf_d_number:
  assumes "int n < 2 ^ 31"
  shows "fscanf_d (print_int (int n) @ newline @ t) = Some (int n, newline @ t)"
proof -
  obtain c cs where p: "print_nat n = c # cs"
    using print_nat_nonempty by (cases "print_nat n") auto
  have d: "list_all is_digit (c # cs)" using print_nat_digits[of n] p by simp
  have nd: "\<not> is_digit CHR 0x0A" by (simp add: is_digit_def)
  have tw: "takeWhile is_digit ((c # cs) @ newline @ t) = c # cs" "dropWhile is_digit ((c # cs) @ newline @ t) = newline @ t"
    using d nd by (simp_all add: newline_def takeWhile_append dropWhile_append list_all_iff)
  have "clamp64 (int n) = int n" "to_int32 (int n) = int n" using assms by (simp_all add: clamp64_def to_int32_id)
  moreover have "\<not> is_space c" "c \<noteq> CHR ''-''" "c \<noteq> CHR ''+''"
    using d digit_not_space[of c] digit_not_sign[of c] by simp_all
  ultimately show ?thesis
    using tw p scan_print_nat[of n] by (simp add: fscanf_d_def sscanf_d_def print_int_def)
qed

lemma first_word_le: "fscanf_s t = Some w \<Longrightarrow> length w \<le> length t"
  by (auto simp: fscanf_s_def Let_def split: if_splits)
    (meson le_trans length_dropWhile_le length_takeWhile_le)

text \<open>Whatever the path is, reading the file the daemon wrote stays inside the memory allocated, and gives the first word.\<close>

lemma read_tmp_file_written:
  assumes "0 < length p" "int (length p) < 2 ^ 31"
  shows "read_tmp_file (tmp_file_text p) = Ret (fscanf_s p)"
proof -
  have sp: "is_space CHR 0x0A" by (simp add: is_space_def)
  then have "fscanf_s (dropWhile is_space (newline @ p)) = fscanf_s p"
    by (simp add: fscanf_s_def newline_def dropWhile_idem)
  with first_word_le[of p] assms show ?thesis
    by (auto simp: read_tmp_file_def tmp_file_text_def fscanf_d_number split: option.splits)
qed

lemma whole_word: "0 < length p \<Longrightarrow> fscanf_s p = Some p \<longleftrightarrow> list_all (\<lambda>c. \<not> is_space c) p"
proof
  assume "fscanf_s p = Some p"
  then have "p = takeWhile (\<lambda>c. \<not> is_space c) (dropWhile is_space p)"
    by (auto simp: fscanf_s_def Let_def split: if_splits)
  then show "list_all (\<lambda>c. \<not> is_space c) p" by (metis list_all_iff set_takeWhileD)
next
  assume "0 < length p" "list_all (\<lambda>c. \<not> is_space c) p"
  then show "fscanf_s p = Some p"
    by (cases p) (simp_all add: fscanf_s_def list_all_iff takeWhile_eq_all_conv)
qed

text \<open>
  C30. A log chosen by a client of the daemon is shown to its user exactly when its path has no white space: the client reads the path
  back from the file with \<open>%s\<close>.
\<close>

theorem log_path_arrives:
  assumes "wf_sup s" "logs_fit logs s" "k = get_number_from_input_choosing_option input"
    and "interactive_browse_log_files readable logs True True input s = Ret (Tmp_File t)"
  shows "(\<exists>st'. cli_timeout (Some t) st = Cli_Running st' \<and> cli_pager st' = cli_pager st @ [log_paths logs s ! nat k]) \<longleftrightarrow>
    list_all (\<lambda>c. \<not> is_space c) (log_paths logs s ! nat k)"
proof -
  let ?p = "log_paths logs s ! nat k"
  have k: "0 \<le> k" "nat k < length (log_paths logs s)" and t: "t = tmp_file_text ?p"
    using assms(4) by (auto simp: browse_outcome[OF assms(1,2,3)] length_log_paths[OF assms(1)] split: if_splits)
  have "length ?p < PATH_MAX" using assms(2) k(2) by (simp add: logs_fit_def list_all_length)
  moreover have "?p \<noteq> []" using k(2) assms(2) by (rule log_path_nonempty)
  ultimately have "read_tmp_file t = Ret (fscanf_s ?p)" "0 < length ?p"
    using read_tmp_file_written[of ?p] by (simp_all add: t PATH_MAX_def)
  then show ?thesis
    using whole_word[of ?p] by (auto simp: cli_timeout_def Let_def split: option.splits)
qed

subsection \<open>The client of a single request ends\<close>

definition timeouts_in :: "cli_event list \<Rightarrow> nat" where
  "timeouts_in es = length (filter (\<lambda>e. case e of Nothing_Ready tmp \<Rightarrow> True | _ \<Rightarrow> False) es)"

lemma round_timeouts:
  assumes "cli_round True e st = Cli_Running st'"
  shows "cli_timeouts st' \<le> 3 \<and> cli_timeouts st' = cli_timeouts st + of_nat (timeouts_in [e])"
proof -
  have i: "cli_timeouts st1 = cli_timeouts st" if "cli_input inp st = Cli_Running st1" for inp st st1
    using that by (auto simp: cli_input_def cli_send_def numeral_3_eq_3 split: c_ret.splits option.splits if_splits)
  have o: "cli_timeouts st1 = cli_timeouts st" if "cli_output out st = Cli_Running st1" for out st st1
    using that by (auto simp: cli_output_def split: option.splits)
  have t: "cli_timeouts st1 = cli_timeouts st + 1" if "cli_timeout tmp st = Cli_Running st1" for tmp st st1
    using that by (auto simp: cli_timeout_def Let_def split: c_ret.splits option.splits)
  show ?thesis
    using assms
    by (auto simp: cli_round_def cli_then_def timeouts_in_def not_less split: cli_event.splits option.splits cli_result.splits if_splits dest!: i o t)
qed

lemma timeouts_in_Cons: "timeouts_in (e # es) = timeouts_in [e] + timeouts_in es" "timeouts_in [e] \<le> 1"
  by (simp_all add: timeouts_in_def)

lemma loop_timeouts:
  "cli_loop True es st = Cli_Running st' \<Longrightarrow> cli_timeouts st = of_nat n \<Longrightarrow> n \<le> 3 \<Longrightarrow> n + timeouts_in es \<le> 3"
proof (induction es arbitrary: st n)
  case (Cons e es)
  then obtain st1 where r: "cli_round True e st = Cli_Running st1" "cli_loop True es st1 = Cli_Running st'"
    by (auto simp: cli_then_def split: cli_result.splits)
  have t: "cli_timeouts st1 = of_nat (n + timeouts_in [e])" "cli_timeouts st1 \<le> 3"
    using round_timeouts[OF r(1)] Cons.prems(2) by auto
  have "n + timeouts_in [e] \<noteq> 4"
  proof
    assume "n + timeouts_in [e] = 4"
    with t(1) have "cli_timeouts st1 = of_nat 4" by (simp only:)
    with t(2) show False by simp
  qed
  then have "n + timeouts_in [e] \<le> 3" using Cons.prems(3) timeouts_in_Cons(2)[of e] by linarith
  from Cons.IH[OF r(2) t(1) this] show ?case using timeouts_in_Cons(1)[of e es] by simp
qed (simp add: timeouts_in_def)

text \<open>
  A client that asks for statistics or information ends at the latest when \<open>select\<close> has timed out four times,
  whatever it receives.
\<close>

theorem single_request_ends:
  assumes "cli_options opts no_cli_args = Cli_Args a" "modules_stats_flag a \<or> modules_info_flag a" "4 \<le> timeouts_in es"
  shows "cli_main os default_socket opts es \<noteq> Cli_Running st"
proof
  assume "cli_main os default_socket opts es = Cli_Running st"
  then have "cli_loop True es (cli_send (mode_request a) cli_start) = Cli_Running st"
    using assms(1,2) by (auto simp: cli_main_def Let_def split: if_splits)
  then have "0 + timeouts_in es \<le> 3"
    by (rule loop_timeouts) (simp_all add: cli_send_def cli_start_def)
  with assms(3) show False by simp
qed

subsection \<open>Examples\<close>

theorem single_request_ends_witness:
  "cli_main \<lparr>cli_sock = 3, cli_connects = (\<lambda>p. True), cli_fdopen_in = True, cli_fdopen_out = True, cli_fileno = 3\<rparr> ''/s''
     [(CHR ''x'', [])] (Input_Ready None (Some (Some ''a'')) # replicate 4 (Nothing_Ready None)) \<noteq> Cli_Running cli_start"
  by (rule single_request_ends[where a = "no_cli_args\<lparr>modules_stats_flag := True, flag_cnt := 1\<rparr>"]) (simp_all add: no_cli_args_def timeouts_in_def)

definition sample_answers :: "string \<Rightarrow> client_answers" where
  "sample_answers line = \<lparr>fdopen_in_ok = True, fdopen_out_ok = True, fileno_ret = 7, cli_select = Select_Ready, bytes_to_read = 1,
     cli_line = Some line, op_input = None, op_kill0 = (\<lambda>p. Kill_ESRCH), op_reload = (\<lambda>s. ((s, True), []))\<rparr>"

theorem mode_request_understood_witness:
  "daemon_get_code_from_client (sample_answers (mode_request (no_cli_args\<lparr>reload_command_flag := True, flag_cnt := 1\<rparr>))) = Ret CLIENT_RELOAD_MODE_CODE"
  using mode_request_understood[of "sample_answers (mode_request (no_cli_args\<lparr>reload_command_flag := True, flag_cnt := 1\<rparr>))"
      "no_cli_args\<lparr>reload_command_flag := True, flag_cnt := 1\<rparr>"]
  by (simp add: sample_answers_def no_cli_args_def)

text \<open>A daemon with one connected client.\<close>

definition sample_daemon :: daemon where
  "sample_daemon = fresh_daemon \<lparr>clients = [free_client\<lparr>client_sd := 7, client_connected := True\<rparr>], clients_cnt = 1, server_sd = 3,
     daemon_terminated = False, next_client_id = 1, config_mode_active = True\<rparr> {3, 7} (one_module disabled_running) []"

theorem dstop_stops_daemon_witness:
  "thread_run (replicate 3 (sample_answers (''0'' @ newline))) (0, Option_Loop 0) sample_daemon =
     Ret (sample_daemon\<lparr>server := (server sample_daemon)\<lparr>daemon_terminated := True\<rparr>\<rparr>, Some (0, Option_Loop 3))"
proof (rule dstop_stops_daemon)
  show "cli_input (Some (''Dstop'' @ newline)) cli_start = Cli_Running ((cli_send (''0'' @ newline) ^^ 3) cli_start)"
    using read_line[of "''Dstop''"] by (simp add: cli_input_def)
qed (simp_all add: sample_answers_def sample_daemon_def fresh_daemon_def cli_send_def cli_start_def numeral_3_eq_3)

theorem log_path_arrives_witness:
  "\<exists>st'. cli_timeout (Some (tmp_file_text ''/l/modules_logs/m_stderr'')) cli_start = Cli_Running st' \<and>
     cli_pager st' = [''/l/modules_logs/m_stderr'']"
proof -
  have k: "1 = get_number_from_input_choosing_option (Some ''1'')" by code_simp
  have p: "log_paths ''/l/'' (one_module disabled_running) ! nat 1 = ''/l/modules_logs/m_stderr''"
    using example_state
    by (simp add: log_paths_def module_log_paths_def module_log_path_def MODULES_LOGS_DIR_NAME_def disabled_running_def text_of_def)
  have b: "interactive_browse_log_files (\<lambda>p. True) ''/l/'' True True (Some ''1'') (one_module disabled_running) =
      Ret (Tmp_File (tmp_file_text ''/l/modules_logs/m_stderr''))"
    using browse_outcome[OF example_state(1) example_logs_fit k, of "\<lambda>p. True" True True] p example_state(3) by simp
  show ?thesis
    using log_path_arrives[OF example_state(1) example_logs_fit k b, of cli_start] unfolding p
    by (simp add: is_space_def cli_start_def)
qed

end
