(* ===== verification/Termination.thy ===== *)
theory Termination
  imports Client
begin

section \<open>The end of the program\<close>

text \<open>
  \<open>supervisor_termination\<close> (\<^verbatim>\<open>supervisor.c\<close>, lines 3443-3558) with \<open>free_output_file_strings_and_streams\<close> and
  \<open>create_shutdown_info\<close>: the request to the service thread and the join, the backup, the release of the modules, the wait for the
  clients and the end of the daemon's structures. The actions of the program are a list. Proved: a supervisor ended by a signal that keeps the
  modules and started again adopts every process that is alive and starts none of them a second time; after \<open>SIGTERM\<close> a backup is
  written only for processes that may not be signalled; the modules are released while clients may still be served.
\<close>

subsection \<open>The file with information about the backup\<close>

record shutdown_texts =
  sup_package_version :: string
  sup_git_version :: string
  started_text :: string
  now_text :: string
  logs_text :: string
  templ_text :: string

text \<open>The lines written to the file; \<open>ctime_r\<close> ends its text with a newline.\<close>

definition shutdown_info :: "shutdown_texts \<Rightarrow> nat \<Rightarrow> nat \<Rightarrow> string" where
  "shutdown_info t loaded_cnt running_cnt =
     ''Supervisor shutdown info:'' @ newline @ ''=========================='' @ newline @ newline @
     ''Supervisor package version: '' @ sup_package_version t @ newline @
     ''Supervisor git version: '' @ sup_git_version t @ newline @
     ''Started: '' @ started_text t @
     ''Actual date and time: '' @ now_text t @ newline @
     ''Number of modules in configuration: '' @ print_int (int loaded_cnt) @ newline @
     ''Number of running modules: '' @ print_int (int running_cnt) @ newline @
     ''Logs directory: '' @ logs_text t @ newline @
     ''Configuration file: '' @ templ_text t @ newline @ newline @
     ''Run supervisor with this configuration file to load generated backup file. It will connect to running modules.'' @ newline"

text \<open>What the program does apart from computing.\<close>

datatype term_act = Sys os_event | Sleep_One | Thread_Joined | Backup_Written string xml_node | Info_Written string string
  | Modules_Freed | Clients_Waited bool | Slots_Freed | Internals_Freed | Streams_Closed | Paths_Freed

text \<open>The answers of the outside world: the periods of the service thread until it ends, and what the writing of the backup meets.\<close>

record term_env =
  join_periods :: "period_env list"
  backup_path :: "string option"
  backup_saved :: bool
  info_opened :: bool
  shutdown_kill0 :: "int \<Rightarrow> kill_result"
  shutdown_texts :: shutdown_texts
  seen_clients :: "nat \<Rightarrow> bool list"

definition create_shutdown_info :: "term_env \<Rightarrow> string \<Rightarrow> sup \<Rightarrow> sup \<times> term_act list" where
  "create_shutdown_info env path s =
     (if \<not> info_opened env then (s, [])
      else (let ((s', es), running_cnt) = service_check_modules_status (shutdown_kill0 env) s
            in (s', map Sys es @ [Info_Written (path @ ''_info'') (shutdown_info (shutdown_texts env) (loaded_modules_cnt s) running_cnt)])))"

text \<open>The end of \<open>generate_backup_config_file\<close>: \<open>backup_saved\<close> tells whether the file could be opened and the document be dumped.\<close>

definition write_backup :: "(string \<Rightarrow> xml_node list) \<Rightarrow> bool \<Rightarrow> string \<Rightarrow> term_env \<Rightarrow> sup \<Rightarrow> sup \<times> term_act list" where
  "write_backup content_nodes daemon sock env s =
     (case backup_path env of
        None \<Rightarrow> (s, [])
      | Some path \<Rightarrow>
          (let acts = (if backup_saved env then [Backup_Written path (generate_backup_config_file content_nodes daemon sock s)] else []);
               (s', acts') = create_shutdown_info env path s
           in (s', acts @ acts')))"

subsection \<open>The steps of the termination\<close>

record program =
  server_part :: "server_internals option"
  daemon_mode_initialized :: bool
  supervisor_initialized :: bool
  service_thread_initialized :: bool
  netconf_flag :: bool
  daemon_mode :: bool
  own_socket_path :: string
  modules_part :: sup
  open_streams :: log_streams

definition end_service_thread ::
  "('j, 'z) jansson_scheme \<Rightarrow> (u32 \<Rightarrow> bool) \<Rightarrow> (string \<Rightarrow> string) \<Rightarrow> (string \<Rightarrow> xml_node list) \<Rightarrow> term_env \<Rightarrow> u32 \<Rightarrow> bool \<Rightarrow> bool
     \<Rightarrow> program \<Rightarrow> (sup \<times> term_act list) option" where
  "end_service_thread J calloc_ok sock_path content_nodes env buffer_size stop_all_modules generate_backup p =
     (if \<not> service_thread_initialized p then Some (modules_part p, [])
      else (case join_service_thread J calloc_ok sock_path (join_periods env) buffer_size
                   (request_termination stop_all_modules (modules_part p)) of
              None \<Rightarrow> None
            | Some (s1, es) \<Rightarrow>
                (let (s2, acts) = (if writes_backup generate_backup s1
                                   then write_backup content_nodes (daemon_mode p) (own_socket_path p) env s1 else (s1, []))
                 in Some (s2, map Sys es @ [Thread_Joined] @ acts))))"

text \<open>The array and the list of profiles are gone; the counters keep their values.\<close>

definition release_modules :: "sup \<Rightarrow> sup" where
  "release_modules s = (free_all_modules s)\<lparr>running_modules := [], profiles := []\<rparr>"

definition end_daemon :: "term_env \<Rightarrow> string \<Rightarrow> server_internals \<Rightarrow> term_act list" where
  "end_daemon env sock si =
     (if clients si \<noteq> [] then [Clients_Waited (wait_for_clients (seen_clients env) 0), Slots_Freed] else []) @
     (if server_sd si > 0 then [Sys (Close (server_sd si))] else []) @ [Internals_Freed, Sys (Unlink sock)]"

definition free_output_file_strings_and_streams :: "log_streams \<Rightarrow> log_streams" where
  "free_output_file_strings_and_streams o' =
     o'\<lparr>to_debug_log := None, to_supervisor_log := None, to_statistics := None, to_module_event := None\<rparr>"

text \<open>\<open>None\<close>: the service thread does not end within the given periods.\<close>

definition supervisor_termination ::
  "('j, 'z) jansson_scheme \<Rightarrow> (u32 \<Rightarrow> bool) \<Rightarrow> (string \<Rightarrow> string) \<Rightarrow> (string \<Rightarrow> xml_node list) \<Rightarrow> term_env \<Rightarrow> u32 \<Rightarrow> bool \<times> bool
     \<Rightarrow> program \<Rightarrow> (program \<times> term_act list) option" where
  "supervisor_termination J calloc_ok sock_path content_nodes env buffer_size args p =
     (let told = daemon_mode_initialized p \<and> server_part p \<noteq> None;
          p1 = (if told then p\<lparr>server_part := map_option (\<lambda>si. si\<lparr>daemon_terminated := True\<rparr>) (server_part p)\<rparr> else p);
          acts1 = (if told \<and> netconf_flag p then [Sleep_One] else [])
      in case (if supervisor_initialized p1
               then map_option (\<lambda>(s, acts). (p1\<lparr>modules_part := release_modules s\<rparr>, acts @ [Modules_Freed]))
                      (end_service_thread J calloc_ok sock_path content_nodes env buffer_size (fst args) (snd args) p1)
               else Some (p1, [])) of
           None \<Rightarrow> None
         | Some (p2, acts2) \<Rightarrow>
             (let (p3, acts3) = (case server_part p2 of
                                   Some si \<Rightarrow> if daemon_mode_initialized p2
                                     then (p2\<lparr>server_part := None\<rparr>, end_daemon env (own_socket_path p2) si) else (p2, [])
                                 | None \<Rightarrow> (p2, []))
              in Some (p3\<lparr>open_streams := free_output_file_strings_and_streams (open_streams p3)\<rparr>,
                       acts1 @ acts2 @ acts3 @ [Streams_Closed, Paths_Freed])))"

subsection \<open>A period starts no process for a module that is alive\<close>

definition no_fork :: "os_event list \<Rightarrow> bool" where
  "no_fork es \<longleftrightarrow> (\<forall>x. Fork x \<notin> set es)"

lemma no_fork_simps [simp]:
  "no_fork []" "no_fork (e # es) \<longleftrightarrow> (\<forall>x. e \<noteq> Fork x) \<and> no_fork es" "no_fork (es @ es') \<longleftrightarrow> no_fork es \<and> no_fork es'"
  by (auto simp: no_fork_def)

lemma no_fork_bodies [simp]:
  "no_fork (snd (close_sd m))" "no_fork (snd (service_disconnect_from_module m))" "no_fork (snd (check_status_body kill0 x m))"
  "no_fork (snd (clean_body waitp x m))" "no_fork (snd (sigint_body ps x m))" "no_fork (snd (sigkill_body ps sock_path x m))"
  "no_fork (snd (check_connection_body sock_path conn x m))"
proof -
  show c: "no_fork (snd (close_sd m))" for m by (simp add: close_sd_def)
  show "no_fork (snd (service_disconnect_from_module m))" using c by (simp add: service_disconnect_from_module_def case_prod_unfold Let_def)
  show "no_fork (snd (check_status_body kill0 x m))" using c by (simp add: check_status_body_def case_prod_unfold Let_def split: kill_result.split)
  show "no_fork (snd (clean_body waitp x m))" by (simp add: clean_body_def split: wait_result.split)
  show "no_fork (snd (sigint_body ps x m))" by (simp add: sigint_body_def)
  have u: "no_fork (unlink_ifc_socket sock_path ifc)" "no_fork (unlink_service_socket sock_path m)" for ifc m
    by (simp_all add: unlink_ifc_socket_def unlink_service_socket_def sprintf_into_def split: option.split)
  then have "no_fork (concat (map (unlink_ifc_socket sock_path) ifcs))" for ifcs by (induction ifcs) simp_all
  then show "no_fork (snd (sigkill_body ps sock_path x m))" using u by (simp add: sigkill_body_def)
  show "no_fork (snd (check_connection_body sock_path conn x m))"
    using c by (simp add: check_connection_body_def service_connect_to_module_def sprintf_into_def case_prod_unfold Let_def
        split: conn_result.split)
qed

lemma sweep_no_fork: "(\<And>x m. no_fork (snd (body x m))) \<Longrightarrow> no_fork (snd (sweep body s))"
  by (simp add: no_fork_def sweep_def case_prod_unfold Let_def for_upto_events)

lemma sweeps_no_fork [simp]:
  "no_fork (snd (sweep (check_status_body kill0) s))" "no_fork (snd (sweep (clean_body waitp) s))" "no_fork (snd (sweep (sigint_body ps) s))"
  "no_fork (snd (sweep (sigkill_body ps sock_path) s))" "no_fork (snd (sweep (check_connection_body sock_path conn) s))"
  by (simp_all add: sweep_no_fork)

lemma decode_overruns: "set (snd (fst (decode_array f tot i js cells_l))) \<subseteq> {Overrun}"
  by (induction f tot i js cells_l rule: decode_array.induct) (auto simp: Let_def split: prod.splits)

lemma decode_array_no_fork [simp]: "no_fork (snd (fst (decode_array f tot i js cells_l)))"
  using decode_overruns[of f tot i js cells_l] by (auto simp: no_fork_def)

lemma decode_no_fork [simp]: "no_fork (snd (fst (service_decode_module_stats J calloc_ok data m)))"
proof -
  have "no_fork (snd (fst (decode_in_stats J root m)))" "no_fork (snd (fst (decode_out_stats J root m)))" for root m
    by (simp_all add: decode_in_stats_def decode_out_stats_def case_prod_unfold Let_def split: option.split)
  then show ?thesis by (simp add: service_decode_module_stats_def case_prod_unfold Let_def split: option.split)
qed

lemma reply_no_fork [simp]: "no_fork (snd (fst (reply_loop J calloc_ok recv x n buffer_size ms)))"
proof (induction J calloc_ok recv x n buffer_size ms rule: reply_loop.induct)
  case (3 J calloc_ok recv x n buffer_size m ms)
  have "no_fork (snd (fst (reply_body J calloc_ok (recv x) buffer_size m)))"
    by (simp add: reply_body_def fits_buffer_def read_string_def case_prod_unfold Let_def split: option.split)
  with 3 show ?case by (simp add: case_prod_unfold Let_def prod_eq_iff)
qed simp_all

lemma request_no_fork: "request_loop snd_call x n ms = Some (ms', es) \<Longrightarrow> no_fork es"
proof (induction snd_call x n ms arbitrary: ms' es rule: request_loop.induct)
  case (3 snd_call x n m ms)
  then obtain m1 es1 ms1 es2 where r: "request_body snd_call x m = Some (m1, es1)"
      "request_loop snd_call (Suc x) n ms = Some (ms1, es2)" "es = es1 @ es2"
    by (auto split: option.splits)
  moreover from r(1) have "no_fork es1"
    using no_fork_bodies(2)[of m]
    by (auto simp: request_body_def simp del: no_fork_bodies split: if_splits option.splits)
  ultimately show ?case using 3 by auto
qed auto

lemma serve_no_fork [simp]: "no_fork (snd (serve_loop y s))"
proof (induction y s rule: serve_loop.induct)
  case (1 y s)
  have "no_fork (snd (serve_module y s))" by (simp add: serve_module_def case_prod_unfold Let_def)
  with 1 show ?case by (subst serve_loop_unfold) (auto simp: prod_eq_iff)
qed

lemma statistics_no_fork:
  assumes "statistics_phase J calloc_ok sock_path env buffer_size s = Some ((s', es), bs)"
  shows "no_fork es"
  using assms request_no_fork
  by (auto simp: statistics_phase_def request_phase_def reply_phase_def service_check_modules_status_def service_check_connections_def
      bind_ev_simps case_prod_unfold Let_def split: option.splits)

text \<open>Only the first loop of the control phase starts processes, module \<open>x\<close> in iteration \<open>x\<close>.\<close>

lemma control_forks:
  assumes "Fork x \<in> set (snd (control_phase sock_path env s))"
  shows "x < loaded_modules_cnt s \<and> x < length (running_modules s) \<and> \<not> module_status (running_modules s ! x)"
proof -
  let ?upd = "update_status_body (profiles s) (module_restarts_num_config s) (fork_result env)"
  have in_no: "Fork x \<notin> set es" if "no_fork es" for es using that by (simp add: no_fork_def)
  have "Fork x \<in> set (snd (sweep ?upd s))"
    using assms
    by (simp add: control_phase_def bind_ev_simps service_update_modules_status_def service_stop_modules_sigint_def
        service_clean_after_children_def service_check_modules_status_def service_stop_modules_sigkill_def in_no)
  then obtain i where i: "i < loaded_modules_cnt s" "i < length (running_modules s)" "Fork x \<in> set (snd (?upd i (running_modules s ! i)))"
    by (auto simp: sweep_def case_prod_unfold Let_def for_upto_events)
  then show ?thesis by (auto simp: update_status_body_def start_sent Let_def split: if_splits)
qed

lemma period_starts_no_second:
  assumes "service_period J calloc_ok sock_path env buffer_size s = Period_Done ((s', es), bs)"
    and "x < loaded_modules_cnt s" "x < length (running_modules s)" "0 < module_pid (running_modules s ! x)"
    and "kill0_first env (module_pid (running_modules s ! x)) = Kill_Ok"
  shows "Fork x \<notin> set es"
proof
  let ?s1 = "fst (sweep (check_status_body (kill0_first env)) s)"
  assume f: "Fork x \<in> set es"
  obtain es3 where e: "statistics_phase J calloc_ok sock_path env buffer_size (fst (control_phase sock_path env ?s1)) = Some ((s', es3), bs)"
    "es = (snd (sweep (check_status_body (kill0_first env)) s) @ snd (control_phase sock_path env ?s1)) @ es3"
    using assms(1) by (auto simp: service_period_def service_check_modules_status_def case_prod_unfold Let_def bind_ev_simps
      split: if_splits option.splits)
  have "no_fork (snd (sweep (check_status_body (kill0_first env)) s))" by simp
  then have "Fork x \<in> set (snd (control_phase sock_path env ?s1))"
    using f e(2) statistics_no_fork[OF e(1)] by (auto simp: no_fork_def)
  from control_forks[OF this] have "\<not> module_status (running_modules ?s1 ! x)" by simp
  moreover have "running_modules ?s1 ! x = fst (check_status_body (kill0_first env) x (running_modules s ! x))"
    by (rule sweep_nth[OF assms(2,3)])
  ultimately show False using assms(4,5) by (simp add: check_status_body_def)
qed

subsection \<open>What the service thread leaves\<close>

lemma backup_document:
  assumes "supervisor_termination J calloc_ok sock_path cn env bs args p = Some (p', acts)" "Backup_Written f doc \<in> set acts"
  shows "\<exists>sj es. join_service_thread J calloc_ok sock_path (join_periods env) bs (request_termination (fst args) (modules_part p)) = Some (sj, es) \<and>
    doc = generate_backup_config_file cn (daemon_mode p) (own_socket_path p) sj \<and> writes_backup (snd args) sj"
  using assms
  by (auto simp: supervisor_termination_def end_service_thread_def write_backup_def create_shutdown_info_def end_daemon_def case_prod_unfold Let_def
      split: option.splits if_splits)

text \<open>A module as the service thread leaves it: nothing has changed but what depends on whether its process is alive.\<close>

definition left_as :: "(int \<Rightarrow> kill_result) \<Rightarrow> running_module \<Rightarrow> running_module \<Rightarrow> bool" where
  "left_as kill0 m m' \<longleftrightarrow> saved m' = (saved m)\<lparr>sv_pid := module_pid m'\<rparr> \<and> module_profile m' = module_profile m \<and>
     config_ifces m' = config_ifces m \<and> config_ifces_cnt m' = config_ifces_cnt m \<and>
     module_pid m' \<in> {module_pid m, 0} \<and> (0 < module_pid m \<and> kill0 (module_pid m) = Kill_Ok \<longrightarrow> module_pid m' = module_pid m)"

lemma left_as_exit: "left_as kill0 m (fst (service_disconnect_from_module (fst (check_status_body kill0 x m))))"
proof -
  have c: "left_as kill0 m (fst (check_status_body kill0 x m))"
    by (simp add: left_as_def check_status_body_def saved_def saved_ifces_def close_sd_def split: kill_result.split)
  have "left_as kill0 m (fst (service_disconnect_from_module m'))" if "left_as kill0 m m'" for m'
    using that by (simp add: left_as_def service_disconnect_from_module_def saved_def saved_ifces_def close_sd_def)
  then show ?thesis using c by blast
qed

definition exit_module :: "(int \<Rightarrow> kill_result) \<Rightarrow> running_module \<Rightarrow> running_module" where
  "exit_module kill0 m = fst (service_disconnect_from_module (fst (check_status_body kill0 0 m)))"

lemma exit_state:
  assumes "service_period J calloc_ok sock_path env bs s = Thread_Exit (s', es)" "wf_sup s"
  shows "loaded s' = map (exit_module (kill0_first env)) (loaded s) \<and> profiles s' = profiles s \<and>
    s' = fst (disconnect_all (fst (sweep (check_status_body (kill0_first env)) s))) \<and>
    thread_exits (fst (sweep (check_status_body (kill0_first env)) s)) (snd (service_check_modules_status (kill0_first env) s))"
proof -
  let ?c = "sweep (check_status_body (kill0_first env)) s"
  have e: "s' = fst (disconnect_all (fst ?c))" "thread_exits (fst ?c) (snd (service_check_modules_status (kill0_first env) s))"
    using assms(1) by (auto simp: service_period_def service_check_modules_status_def bind_ev_def case_prod_unfold Let_def
        split: if_splits option.splits)
  have fr: "loaded_modules_cnt s' = loaded_modules_cnt s" "length (running_modules s') = length (running_modules s)" "profiles s' = profiles s"
    by (simp_all add: e(1) disconnect_all_def)
  have "running_modules s' ! i = exit_module (kill0_first env) (running_modules s ! i)" if "i < loaded_modules_cnt s" for i
  proof -
    have "check_status_body (kill0_first env) i = check_status_body (kill0_first env) 0" by (simp add: check_status_body_def fun_eq_iff)
    moreover have "i < length (running_modules s)" using that assms(2) by (simp add: wf_sup_def)
    ultimately show ?thesis
      using that sweep_nth[of i s] sweep_nth[of i "fst ?c"] by (simp add: e(1) disconnect_all_def exit_module_def)
  qed
  then have "loaded s' = map (exit_module (kill0_first env)) (loaded s)"
    using fr by (intro nth_equalityI) (auto simp: loaded_def)
  then show ?thesis using e fr(3) by blast
qed

text \<open>A signal that keeps the modules ends the thread at the first look.\<close>

lemma join_at_once:
  assumes "join_service_thread J calloc_ok sock_path envs bs (request_termination False s) = Some (sj, es)" "service_inv tr s"
  shows "list_all2 (left_as (kill0_first (hd envs))) (loaded s) (loaded sj) \<and> profiles sj = profiles s \<and> wf_sup sj"
proof -
  define s0 where "s0 = request_termination False s"
  obtain env envs' where e: "envs = env # envs'" using assms(1) by (cases envs) auto
  obtain r where r: "service_period J calloc_ok sock_path env bs s0 = Thread_Exit r"
    using join_let_run[OF request_flags(1)] request_flags(2) unfolding s0_def by blast
  then have "r = (sj, es)" using assms(1) by (simp add: e s0_def[symmetric])
  moreover have inv: "service_inv tr s0" "loaded s0 = loaded s" "profiles s0 = profiles s"
    using service_inv_flags[OF assms(2), of False False] by (simp_all add: s0_def request_termination_def loaded_def)
  moreover have "wf_sup s0" using inv(1) by (simp add: service_inv_def)
  ultimately have l: "loaded sj = map (exit_module (kill0_first env)) (loaded s)" "profiles sj = profiles s"
    using exit_state[of J calloc_ok sock_path env bs s0 sj es] r by metis+
  then have "list_all2 (left_as (kill0_first env)) (loaded s) (loaded sj)"
    using left_as_exit[of "kill0_first env" _ 0] by (simp add: list_all2_conv_all_nth exit_module_def)
  moreover have "wf_sup sj" using thread_exit_ok[OF inv(1) r] \<open>r = (sj, es)\<close> by (simp add: step_ok_def service_inv_def)
  ultimately show ?thesis using l(2) by (simp add: e)
qed

text \<open>After a request to stop everything the thread ends when no process is left that could be signalled.\<close>

lemma join_stopped:
  "service_inv tr s \<Longrightarrow> \<forall>env \<in> set envs. answers_ok env \<Longrightarrow> \<not> service_thread_continue s \<Longrightarrow> service_stop_all_modules s \<Longrightarrow>
     join_service_thread J calloc_ok sock_path envs bs s = Some (sj, es) \<Longrightarrow>
     \<forall>m \<in> set (loaded sj). module_status m \<longrightarrow> module_root_perm_needed m"
proof (induction envs arbitrary: bs s tr es)
  case (Cons env envs)
  show ?case
  proof (cases "service_period J calloc_ok sock_path env bs s")
    case (Thread_Exit r)
    then have r: "r = (sj, es)" using Cons.prems(5) by simp
    have w: "wf_sup s" using Cons.prems(1) by (simp add: service_inv_def)
    note x = exit_state[OF Thread_Exit[unfolded r] w]
    have "service_stop_all_modules (fst (sweep (check_status_body (kill0_first env)) s))"
      using Cons.prems(4) same_flags_sweep by (simp add: same_flags_def)
    then have "snd (service_check_modules_status (kill0_first env) s) = 0" using x by (simp add: thread_exits_def)
    then have none: "\<not> check_status_counts False (kill0_first env) m" if "m \<in> set (loaded s)" for m
      using that Cons.prems(3) by (simp add: service_check_modules_status_def filter_empty_conv)
    have "module_status (exit_module (kill0_first env) m) \<longrightarrow> module_root_perm_needed (exit_module (kill0_first env) m)"
      if "m \<in> set (loaded s)" for m
    proof -
      have "mod_ok m" using Cons.prems(1) that by (auto simp: service_inv_def all_mod_ok_def loaded_def dest: in_set_takeD)
      then show ?thesis
        using none[OF that] by (auto simp: exit_module_def check_status_counts_def check_status_body_def service_disconnect_from_module_def
            close_sd_def mod_ok_defs split: kill_result.splits)
    qed
    then show ?thesis using x by auto
  next
    case (Period_Done q)
    obtain s' es1 bs1 where q: "q = ((s', es1), bs1)" by (metis prod.exhaust)
    obtain es2 where j: "join_service_thread J calloc_ok sock_path envs bs1 s' = Some (sj, es2)"
      using Cons.prems(5) Period_Done q by (auto split: option.splits)
    have "same_flags s s'" by (rule same_flags_period[OF Period_Done[unfolded q]])
    moreover have "service_inv (tr @ es1) s'" using period_done_ok[OF _ Cons.prems(1) Period_Done[unfolded q]] Cons.prems(2) by simp
    ultimately show ?thesis using Cons.IH[OF _ _ _ _ j] Cons.prems(2-4) by (simp add: same_flags_def)
  qed (use Cons.prems(5) in simp)
qed simp

lemma left_as_ok: "left_as kill0 m m' \<Longrightarrow> backup_ok_module m \<Longrightarrow> backup_ok_module m'"
  by (auto simp: left_as_def backup_ok_module_def saved_def saved_ifces_def)

lemma left_as_backup:
  assumes "list_all2 (left_as kill0) (loaded s) (loaded s')" "profiles s' = profiles s" "backup_ok s"
  shows "backup_ok s'" "m \<in> set (backed_up s) \<Longrightarrow> \<exists>m' \<in> set (backed_up s'). left_as kill0 m m'"
proof -
  have "list_all backup_ok_module (loaded s')"
    using assms(1,3) left_as_ok by (auto simp: backup_ok_def list_all_length list_all2_conv_all_nth)
  then show "backup_ok s'" using assms(2,3) by (simp add: backup_ok_def)
  assume m: "m \<in> set (backed_up s)"
  then obtain i where i: "i < length (loaded s)" "m = loaded s ! i" by (auto simp: backed_up_def modules_named_def in_set_conv_nth)
  then have l: "left_as kill0 m (loaded s' ! i)" "loaded s' ! i \<in> set (loaded s')" using assms(1) by (auto simp: list_all2_conv_all_nth)
  then have "in_profile s' nm (loaded s' ! i) = in_profile s nm m" for nm
    using assms(2) by (simp add: in_profile_def profile_ref_def left_as_def)
  then have "loaded s' ! i \<in> set (backed_up s')" using m l(2) assms(2) by (auto simp: backed_up_def modules_named_def)
  then show "\<exists>m' \<in> set (backed_up s'). left_as kill0 m m'" using l(1) by blast
qed

lemma join_ends: "\<exists>r. join_service_thread J calloc_ok sock_path (env # envs) bs (request_termination False s) = Some r"
proof -
  obtain r where "service_period J calloc_ok sock_path env bs (request_termination False s) = Thread_Exit r"
    using join_let_run[OF request_flags(1)] request_flags(2) by blast
  then show ?thesis by simp
qed

text \<open>The backup is written when it is due and the file can be.\<close>

lemma termination_writes:
  assumes "supervisor_initialized p" "service_thread_initialized p" "backup_path env = Some f" "backup_saved env"
    and "join_service_thread J calloc_ok sock_path (join_periods env) bs (request_termination (fst args) (modules_part p)) = Some (sj, es)"
    and "writes_backup (snd args) sj"
  shows "\<exists>p' acts. supervisor_termination J calloc_ok sock_path cn env bs args p = Some (p', acts) \<and>
    Backup_Written f (generate_backup_config_file cn (daemon_mode p) (own_socket_path p) sj) \<in> set acts"
  using assms
  by (simp add: supervisor_termination_def end_service_thread_def write_backup_def case_prod_unfold Let_def split: option.split)

subsection \<open>Properties\<close>

text \<open>
  C4. The handover to the next supervisor. A supervisor that is ended by \<open>SIGINT\<close> or \<open>SIGQUIT\<close> leaves its modules alone and writes a backup; the
  supervisor that starts with this backup manages every process of a module with a profile that was alive, under its name and process
  identifier, and in its first period does not start the module a second time while the process is alive.
\<close>

theorem handover_adopts_processes:
  assumes "service_inv tr (modules_part p)" "backup_ok (modules_part p)" "lib_ok lib cn"
    and "sig \<in> {SIGINT, SIGQUIT}" "sup_sig_handler sig = Some args"
    and "supervisor_termination J calloc_ok sock_path cn env bs args p = Some (p', acts)" "Backup_Written f doc \<in> set acts"
    and "parse f = Some (Some (indent ws 0 doc))"
    and "s' = fst (fst (supervisor_initialization lib False (Some f) parse generated gener_file True initial_globals))"
    and "service_period J calloc_ok sock_path env' bs' s' = Period_Done ((s'', es), bs'')"
    and "m \<in> set (backed_up (modules_part p))" "0 < module_pid m"
    and "kill0_first (hd (join_periods env)) (module_pid m) = Kill_Ok" "kill0_first env' (module_pid m) = Kill_Ok"
  shows "\<exists>x < loaded_modules_cnt s'. module_name (running_modules s' ! x) = module_name m \<and>
    module_pid (running_modules s' ! x) = module_pid m \<and> Fork x \<notin> set es"
proof -
  have args: "args = (False, True)" using assms(4,5) by auto
  obtain sj ej where j: "join_service_thread J calloc_ok sock_path (join_periods env) bs (request_termination False (modules_part p)) = Some (sj, ej)"
    and doc: "doc = generate_backup_config_file cn (daemon_mode p) (own_socket_path p) sj"
    using backup_document[OF assms(6,7)] args by auto
  note at_once = join_at_once[OF j assms(1)]
  then have l: "list_all2 (left_as (kill0_first (hd (join_periods env)))) (loaded (modules_part p)) (loaded sj)" "profiles sj = profiles (modules_part p)"
    and w: "wf_sup sj" by blast+
  obtain mj where mj: "mj \<in> set (backed_up sj)" "left_as (kill0_first (hd (join_periods env))) m mj"
    using left_as_backup(2)[OF l assms(2,11)] by blast
  have "map saved (loaded s') = map saved (backed_up sj)"
    using backup_initialized[where s = sj and lib = lib and cn = cn and parse = parse and f = f and ws = ws and d = "daemon_mode p" and
        sock = "own_socket_path p" and generated = generated and gener_file = gener_file,
        OF w left_as_backup(1)[OF l assms(2)] assms(3) assms(8)[unfolded doc]]
    by (simp add: assms(9) case_prod_unfold Let_def)
  then have "saved mj \<in> set (map saved (loaded s'))" using mj(1) by simp
  then obtain x where x: "x < length (loaded s')" "saved (loaded s' ! x) = saved mj" by (auto simp: in_set_conv_nth)
  have "wf_sup s'" using service_inv_initial[of "[]"] by (simp add: assms(9) service_inv_def)
  then have s': "x < loaded_modules_cnt s'" "x < length (running_modules s')" "loaded s' ! x = running_modules s' ! x"
    using x(1) by (simp_all add: wf_sup_def loaded_nth)
  have eq: "module_name (running_modules s' ! x) = module_name m" "module_pid (running_modules s' ! x) = module_pid m"
    using x(2) mj(2) assms(12,13) s'(3) by (auto simp: left_as_def saved_def)
  then have "Fork x \<notin> set es" using period_starts_no_second[OF assms(10) s'(1,2)] assms(12,14) by simp
  then show ?thesis using s'(1) eq by blast
qed

text \<open>Examples: a module with process 17, alive throughout; and the same process when it may not be signalled.\<close>

definition alive_env :: period_env where
  "alive_env = dead_env\<lparr>kill0_first := (\<lambda>p. Kill_Ok), kill0_second := (\<lambda>p. Kill_Ok), kill0_third := (\<lambda>p. Kill_Ok), kill0_fourth := (\<lambda>p. Kill_Ok)\<rparr>"

definition foreign_env :: period_env where
  "foreign_env = dead_env\<lparr>kill0_first := (\<lambda>p. Kill_EPERM)\<rparr>"

definition ending :: "period_env \<Rightarrow> term_env" where
  "ending e = \<lparr>join_periods = [e], backup_path = Some ''b'', backup_saved = True, info_opened = False, shutdown_kill0 = kill0_first e,
     shutdown_texts = \<lparr>sup_package_version = ''1'', sup_git_version = ''2'', started_text = [], now_text = [], logs_text = ''/l'', templ_text = ''/t''\<rparr>,
     seen_clients = (\<lambda>k. [])\<rparr>"

lemma ending_join: "join_periods (ending e) = [e]"
  by (simp add: ending_def)

definition running_program :: program where
  "running_program = \<lparr>server_part = Some \<lparr>clients = [free_client], clients_cnt = 0, server_sd = 3, daemon_terminated = False, next_client_id = 0,
       config_mode_active = False\<rparr>, daemon_mode_initialized = True, supervisor_initialized = True, service_thread_initialized = True,
     netconf_flag = False, daemon_mode = True, own_socket_path = ''/s'', modules_part = backup_state,
     open_streams = \<lparr>to_statistics = Some [], to_module_event = Some [], to_output = None, to_debug_log = Some [], to_supervisor_log = Some []\<rparr>\<rparr>"

lemma ending_fields: "backup_path (ending e) = Some ''b''" "backup_saved (ending e)"
  by (simp_all add: ending_def)

lemma running_fields: "supervisor_initialized running_program" "service_thread_initialized running_program" "daemon_mode running_program"
  "own_socket_path running_program = ''/s''"
  by (simp_all add: running_program_def)

lemma service_inv_backup_state: "service_inv [] backup_state"
proof -
  have m: "mod_ok fresh_module \<and> sent_inv [] fresh_module" by (simp add: mod_ok_defs sent_inv_def fresh_module_def zero_module_def stat_cells_def)
  let ?m = "running_modules backup_state ! 0"
  have "mod_ok ?m \<and> sent_inv [] ?m"
    by (simp add: backup_state_def initial_globals_def mod_ok_defs sent_inv_def fresh_module_def zero_module_def stat_cells_def)
  moreover have "set (running_modules backup_state) = {?m, fresh_module}" by (simp add: backup_state_def initial_globals_def)
  ultimately show ?thesis using m backup_state_ok(1) by (simp add: service_inv_def all_mod_ok_def)
qed

theorem handover_adopts_processes_witness:
  "\<exists>p' acts doc s' s'' es bs'' x. supervisor_termination (jval_lib (\<lambda>d. None)) (\<lambda>n. True) (\<lambda>p. p) text_nodes (ending alive_env) 256 (False, True) running_program =
       Some (p', acts) \<and> Backup_Written ''b'' doc \<in> set acts \<and>
     service_period (jval_lib (\<lambda>d. None)) (\<lambda>n. True) (\<lambda>p. p) alive_env 256 s' = Period_Done ((s'', es), bs'') \<and>
     module_pid (running_modules s' ! x) = 17 \<and> Fork x \<notin> set es"
proof -
  let ?J = "jval_lib (\<lambda>d. None)"
  have l: "lib_ok doc_lib text_nodes" by (simp add: lib_ok_def doc_lib_def text_nodes_def)
  obtain sj es where j: "join_service_thread ?J (\<lambda>n. True) (\<lambda>p. p) (join_periods (ending alive_env)) 256 (request_termination False (modules_part running_program)) = Some (sj, es)"
    using join_ends[of ?J "\<lambda>n. True" "\<lambda>p. p" alive_env "[]" 256 "modules_part running_program"]
    by (metis (mono_tags) ending_join prod.exhaust)
  obtain p' acts where t: "supervisor_termination ?J (\<lambda>n. True) (\<lambda>p. p) text_nodes (ending alive_env) 256 (False, True) running_program = Some (p', acts)"
    "Backup_Written ''b'' (generate_backup_config_file text_nodes True ''/s'' sj) \<in> set acts"
    using termination_writes[of running_program "ending alive_env" "''b''" ?J "\<lambda>n. True" "\<lambda>p. p" 256 "(False, True)" sj es text_nodes] j
    by (auto simp: running_fields ending_fields writes_backup_def)
  define parse where "parse = (\<lambda>f :: string. Some (Some (indent (\<lambda>k. [CHR 0x0A]) 0 (generate_backup_config_file text_nodes True ''/s'' sj))))"
  define s' where "s' = fst (fst (supervisor_initialization doc_lib False (Some ''b'') parse True ''g'' True initial_globals))"
  have "service_thread_continue s'" by (simp add: s'_def supervisor_initialization_def start_service_thread_def case_prod_unfold Let_def)
  moreover have "\<forall>x. send_progress (send_answers alive_env x)" using dead_env_ok(2) by (simp add: alive_env_def)
  ultimately obtain s'' es' bs'' where d: "service_period ?J (\<lambda>n. True) (\<lambda>p. p) alive_env 256 s' = Period_Done ((s'', es'), bs'')"
    using service_period_done by blast
  have m: "backed_up backup_state = loaded backup_state"
    by (simp add: backed_up_def modules_named_def in_profile_def profile_ref_def backup_state_def initial_globals_def loaded_def)
  have "\<exists>x < loaded_modules_cnt s'. module_name (running_modules s' ! x) = module_name (running_modules backup_state ! 0) \<and>
      module_pid (running_modules s' ! x) = module_pid (running_modules backup_state ! 0) \<and> Fork x \<notin> set es'"
  proof (rule handover_adopts_processes[OF _ _ l _ _ t _ s'_def d])
    show "parse ''b'' = Some (Some (indent (\<lambda>k. [CHR 0x0A]) 0 (generate_backup_config_file text_nodes True ''/s'' sj)))" by (simp add: parse_def)
    show "sup_sig_handler SIGINT = Some (False, True)" "SIGINT \<in> {SIGINT, SIGQUIT}" by simp_all
    show "service_inv [] (modules_part running_program)" "backup_ok (modules_part running_program)"
      using service_inv_backup_state backup_state_ok(2) by (simp_all add: running_program_def)
    show "running_modules backup_state ! 0 \<in> set (backed_up (modules_part running_program))"
      by (simp add: running_program_def m) (simp add: backup_state_def initial_globals_def loaded_def)
  qed (simp_all add: backup_state_def initial_globals_def ending_def alive_env_def)
  then show ?thesis using t d by (auto simp: backup_state_def initial_globals_def)
qed

text \<open>
  C7. After \<open>SIGTERM\<close>, when everything is to be stopped, a backup is written only for processes that could not be stopped: the saved state has a
  running module, and every module that still runs is one whose process the supervisor is not permitted to signal.
\<close>

theorem sigterm_backup_only_unsignalled:
  assumes "service_inv tr (modules_part p)" "\<forall>env \<in> set (join_periods env'). answers_ok env"
    and "sup_sig_handler SIGTERM = Some args"
    and "supervisor_termination J calloc_ok sock_path cn env' bs args p = Some (p', acts)" "Backup_Written f doc \<in> set acts"
  shows "\<exists>s. doc = generate_backup_config_file cn (daemon_mode p) (own_socket_path p) s \<and> list_ex module_status (loaded s) \<and>
    list_all (\<lambda>m. module_status m \<longrightarrow> module_root_perm_needed m) (loaded s)"
proof -
  have args: "args = (True, False)" using assms(3) by simp
  obtain sj es where j: "join_service_thread J calloc_ok sock_path (join_periods env') bs (request_termination True (modules_part p)) = Some (sj, es)"
    "doc = generate_backup_config_file cn (daemon_mode p) (own_socket_path p) sj" "writes_backup False sj"
    using backup_document[OF assms(4,5)] args by auto
  have "service_inv tr (request_termination True (modules_part p))"
    by (rule service_inv_terminate[OF assms(1)])
  from join_stopped[OF this assms(2) request_flags(1) _ j(1)] request_flags(2) j(2,3) show ?thesis
    by (auto simp: writes_backup_def list_all_iff)
qed

definition foreign_program :: program where
  "foreign_program = running_program\<lparr>modules_part := backup_state\<lparr>running_modules :=
     (running_modules backup_state)[0 := (running_modules backup_state ! 0)\<lparr>module_status := True\<rparr>]\<rparr>\<rparr>"

lemma foreign_fields: "supervisor_initialized foreign_program" "service_thread_initialized foreign_program" "daemon_mode foreign_program"
  "own_socket_path foreign_program = ''/s''"
  by (simp_all add: foreign_program_def running_program_def)

theorem sigterm_backup_only_unsignalled_witness:
  "\<exists>p' acts s. supervisor_termination (jval_lib (\<lambda>d. None)) (\<lambda>n. True) (\<lambda>p. p) text_nodes (ending foreign_env) 256 (True, False) foreign_program =
       Some (p', acts) \<and> Backup_Written ''b'' (generate_backup_config_file text_nodes True ''/s'' s) \<in> set acts \<and>
     list_all (\<lambda>m. module_status m \<longrightarrow> module_root_perm_needed m) (loaded s)"
proof -
  let ?J = "jval_lib (\<lambda>d. None)"
  have inv: "service_inv [] (modules_part foreign_program)"
  proof -
    let ?m = "(running_modules backup_state ! 0)\<lparr>module_status := True\<rparr>"
    have "mod_ok ?m \<and> sent_inv [] ?m \<and> same_shape (running_modules backup_state ! 0) ?m"
      by (simp add: backup_state_def initial_globals_def mod_ok_defs sent_inv_def fresh_module_def zero_module_def stat_cells_def same_shape_def)
    moreover have ms: "running_modules backup_state = [running_modules backup_state ! 0, fresh_module]"
      by (simp add: backup_state_def initial_globals_def)
    moreover have "mod_ok fresh_module \<and> sent_inv [] fresh_module" using service_inv_backup_state ms
      by (metis service_inv_def all_mod_ok_def list.set_intros)
    moreover have "wf_sup (backup_state\<lparr>running_modules := [?m, fresh_module]\<rparr>)"
      using backup_state_ok(1) calculation(1)
      by (intro wf_sup_same_shape) (simp_all add: backup_state_def initial_globals_def same_shape_def)
    moreover have "(running_modules backup_state)[0 := ?m] = [?m, fresh_module]" using ms by (metis list_update_code(2))
    ultimately show ?thesis by (simp add: service_inv_def all_mod_ok_def foreign_program_def running_program_def)
  qed
  let ?s = "request_termination True (modules_part foreign_program)"
  have "\<exists>r. service_period ?J (\<lambda>n. True) (\<lambda>p. p) foreign_env 256 ?s = Thread_Exit r"
    using same_flags_sweep request_flags
    by (simp add: service_period_def thread_exits_def service_check_modules_status_def check_status_counts_def foreign_env_def same_flags_def
        case_prod_unfold Let_def)
  then obtain sj es where j: "service_period ?J (\<lambda>n. True) (\<lambda>p. p) foreign_env 256 ?s = Thread_Exit (sj, es)" by (metis prod.exhaust)
  have "wf_sup ?s" using service_inv_terminate[OF inv] by (simp add: service_inv_def)
  from exit_state[OF j this, THEN conjunct1] have "loaded sj = map (exit_module (\<lambda>p. Kill_EPERM)) (loaded ?s)"
    unfolding foreign_env_def by simp
  moreover have "list_ex module_status (map (exit_module (\<lambda>p. Kill_EPERM)) (loaded ?s))" by code_simp
  ultimately have "writes_backup False sj" by (simp add: writes_backup_def)
  then obtain p' acts where t: "supervisor_termination ?J (\<lambda>n. True) (\<lambda>p. p) text_nodes (ending foreign_env) 256 (True, False) foreign_program = Some (p', acts)"
    "Backup_Written ''b'' (generate_backup_config_file text_nodes True ''/s'' sj) \<in> set acts"
    using termination_writes[of foreign_program "ending foreign_env" "''b''" ?J "\<lambda>n. True" "\<lambda>p. p" 256 "(True, False)" sj es text_nodes] j
    by (auto simp: foreign_fields ending_fields ending_join)
  have "\<forall>env \<in> set (join_periods (ending foreign_env)). answers_ok env"
    using dead_env_ok(1) by (simp add: ending_def foreign_env_def answers_ok_def)
  from sigterm_backup_only_unsignalled[OF inv this _ t] t show ?thesis by (auto simp: foreign_program_def running_program_def)
qed



end
