(* ===== verification/Menu.thy ===== *)
theory Menu
  imports Termination
begin

section \<open>What the supervisor prints outside the status\<close>

text \<open>
  The remaining printing of the program: the menus \<open>interactive_get_option\<close> and \<open>daemon_send_options_to_client\<close>
  (\<^verbatim>\<open>supervisor.c\<close>, lines 1517-1533 and 2608-2626), \<open>interactive_print_supervisor_info\<close> (3353-3366), the periodical statistics
  \<open>print_statistics\<close> with their legend (718-749, 2275), \<open>show_file_with_pager\<close> (\<^verbatim>\<open>internal.c\<close>) and \<open>free_client_internals_variables\<close>
  (\<^verbatim>\<open>supervisor_cli.c\<close>). Every message goes through \<open>VERBOSE\<close>, one after another. Proved: the statistics arrive in the log whole
  exactly when their text has at most 4094 characters, and are cut there otherwise; the menus stay inside the buffer of the messages and
  list the choices that \<open>interactive_choice\<close> acts on.
\<close>

subsection \<open>Messages one after another\<close>

definition FORMAT_MENU :: piece where "FORMAT_MENU = esc ''[36m''"

definition FORMAT_INTERACTIVE :: piece where "FORMAT_INTERACTIVE = esc ''[38;5;214;1m''"

definition say :: "msg_level \<Rightarrow> piece list list \<Rightarrow> log_streams \<Rightarrow> log_streams" where
  "say level msgs o' = fold (VERBOSE level) msgs o'"

definition line :: "string \<Rightarrow> piece" where
  "line t = Text (t @ newline)"

subsection \<open>The menus\<close>

definition menu_title :: "piece list" where
  "menu_title = [FORMAT_MENU, FORMAT_BOLD, line ''--------OPTIONS--------'', FORMAT_RESET]"

definition menu_options :: "piece list list" where
  "menu_options =
     [[FORMAT_MENU, line ''1. ENABLE MODULE OR PROFILE''],
      [line ''2. DISABLE MODULE OR PROFILE''],
      [line ''3. RESTART RUNNING MODULE''],
      [line ''4. PRINT BRIEF STATUS''],
      [line ''5. PRINT DETAILED STATUS''],
      [line ''6. PRINT LOADED CONFIGURATION''],
      [line ''7. RELOAD CONFIGURATION''],
      [line ''8. PRINT SUPERVISOR INFO''],
      [line ''9. BROWSE LOG FILES'']]"

definition menu_prompt :: "piece list" where
  "menu_prompt = [FORMAT_INTERACTIVE, Text ''[INTERACTIVE] Your choice: '', FORMAT_RESET]"

definition interactive_get_option :: "string option \<Rightarrow> log_streams \<Rightarrow> log_streams \<times> int" where
  "interactive_get_option input o' =
     (say N_STDOUT ([menu_title] @ menu_options @ [[line ''0. STOP SUPERVISOR'', FORMAT_RESET], menu_prompt]) o',
      get_number_from_input_choosing_option input)"

definition daemon_send_options_to_client :: "log_streams \<Rightarrow> log_streams" where
  "daemon_send_options_to_client o' =
     say N_STDOUT ([menu_title] @ menu_options @ [[line ''-- Type \"Cquit\" to exit client --''],
       [line ''-- Type \"Dstop\" to stop daemon --'', FORMAT_RESET], menu_prompt]) o'"

subsection \<open>Information about the supervisor\<close>

text \<open>The texts of the file written at the shutdown, and two more.\<close>

record info_texts = shutdown_texts +
  gener_text :: string
  socket_text :: string

definition supervisor_info :: "info_texts \<Rightarrow> nat \<Rightarrow> nat \<Rightarrow> piece list list" where
  "supervisor_info t loaded_cnt running_cnt =
     [[FORMAT_BOLD, line ''--------------- INFO ---------------''],
      [Text ''Supervisor package version:'', FORMAT_RESET, line ('' '' @ sup_package_version t)],
      [FORMAT_BOLD, Text ''Supervisor git version:'', FORMAT_RESET, line ('' '' @ sup_git_version t)],
      [FORMAT_BOLD, Text ''Started:'', FORMAT_RESET, Text ('' '' @ started_text t)],
      [FORMAT_BOLD, Text ''Logs directory path:'', FORMAT_RESET, line ('' '' @ logs_text t)],
      [FORMAT_BOLD, Text ''Start-up configuration template:'', FORMAT_RESET, line ('' '' @ templ_text t)],
      [FORMAT_BOLD, Text ''Loaded configuration file (generated):'', FORMAT_RESET, line ('' '' @ gener_text t)],
      [FORMAT_BOLD, Text ''Communication socket path:'', FORMAT_RESET, line ('' '' @ socket_text t)],
      [FORMAT_BOLD, Text ''Number of loaded modules:'', FORMAT_RESET, line ('' '' @ print_int (int loaded_cnt))],
      [FORMAT_BOLD, Text ''Number of running modules:'', FORMAT_RESET, line ('' '' @ print_int (int running_cnt))]]"

definition interactive_print_supervisor_info ::
  "info_texts \<Rightarrow> (int \<Rightarrow> kill_result) \<Rightarrow> sup \<Rightarrow> log_streams \<Rightarrow> (sup \<times> os_event list) \<times> log_streams" where
  "interactive_print_supervisor_info t kill0 s o' =
     (let (r, running_cnt) = service_check_modules_status kill0 s
      in (r, say N_STDOUT (supervisor_info t (loaded_modules_cnt s) running_cnt) o'))"

subsection \<open>The periodical statistics\<close>

definition tab :: string where
  "tab = [CHR 0x09]"

definition statistics_legend :: string where
  "statistics_legend =
     concat (map (\<lambda>t. t @ newline)
       [''Legend for an interface statistics:'',
        tab @ ''CNT_RM - counter of received messages  on the input interface'',
        tab @ ''CNT_RB - counter of received buffers on the input interface'',
        tab @ ''CNT_SM - counter of sent messages on the output interface'',
        tab @ ''CNT_SB - counter of sent buffers on the output interface'',
        tab @ ''CNT_DM - counter of dropped messages on the output interface'',
        tab @ ''CNT_AF - autoflush counter of the output interface'',
        ''Statistics example:'',
        tab @ ''module_name,interface_direction,interface_number,stats'',
        tab @ ''module,in,number,CNT_RM,CNT_RB'',
        tab @ ''module,out,number,CNT_SM,CNT_SB,CNT_DM,CNT_AF'',
        ''--------------------------------------------------------''])"

definition print_statistics_legend :: "log_streams \<Rightarrow> log_streams" where
  "print_statistics_legend o' = VERBOSE STATISTICS [Text statistics_legend] o'"

text \<open>\<open>time\<close> is the text of \<open>ctime_r\<close>.\<close>

definition print_statistics :: "string \<Rightarrow> sup \<Rightarrow> log_streams \<Rightarrow> log_streams \<times> os_event list" where
  "print_statistics time s o' =
     (let (stats_buffer, es) = make_formated_statistics 1 s
      in (say STATISTICS [[Text (''------> '' @ time)], [Text stats_buffer]] o', es))"

text \<open>The end of a period of the service thread; the mutex has been released before.\<close>

definition period_statistics :: "string \<Rightarrow> u64 \<Rightarrow> nat \<Rightarrow> sup \<Rightarrow> log_streams \<Rightarrow> (log_streams \<times> os_event list) \<times> u64" where
  "period_statistics time period_cnt running_modules_cnt s o' =
     (if period_cnt mod 30 = 0 \<and> running_modules_cnt > 0 then print_statistics time s o' else (o', []), period_cnt + 1)"

subsection \<open>The pager and the end of the client\<close>

text \<open>\<open>pid\<close> is the result of \<open>fork\<close>: the child becomes the pager or ends, the parent waits for it.\<close>

datatype pager_act = Exec_Pager string "string list" | Child_Exit | Wait_Pager int | Fork_Message

definition show_file_with_pager :: "int \<Rightarrow> bool \<Rightarrow> string \<Rightarrow> pager_act list" where
  "show_file_with_pager pid exec_ok file_path =
     (if pid = 0 then Exec_Pager ''less'' [''less'', ''+G'', file_path] # (if exec_ok then [] else [Child_Exit])
      else if pid = -1 then [Fork_Message] else [Wait_Pager pid])"

text \<open>Both streams are opened on the descriptor of the connection; a stream is its descriptor.\<close>

record client_internals =
  supervisor_input_stream :: "int option"
  supervisor_output_stream :: "int option"
  supervisor_input_stream_fd :: int
  supervisor_sd :: int

text \<open>The descriptors closed, in this order.\<close>

definition free_client_internals_variables :: "client_internals \<Rightarrow> int list" where
  "free_client_internals_variables ci =
     (if supervisor_input_stream_fd ci > 0 then [supervisor_input_stream_fd ci] else []) @
     (case supervisor_input_stream ci of None \<Rightarrow> [] | Some fd \<Rightarrow> [fd]) @
     (case supervisor_output_stream ci of None \<Rightarrow> [] | Some fd \<Rightarrow> [fd]) @
     (if supervisor_sd ci > 0 then [supervisor_sd ci] else [])"


subsection \<open>What arrives\<close>

lemma say_simps [simp]: "say level [] o' = o'" "say level (msg # msgs) o' = say level msgs (VERBOSE level msg o')"
  by (simp_all add: say_def)

lemma VERBOSE_whole: "msg_len msg \<le> 4094 \<Longrightarrow> VERBOSE level msg o' = print_msg level (concat (map piece_text msg)) o'"
  by (simp add: VERBOSE_def verbose_id)

lemma say_output:
  "\<forall>msg \<in> set msgs. msg_len msg \<le> 4094 \<Longrightarrow>
     to_output (say N_STDOUT msgs o') = map_option (\<lambda>w. w @ concat (map (\<lambda>msg. concat (map piece_text msg)) msgs)) (to_output o')"
proof (induction msgs arbitrary: o')
  case Nil
  then show ?case by (cases "to_output o'") simp_all
next
  case (Cons msg msgs)
  then show ?case by (cases "to_output o'") (simp_all add: VERBOSE_whole print_msg_def)
qed

text \<open>Both menus are written whole, and they list the same choices: only what ends the session differs.\<close>

lemmas menu_defs = menu_title_def menu_options_def menu_prompt_def line_def newline_def FORMAT_MENU_def FORMAT_INTERACTIVE_def
  format_defs

lemma menus_whole:
  "to_output o' = Some w \<Longrightarrow> \<exists>before after1 after2.
     to_output (fst (interactive_get_option input o')) = Some (w @ before @ after1) \<and>
     to_output (daemon_send_options_to_client o') = Some (w @ before @ after2) \<and>
     before = concat (map (\<lambda>msg. concat (map piece_text msg)) (menu_title # menu_options))"
  by (auto simp: interactive_get_option_def daemon_send_options_to_client_def say_output menu_defs simp del: say_simps)

text \<open>Option 8 does to the modules what \<open>interactive_choice\<close> says.\<close>

lemma supervisor_info_state:
  "interactive_choice reload kill0 8 input s = Ret (fst (interactive_print_supervisor_info t kill0 s o'))"
  by (simp add: interactive_choice_def interactive_print_supervisor_info_def case_prod_unfold Let_def)

text \<open>The one connection of the client is closed once for each of its four names.\<close>

lemma client_closes_connection:
  "0 < fd \<Longrightarrow> free_client_internals_variables
     \<lparr>supervisor_input_stream = Some fd, supervisor_output_stream = Some fd, supervisor_input_stream_fd = fd, supervisor_sd = fd\<rparr>
     = replicate 4 fd"
  by (simp add: free_client_internals_variables_def numeral_eq_Suc)

lemma print_statistics_text:
  assumes "\<forall>l \<in> set (statistics_lines 1 s). length l \<le> 200 \<and> CHR 0x00 \<notin> set l" "length time \<le> 26"
  shows "print_statistics time s o' =
    (print_msg STATISTICS (take 4094 (concat (statistics_lines 1 s))) (print_msg STATISTICS (''------> '' @ time) o'), [])"
  using assms(2) make_formated_statistics_fits[OF assms(1)]
  by (simp add: print_statistics_def VERBOSE_whole) (simp add: VERBOSE_def verbose_def)

text \<open>
  C37. The periodical statistics in the log. Every thirtieth period with a running module appends a heading and the statistics of the
  interfaces to the log of statistics and nothing to any other stream; all of the statistics arrive exactly when their text has at
  most 4094 characters: of a longer text, the rest is lost.
\<close>

theorem statistics_in_log:
  assumes "\<forall>l \<in> set (statistics_lines 1 s). length l \<le> 200 \<and> CHR 0x00 \<notin> set l" "length time \<le> 26"
    and "to_statistics o' = Some w" "period_cnt mod 30 = 0" "0 < running_cnt"
    and "period_statistics time period_cnt running_cnt s o' = ((o'', es), cnt')"
  shows "es = [] \<and> o''\<lparr>to_statistics := Some w\<rparr> = o' \<and>
    to_statistics o'' = Some (w @ ''------> '' @ time @ take 4094 (concat (statistics_lines 1 s))) \<and>
    (to_statistics o'' = Some (w @ ''------> '' @ time @ concat (statistics_lines 1 s)) \<longleftrightarrow> length (concat (statistics_lines 1 s)) \<le> 4094)"
proof -
  have "o'' = print_msg STATISTICS (take 4094 (concat (statistics_lines 1 s))) (print_msg STATISTICS (''------> '' @ time) o')" "es = []"
    using assms(4-6) print_statistics_text[OF assms(1,2)] by (simp_all add: period_statistics_def)
  moreover have "take n xs = xs \<longleftrightarrow> length xs \<le> n" for n and xs :: string by (auto simp: take_all_iff)
  ultimately show ?thesis using assms(3) by (cases o') (simp add: print_msg_def)
qed

text \<open>A module with 300 interfaces: the text has 4800 characters.\<close>

definition busy_module :: running_module where
  "busy_module = zero_module\<lparr>module_name := Some ''m'', module_status := True, module_service_ifc_isconnected := True,
     total_in_ifces_cnt := 300, in_ifces_data := Some (replicate 300 (zero_in_stats\<lparr>in_ifc_type := 116\<rparr>))\<rparr>"

definition quiet_streams :: log_streams where
  "quiet_streams = \<lparr>to_statistics = Some [], to_module_event = None, to_output = None, to_debug_log = None, to_supervisor_log = None\<rparr>"

lemma busy_lines: "statistics_lines 1 (demo_sup busy_module) = replicate 300 (''m,in,t,none,0,0'' @ newline)"
proof -
  have "in_ifc_line busy_module (zero_in_stats\<lparr>in_ifc_type := 116\<rparr>) = ''m,in,t,none,0,0'' @ newline"
    by (simp add: in_ifc_line_def busy_module_def zero_in_stats_def print_str_def print_u64_def print_nat.simps
        digit_char_def newline_def) code_simp
  then show ?thesis
    by (simp add: statistics_lines_def demo_sup_def loaded_def ifc_lines_def busy_module_def
        zero_module_def stat_list_def map_replicate_const bit_0)
qed

theorem statistics_in_log_witness:
  "to_statistics (fst (fst (period_statistics ''now'' 30 1 (demo_sup busy_module) quiet_streams))) \<noteq>
     Some (''------> now'' @ concat (statistics_lines 1 (demo_sup busy_module)))"
proof -
  have l: "\<forall>l \<in> set (statistics_lines 1 (demo_sup busy_module)). length l \<le> 200 \<and> CHR 0x00 \<notin> set l"
    "length (concat (statistics_lines 1 (demo_sup busy_module))) = 4800"
    by (simp_all add: busy_lines newline_def length_concat sum_list_replicate)
  obtain o'' es cnt' where p: "period_statistics ''now'' 30 1 (demo_sup busy_module) quiet_streams = ((o'', es), cnt')"
    by (metis prod.exhaust)
  have "to_statistics quiet_streams = Some []" "(30 :: u64) mod 30 = 0" by (simp_all add: quiet_streams_def)
  from statistics_in_log[OF l(1) _ this _ p] l(2) show ?thesis unfolding p by simp
qed

end
