(* ===== verification/Netconf.thy ===== *)
theory Netconf
  imports Menu "HOL-Library.Multiset"
begin

section \<open>The NETCONF plugin\<close>

text \<open>
  The plugin for libnetconf: \<open>netconf_supervisor_initialization\<close> and \<open>netconf_get_state_data\<close> (\<^verbatim>\<open>supervisor.c\<close>, from line 5565) and
  the callbacks and notifications of \<^verbatim>\<open>src/ncnemea/nemea.c\<close>. The types of the available modules, \<open>init_sup_flags\<close> and
  \<open>interactive_show_available_modules\<close> are declared nowhere in the repository: the subtree of the available modules is an argument, and so is
  \<open>init_sup_flags\<close>. Proved: the state data hold every module of a profile exactly once, with its status and a restart counter in the range of
  the schema, and say nothing of the counters of the interfaces; a notification is sent for exactly the starts, stops and disabled modules
  of a period; a notification fits its buffer up to a length of the name; the plugin reports success whatever happened at its start.
\<close>

subsection \<open>State data\<close>

text \<open>\<open>xmlNewChild\<close> with a content that may be a null pointer.\<close>

definition null_child :: "(string \<Rightarrow> xml_node list) \<Rightarrow> string \<Rightarrow> string option \<Rightarrow> xml_node" where
  "null_child content_nodes nm t = Xml_Node XML_ELEMENT_NODE nm (case t of None \<Rightarrow> [] | Some u \<Rightarrow> content_nodes u) [] []"

definition branch :: "string \<Rightarrow> xml_node list \<Rightarrow> xml_node" where
  "branch nm children = Xml_Node XML_ELEMENT_NODE nm children [] []"

text \<open>The counters of an interface: \<open>buffer\<close> is empty, because the calls that would print into it are commented out.\<close>

definition state_counters :: "(string \<Rightarrow> xml_node list) \<Rightarrow> interface_t \<Rightarrow> xml_node list" where
  "state_counters content_nodes ifc =
     (let buffer = []; text = (\<lambda>(nm, t). new_child content_nodes nm t)
      in if int_ifc_direction ifc = IN_MODULE_IFC_DIRECTION
         then map text [(''recv-buffer-cnt'', buffer), (''recv-msg-cnt'', buffer), (''sent-msg-cnt'', ''0''), (''dropped-msg-cnt'', ''0''),
                (''sent-buffer-cnt'', ''0''), (''autoflush-cnt'', ''0'')]
         else if int_ifc_direction ifc = OUT_MODULE_IFC_DIRECTION
         then map text [(''recv-buffer-cnt'', ''0''), (''recv-msg-cnt'', ''0''), (''sent-msg-cnt'', buffer), (''dropped-msg-cnt'', buffer),
                (''sent-buffer-cnt'', buffer), (''autoflush-cnt'', buffer)]
         else [])"

definition state_interface :: "(string \<Rightarrow> xml_node list) \<Rightarrow> interface_t \<Rightarrow> xml_node list" where
  "state_interface content_nodes ifc =
     (if int_ifc_direction ifc \<noteq> INVALID_MODULE_IFC_ATTR \<and> ifc_params ifc \<noteq> None \<and> int_ifc_type ifc \<noteq> INVALID_MODULE_IFC_ATTR
      then [branch ''interface''
              ([null_child content_nodes ''type'' (ifc_type ifc), null_child content_nodes ''direction'' (ifc_direction ifc),
                null_child content_nodes ''params'' (ifc_params ifc)] @ state_counters content_nodes ifc)]
      else [])"

definition state_module :: "(string \<Rightarrow> xml_node list) \<Rightarrow> running_module \<Rightarrow> xml_node" where
  "state_module content_nodes m =
     branch ''module''
       ([null_child content_nodes ''name'' (module_name m),
         new_child content_nodes ''running'' (if module_status m then ''true'' else ''false''),
         new_child content_nodes ''restart-counter'' (print_int (if module_restart_cnt m < 0 then 0 else module_restart_cnt m))] @
        (if module_service_ifc_isconnected m \<and> module_status m
         then [branch ''trapinterfaces'' (concat (map (state_interface content_nodes) (saved_ifces m)))] else []))"

text \<open>The final \<open>xmlAddChild\<close> of a node that already is a child of the same parent leaves the tree as it is.\<close>

definition state_profile :: "(string \<Rightarrow> xml_node list) \<Rightarrow> sup \<Rightarrow> modules_profile \<Rightarrow> xml_node" where
  "state_profile content_nodes s p =
     branch ''modules'' (new_child content_nodes ''name'' (profile_name p) # map (state_module content_nodes) (modules_named s (profile_name p)))"

text \<open>\<open>available\<close> is the subtree of the available modules, \<open>template_ok\<close> whether the template could be parsed.\<close>

definition netconf_get_state_data :: "(string \<Rightarrow> xml_node list) \<Rightarrow> bool \<Rightarrow> xml_node option \<Rightarrow> sup \<Rightarrow> xml_node option" where
  "netconf_get_state_data content_nodes template_ok available s =
     (if loaded_modules_cnt s = 0 \<and> available = None then None
      else if \<not> template_ok then None
      else Some (branch ''nemea-supervisor''
        ((case available of None \<Rightarrow> [] | Some n \<Rightarrow> [n]) @
         (if loaded_modules_cnt s > 0 then map (state_profile content_nodes s) (profiles s) else []))))"

subsection \<open>Notifications\<close>

definition MODULE_EVENT_STARTED :: int where "MODULE_EVENT_STARTED = 1"

definition MODULE_EVENT_STOPPED :: int where "MODULE_EVENT_STOPPED = 2"

definition MODULE_EVENT_RESTARTED :: int where "MODULE_EVENT_RESTARTED = 3"

definition MODULE_EVENT_DISABLED :: int where "MODULE_EVENT_DISABLED = 4"

lemmas module_events = MODULE_EVENT_STARTED_def MODULE_EVENT_STOPPED_def MODULE_EVENT_RESTARTED_def MODULE_EVENT_DISABLED_def

definition notice_text :: "string \<Rightarrow> string \<Rightarrow> string \<Rightarrow> string" where
  "notice_text nm status rest =
     ''<moduleStatusChanged><moduleName>'' @ nm @ ''</moduleName><moduleStatus>'' @ status @ ''</moduleStatus>'' @ rest @
     ''</moduleStatusChanged>''"

text \<open>The text given to \<open>ncntf_event_new\<close>, if any; \<open>Undefined\<close> when it leaves the buffer of 300 bytes.\<close>

definition netconf_notify :: "int \<Rightarrow> string option \<Rightarrow> string option c_ret" where
  "netconf_notify module_event name =
     (let send = (\<lambda>t. if length t < 300 then Ret (Some t) else Undefined); nm = text_of name
      in if module_event = MODULE_EVENT_STARTED then send (notice_text nm ''started'' [])
         else if module_event = MODULE_EVENT_STOPPED then send (notice_text nm ''stopped'' [])
         else if module_event = MODULE_EVENT_RESTARTED
         then send (notice_text nm ''restarted'' ''<reason>Module was not running and restart_counter &lt; MAX/minute.</reason>'')
         else if module_event = MODULE_EVENT_DISABLED
         then send (notice_text nm ''disabled'' ''<reason>Restart_counter reached MAX/minute.</reason>'')
         else Ret None)"

text \<open>
  The calls of \<open>netconf_notify\<close> in the service thread, with the index of the module: in \<open>service_start_module\<close>, in
  \<open>service_update_modules_status\<close> and in \<open>service_stop_modules_sigint\<close>.
\<close>

definition start_notice :: "running_module \<Rightarrow> int" where
  "start_notice m = (if \<not> module_running m then MODULE_EVENT_STARTED else MODULE_EVENT_RESTARTED)"

definition update_notices :: "modules_profile list \<Rightarrow> int \<Rightarrow> nat \<Rightarrow> running_module \<Rightarrow> (nat \<times> int) list" where
  "update_notices ps restarts_config x m =
     (let m1 = restart_timer_step m
      in if profile_is_enabled ps m1 \<and> module_enabled m1 \<and> \<not> module_status m1 \<and>
            module_restart_cnt m1 = max_restarts restarts_config m1
         then [(x, MODULE_EVENT_DISABLED)]
         else if profile_is_enabled ps m1 \<and> \<not> module_status m1 \<and> module_enabled m1 then [(x, start_notice m1)]
         else [])"

definition sigint_notices :: "modules_profile list \<Rightarrow> nat \<Rightarrow> running_module \<Rightarrow> (nat \<times> int) list" where
  "sigint_notices ps x m =
     (if module_status m \<and> \<not> module_root_perm_needed m \<and> stop_wanted ps m \<and> \<not> sent_sigint m
      then [(x, MODULE_EVENT_STOPPED)] else [])"

definition notices :: "(nat \<Rightarrow> running_module \<Rightarrow> (nat \<times> int) list) \<Rightarrow> sup \<Rightarrow> (nat \<times> int) list" where
  "notices f s = concat (map (\<lambda>x. f x (running_modules s ! x)) [0..<loaded_modules_cnt s])"

text \<open>The notifications of a control phase that starts in \<open>s\<close>; its later loops send none.\<close>

definition control_notices :: "period_env \<Rightarrow> sup \<Rightarrow> (nat \<times> int) list" where
  "control_notices env s =
     (let s1 = fst (service_update_modules_status (fork_result env) s)
      in notices (update_notices (profiles s) (module_restarts_num_config s)) s @ notices (sigint_notices (profiles s1)) s1)"

subsection \<open>Start, callback and end\<close>

record plugin_os =
  pl_calloc :: "nat \<Rightarrow> bool"
  pl_socket :: int
  pl_fcntl :: bool
  pl_bind :: bool
  pl_listen :: bool
  pl_service_thread :: bool
  pl_server_thread :: bool

definition DEFAULT_NETCONF_SERVER_SOCKET :: string where
  "DEFAULT_NETCONF_SERVER_SOCKET = ''/tmp/netconf_supervisor.sock''"

text \<open>\<open>reload_configuration\<close> with the node of the running datastore; the arguments for the files are not read.\<close>

definition reload_node :: "libxml \<Rightarrow> xml_node option \<Rightarrow> sup \<Rightarrow> sup" where
  "reload_node lib node s = fst (fst (reload_configuration lib RELOAD_CALLBACK_ROOT_ELEM None (\<lambda>f. None) False [] node s))"

definition netconf_supervisor_initialization ::
  "plugin_os \<Rightarrow> (program \<Rightarrow> program) \<Rightarrow> libxml \<Rightarrow> xml_node option \<Rightarrow> program \<Rightarrow> (program \<times> int) \<times> os_event list" where
  "netconf_supervisor_initialization os init_sup_flags lib running p =
     (let p0 = (init_sup_flags p)\<lparr>netconf_flag := True, own_socket_path := DEFAULT_NETCONF_SERVER_SOCKET\<rparr>
      in case daemon_init_structures (pl_calloc os) of
           None \<Rightarrow> ((p0, -1), [])
         | Some si \<Rightarrow>
             (let ((si1, ret), es) = daemon_init_socket (own_socket_path p0) (pl_socket os) (pl_fcntl os) (pl_bind os) (pl_listen os) si;
                  p1 = p0\<lparr>server_part := Some si1\<rparr>
              in if ret \<noteq> 0 then ((p1, -1), es)
                 else (let ((s, ret'), es') = supervisor_initialization lib True None (\<lambda>f. None) False [] (pl_service_thread os) (modules_part p1);
                           p2 = p1\<lparr>daemon_mode_initialized := True, modules_part := s, service_thread_initialized := pl_service_thread os,
                                   supervisor_initialized := True\<rparr>
                       in if ret' \<noteq> 0 then ((p2, -1), es @ es')
                          else ((p2\<lparr>modules_part := reload_node lib running (modules_part p2)\<rparr>, if pl_server_thread os then 0 else -1), es @ es'))))"

definition EXIT_SUCCESS :: int where "EXIT_SUCCESS = 0"

definition transapi_init ::
  "plugin_os \<Rightarrow> (program \<Rightarrow> program) \<Rightarrow> libxml \<Rightarrow> xml_node option \<Rightarrow> program \<Rightarrow> (program \<times> int) \<times> os_event list" where
  "transapi_init os init_sup_flags lib running p =
     (let ((p', ret), es) = netconf_supervisor_initialization os init_sup_flags lib running p in ((p', EXIT_SUCCESS), es))"

definition callback_nemea_nemea_supervisor :: "libxml \<Rightarrow> xml_node option \<Rightarrow> program \<Rightarrow> program \<times> int" where
  "callback_nemea_nemea_supervisor lib new_node p = (p\<lparr>modules_part := reload_node lib new_node (modules_part p)\<rparr>, EXIT_SUCCESS)"

definition transapi_close ::
  "('j, 'z) jansson_scheme \<Rightarrow> (u32 \<Rightarrow> bool) \<Rightarrow> (string \<Rightarrow> string) \<Rightarrow> (string \<Rightarrow> xml_node list) \<Rightarrow> term_env \<Rightarrow> u32
     \<Rightarrow> program \<Rightarrow> (program \<times> term_act list) option" where
  "transapi_close J calloc_ok sock_path content_nodes env buffer_size p =
     supervisor_termination J calloc_ok sock_path content_nodes env buffer_size (True, False) p"


subsection \<open>The state data are complete\<close>

definition child_value :: "libxml \<Rightarrow> string \<Rightarrow> xml_node \<Rightarrow> string option" where
  "child_value lib nm n = (case filter (is_elem nm) (xchildren n) of [] \<Rightarrow> None | c # _ \<Rightarrow> node_value lib c)"

text \<open>What a manager reads: for each module of each group its name, whether it runs, and its restart counter.\<close>

definition reported :: "libxml \<Rightarrow> xml_node \<Rightarrow> (string option \<times> string option \<times> string option) list" where
  "reported lib doc =
     concat (map (\<lambda>g. map (\<lambda>e. (child_value lib ''name'' e, child_value lib ''running'' e, child_value lib ''restart-counter'' e))
         (filter (is_elem ''module'') (xchildren g)))
       (filter (is_elem ''modules'') (xchildren doc)))"

definition status_of :: "running_module \<Rightarrow> string option \<times> string option \<times> string option" where
  "status_of m = (module_name m, Some (if module_status m then ''true'' else ''false''), Some (print_int (max 0 (module_restart_cnt m))))"

lemma branch_simps [simp]: "xtype (branch nm cs) = XML_ELEMENT_NODE" "xname (branch nm cs) = nm" "xchildren (branch nm cs) = cs"
  by (simp_all add: branch_def)

lemma is_elem_children [simp]:
  "is_elem nm (branch nm' cs) \<longleftrightarrow> nm' = nm" "is_elem nm (new_child cn nm' t) \<longleftrightarrow> nm' = nm" "is_elem nm (null_child cn nm' u) \<longleftrightarrow> nm' = nm"
  by (auto simp: is_elem_def branch_def new_child_def null_child_def)

lemma plain_print_int: "plain_text (print_int i)"
proof -
  have "CHR ''&'' \<notin> set (print_nat n)" for n
    using print_nat_digits[of n] by (auto simp: list_all_iff is_digit_def)
  then show ?thesis using print_nat_nonempty by (auto simp: plain_text_def print_int_def)
qed

lemma child_value_found: "filter (is_elem nm) (xchildren n) = [c] \<Longrightarrow> child_value lib nm n = node_value lib c"
  by (simp add: child_value_def)

lemma state_module_reported:
  assumes "lib_ok lib cn" "text_ok (module_name m)" "module_name m \<noteq> None"
  shows "(child_value lib ''name'' (state_module cn m), child_value lib ''running'' (state_module cn m),
    child_value lib ''restart-counter'' (state_module cn m)) = status_of m"
proof -
  obtain nm where nm: "module_name m = Some nm" "plain_text nm" using assms(2,3) by (auto simp: text_ok_def)
  then have "node_value lib (null_child cn ''name'' (module_name m)) = Some nm"
    using value_new_child[OF assms(1) nm(2)] by (simp add: null_child_def new_child_def)
  moreover have "node_value lib (new_child cn k (if b then ''true'' else ''false'')) = Some (if b then ''true'' else ''false'')" for k b
    by (rule value_new_child[OF assms(1)]) simp
  ultimately show ?thesis
    using value_new_child[OF assms(1) plain_print_int] nm(1)
    by (simp add: child_value_def state_module_def status_of_def max_def)
qed

lemma reported_backed_up:
  assumes "lib_ok lib cn" "\<forall>m \<in> set (loaded s). text_ok (module_name m) \<and> module_name m \<noteq> None"
    "\<forall>n. available = Some n \<longrightarrow> xname n \<noteq> ''modules''" "loaded_modules_cnt s > 0"
    and "netconf_get_state_data cn template_ok available s = Some doc"
  shows "reported lib doc = map status_of (backed_up s)"
proof -
  have doc: "filter (is_elem ''modules'') (xchildren doc) = map (state_profile cn s) (profiles s)"
  proof -
    have "filter (is_elem ''modules'') (map (state_profile cn s) ps) = map (state_profile cn s) ps" for ps
      by (induction ps) (simp_all add: state_profile_def)
    then show ?thesis
      using assms(3-5) by (auto simp: netconf_get_state_data_def is_elem_def split: if_splits option.splits)
  qed
  have "filter (is_elem ''module'') (xchildren (state_profile cn s p)) = map (state_module cn) (modules_named s (profile_name p))" for p
  proof -
    have "filter (is_elem ''module'') (map (state_module cn) ms) = map (state_module cn) ms" for ms
      by (induction ms) (simp_all add: state_module_def)
    then show ?thesis by (simp add: state_profile_def)
  qed
  moreover have "m \<in> set (modules_named s nm) \<Longrightarrow> text_ok (module_name m) \<and> module_name m \<noteq> None" for m nm
    using assms(2) by (simp add: modules_named_def)
  ultimately show ?thesis
    using state_module_reported[OF assms(1)]
    by (simp add: reported_def doc backed_up_def map_concat comp_def cong: map_cong)
qed

lemma mset_groups:
  assumes "distinct ks"
  shows "mset (concat (map (\<lambda>k. filter (\<lambda>x. f x = Some k) xs) ks)) = mset (filter (\<lambda>x. f x \<in> Some ` set ks) xs)"
  using assms
proof (induction ks)
  case (Cons k ks)
  have "k \<notin> set ks \<Longrightarrow> mset (filter (\<lambda>x. f x = Some k) xs) + mset (filter (\<lambda>x. f x \<in> Some ` set ks) xs) =
      mset (filter (\<lambda>x. f x \<in> Some ` set (k # ks)) xs)"
    by (induction xs) auto
  with Cons show ?case by simp
qed simp

lemma backed_up_members:
  assumes "wf_sup s" "distinct (map profile_name (profiles s))"
  shows "mset (backed_up s) = mset (filter (\<lambda>m. module_profile m \<noteq> None) (loaded s))"
proof -
  let ?key = "\<lambda>m. map_option profile_name (profile_ref (profiles s) m)"
  have key: "in_profile s nm = (\<lambda>m. ?key m = Some nm)" for nm by (auto simp: in_profile_def fun_eq_iff split: option.split)
  have "backed_up s = concat (map (\<lambda>k. filter (\<lambda>m. ?key m = Some k) (loaded s)) (map profile_name (profiles s)))"
    by (simp only: backed_up_def modules_named_def key map_map comp_def)
  then have "mset (backed_up s) = mset (filter (\<lambda>m. ?key m \<in> Some ` set (map profile_name (profiles s))) (loaded s))"
    using mset_groups[OF assms(2)] by metis
  also have "filter (\<lambda>m. ?key m \<in> Some ` set (map profile_name (profiles s))) (loaded s) = filter (\<lambda>m. module_profile m \<noteq> None) (loaded s)"
  proof (rule filter_cong[OF refl])
    fix m assume "m \<in> set (loaded s)"
    then have "wf_profile (length (profiles s)) m" using assms(1) by (auto simp: wf_sup_def loaded_def list_all_iff dest: in_set_takeD)
    then show "?key m \<in> Some ` set (map profile_name (profiles s)) \<longleftrightarrow> module_profile m \<noteq> None"
      by (cases "module_profile m") (auto simp: wf_profile_ref wf_profile_def profile_ref_def)
  qed
  finally show ?thesis .
qed

text \<open>
  C35. The state data for the manager. They hold every loaded module that has a profile exactly once, in the groups of the profiles, with its
  name, whether it runs, and a restart counter, which is in the range \<open>uint8\<close> that the schema (\<^verbatim>\<open>nemea.yang\<close>) demands; modules without a
  profile are not reported.
\<close>

theorem state_data_complete:
  assumes "service_inv tr s" "loaded_modules_cnt s > 0" "lib_ok lib cn" "distinct (map profile_name (profiles s))"
    and "\<forall>m \<in> set (loaded s). text_ok (module_name m)" "\<forall>n. available = Some n \<longrightarrow> xname n \<noteq> ''modules''"
    and "netconf_get_state_data cn True available s = Some doc"
  shows "mset (reported lib doc) = mset (map status_of (filter (\<lambda>m. module_profile m \<noteq> None) (loaded s))) \<and>
    list_all (\<lambda>(nm, running, cnt). \<exists>n. cnt = Some (print_nat n) \<and> n < 256) (reported lib doc)"
proof -
  have w: "wf_sup s" "\<forall>m \<in> set (loaded s). mod_ok m"
    using assms(1) by (auto simp: service_inv_def all_mod_ok_def loaded_def dest: in_set_takeD)
  then have "\<forall>m \<in> set (loaded s). text_ok (module_name m) \<and> module_name m \<noteq> None"
    using assms(5) by (simp add: wf_sup_def list_all_iff)
  then have r: "reported lib doc = map status_of (backed_up s)" by (rule reported_backed_up[OF assms(3) _ assms(6,2,7)])
  have "\<exists>n. snd (snd (status_of m)) = Some (print_nat n) \<and> n < 256" if "m \<in> set (loaded s)" for m
  proof -
    have "restart_ok m" using w(2) that by (simp add: mod_ok_def)
    then show ?thesis
      by (intro exI[of _ "nat (max 0 (module_restart_cnt m))"])
        (auto simp: status_of_def print_int_def restart_ok_def NUM_SERVICE_IFC_PERIODS_def max_def)
  qed
  moreover have "set (backed_up s) \<subseteq> set (loaded s)" by (auto simp: backed_up_def modules_named_def)
  ultimately have "list_all (\<lambda>(nm, running, cnt). \<exists>n. cnt = Some (print_nat n) \<and> n < 256) (reported lib doc)"
    by (auto simp: r list_all_iff case_prod_unfold)
  moreover have "mset (reported lib doc) = mset (map status_of (filter (\<lambda>m. module_profile m \<noteq> None) (loaded s)))"
    using backed_up_members[OF w(1) assms(4)] by (simp add: r)
  ultimately show ?thesis by blast
qed


text \<open>What the state data say about the interfaces does not depend on the statistics the modules sent.\<close>

lemma state_data_without_counters:
  assumes "map without_stats (loaded s) = map without_stats (loaded s')" "profiles s = profiles s'"
    "loaded_modules_cnt s = loaded_modules_cnt s'"
  shows "netconf_get_state_data cn template_ok available s = netconf_get_state_data cn template_ok available s'"
proof -
  have same: "state_module cn m = state_module cn m' \<and> in_profile s nm m = in_profile s' nm m'" if "without_stats m = without_stats m'" for m m' nm
  proof -
    have "f (without_stats m) = f (without_stats m')" for f :: "running_module \<Rightarrow> 'z" using that by simp
    then show ?thesis
      using assms(2) that by (cases m; cases m') (simp add: without_stats_def state_module_def saved_ifces_def in_profile_def profile_ref_def)
  qed
  have "map (state_module cn) (filter (in_profile s nm) ms) = map (state_module cn) (filter (in_profile s' nm) ms')"
    if "map without_stats ms = map without_stats ms'" for nm ms ms'
    using that
  proof (induction ms arbitrary: ms')
    case (Cons m ms)
    then obtain m' ms'' where "ms' = m' # ms''" "without_stats m = without_stats m'" by (cases ms') auto
    with Cons same[of m m' nm] show ?case by simp
  qed simp
  then have "state_profile cn s p = state_profile cn s' p" for p
    using assms(1) by (simp add: state_profile_def modules_named_def)
  then show ?thesis
    using assms(2,3) by (simp add: netconf_get_state_data_def cong: map_cong)
qed

subsection \<open>Notifications tell what happened\<close>

lemma set_notices: "(x, e) \<in> set (notices f s) \<longleftrightarrow> (\<exists>y < loaded_modules_cnt s. (x, e) \<in> set (f y (running_modules s ! y)))"
  by (auto simp: notices_def)

lemma set_notices_at:
  "(\<And>y m. (x, e) \<in> set (f y m) \<Longrightarrow> x = y) \<Longrightarrow> x < loaded_modules_cnt s \<Longrightarrow>
     (x, e) \<in> set (notices f s) \<longleftrightarrow> (x, e) \<in> set (f x (running_modules s ! x))"
  by (auto simp: set_notices)

lemma notice_index:
  "(x, e) \<in> set (update_notices ps r y m) \<Longrightarrow> x = y" "(x, e) \<in> set (sigint_notices ps y m) \<Longrightarrow> x = y"
  by (auto simp: update_notices_def sigint_notices_def Let_def split: if_splits)

lemma update_notices_tell:
  "(x, MODULE_EVENT_DISABLED) \<in> set (update_notices ps r x m) \<longleftrightarrow> module_enabled m \<and> \<not> module_enabled (fst (update_status_body ps r fork_pid x m))"
  "(x, MODULE_EVENT_STARTED) \<in> set (update_notices ps r x m) \<longleftrightarrow> Fork x \<in> set (snd (update_status_body ps r fork_pid x m)) \<and> \<not> module_running m"
  "(x, MODULE_EVENT_RESTARTED) \<in> set (update_notices ps r x m) \<longleftrightarrow> Fork x \<in> set (snd (update_status_body ps r fork_pid x m)) \<and> module_running m"
  "(x, MODULE_EVENT_STOPPED) \<notin> set (update_notices ps r x m)"
proof -
  have f: "module_enabled (restart_timer_step m) = module_enabled m" "module_running (restart_timer_step m) = module_running m"
    by (simp_all add: restart_timer_step_def)
  have e: "module_enabled (fst (service_start_module fork_pid x m')) = module_enabled m'" "snd (service_start_module fork_pid x m') = [Fork x]" for m'
    by (simp_all add: service_start_module_def init_module_variables_def Let_def)
  show "(x, MODULE_EVENT_DISABLED) \<in> set (update_notices ps r x m) \<longleftrightarrow> module_enabled m \<and> \<not> module_enabled (fst (update_status_body ps r fork_pid x m))"
    "(x, MODULE_EVENT_STARTED) \<in> set (update_notices ps r x m) \<longleftrightarrow> Fork x \<in> set (snd (update_status_body ps r fork_pid x m)) \<and> \<not> module_running m"
    "(x, MODULE_EVENT_RESTARTED) \<in> set (update_notices ps r x m) \<longleftrightarrow> Fork x \<in> set (snd (update_status_body ps r fork_pid x m)) \<and> module_running m"
    "(x, MODULE_EVENT_STOPPED) \<notin> set (update_notices ps r x m)"
    by (auto simp: update_notices_def update_status_body_def start_notice_def module_events f e Let_def)
qed

lemma sigint_notices_tell:
  "(x, e) \<in> set (sigint_notices ps x m) \<longleftrightarrow> e = MODULE_EVENT_STOPPED \<and> \<not> sent_sigint m \<and> sent_sigint (fst (sigint_body ps x m))"
  by (auto simp: sigint_notices_def sigint_body_def)

lemma forks_of_updates:
  "x < loaded_modules_cnt s \<Longrightarrow> x < length (running_modules s) \<Longrightarrow>
     Fork x \<in> set (snd (control_phase sock_path env s)) \<longleftrightarrow>
     Fork x \<in> set (snd (update_status_body (profiles s) (module_restarts_num_config s) (fork_result env) x (running_modules s ! x)))"
proof -
  let ?upd = "update_status_body (profiles s) (module_restarts_num_config s) (fork_result env)"
  assume x: "x < loaded_modules_cnt s" "x < length (running_modules s)"
  have in_no: "Fork x \<notin> set es" if "no_fork es" for es using that by (simp add: no_fork_def)
  have "Fork x \<in> set (snd (control_phase sock_path env s)) \<longleftrightarrow> Fork x \<in> set (snd (sweep ?upd s))"
    by (simp add: control_phase_def bind_ev_simps service_update_modules_status_def service_stop_modules_sigint_def
        service_clean_after_children_def service_check_modules_status_def service_stop_modules_sigkill_def in_no)
  moreover have "Fork x \<in> set (snd (?upd y m)) \<Longrightarrow> y = x" for y m
    by (auto simp: update_status_body_def start_sent Let_def split: if_splits)
  ultimately show ?thesis using x by (auto simp: sweep_def case_prod_unfold Let_def for_upto_events)
qed



text \<open>How long a name may be: \<open>sprintf\<close> leaves the buffer for every longer one; nothing in the validation bounds a name.\<close>

fun name_room :: "int \<Rightarrow> nat" where
  "name_room e = (if e = MODULE_EVENT_RESTARTED then 118 else if e = MODULE_EVENT_DISABLED then 143 else 196)"

lemma notify_fits:
  assumes "e \<in> {MODULE_EVENT_STARTED, MODULE_EVENT_STOPPED, MODULE_EVENT_RESTARTED, MODULE_EVENT_DISABLED}"
  shows "netconf_notify e (Some nm) = Undefined \<longleftrightarrow> name_room e \<le> length nm"
  using assms by (auto simp: netconf_notify_def notice_text_def text_of_def module_events Let_def)

subsection \<open>The life of the plugin\<close>

lemma reload_node_rejected: "\<not> validate_configuration lib node \<Longrightarrow> reload_node lib node s = s"
  by (simp add: reload_node_def reload_configuration_def load_document_def reload_document_def)

lemma reload_node_inv: "service_inv tr s \<Longrightarrow> service_inv tr (reload_node lib node s)"
  by (simp add: reload_node_def reload_service_inv)

text \<open>After a start that succeeds, and after every callback, the modules are as the service thread needs them.\<close>

lemma plugin_start_inv:
  assumes "transapi_init os init_sup_flags lib running p = ((p1, ret), es)" "supervisor_initialized p1"
    "\<not> supervisor_initialized (init_sup_flags p)" "modules_part (init_sup_flags p) = initial_globals"
  shows "service_inv tr (modules_part p1) \<and> service_inv tr (modules_part (fst (callback_nemea_nemea_supervisor lib node p1)))"
proof -
  have "service_inv tr (modules_part p1)"
    using assms service_inv_initial[of tr lib True None "\<lambda>f. None" False "[]" "pl_service_thread os"]
    by (auto simp: transapi_init_def netconf_supervisor_initialization_def case_prod_unfold Let_def reload_node_inv split: option.splits if_splits)
  then show ?thesis by (simp add: callback_nemea_nemea_supervisor_def reload_node_inv)
qed

text \<open>
  C38. A failed start goes unnoticed. When the structures or the socket of the plugin cannot be made, \<open>transapi_init\<close> returns
  success all the same; so does the callback for any document, which loads its modules although no service thread exists; and the end of the
  plugin does not release them.
\<close>

theorem transapi_init_hides_failure:
  assumes "daemon_init_structures (pl_calloc os) = None \<or> pl_socket os = -1 \<or> \<not> pl_fcntl os \<or> \<not> pl_bind os \<or> \<not> pl_listen os"
    and "\<not> supervisor_initialized (init_sup_flags p)" "\<not> daemon_mode_initialized (init_sup_flags p)" "\<not> service_thread_initialized (init_sup_flags p)"
    and "transapi_init os init_sup_flags lib running p = ((p1, ret), es)"
    and "callback_nemea_nemea_supervisor lib node p1 = (p2, ret')"
  shows "ret = EXIT_SUCCESS \<and> ret' = EXIT_SUCCESS \<and> \<not> service_thread_initialized p2 \<and>
    modules_part p2 = reload_node lib node (modules_part (init_sup_flags p)) \<and>
    (\<exists>p3. transapi_close J calloc_ok sock_path cn env bs p2 = Some (p3, [Streams_Closed, Paths_Freed]) \<and> modules_part p3 = modules_part p2)"
proof -
  have p1: "ret = EXIT_SUCCESS" "modules_part p1 = modules_part (init_sup_flags p)" "\<not> supervisor_initialized p1" "\<not> daemon_mode_initialized p1" "\<not> service_thread_initialized p1"
    using assms(1-5)
    by (auto simp: transapi_init_def netconf_supervisor_initialization_def daemon_init_socket_def case_prod_unfold Let_def split: option.splits if_splits)
  have p2: "p2 = p1\<lparr>modules_part := reload_node lib node (modules_part p1)\<rparr>" "ret' = EXIT_SUCCESS"
    using assms(6) by (simp_all add: callback_nemea_nemea_supervisor_def)
  have "\<exists>p3. transapi_close J calloc_ok sock_path cn env bs p2 = Some (p3, [Streams_Closed, Paths_Freed]) \<and> modules_part p3 = modules_part p2"
    using p1(3,4) by (simp add: transapi_close_def supervisor_termination_def p2(1) Let_def split: option.split)
  then show ?thesis using p1 p2 by simp
qed

subsection \<open>Examples\<close>

theorem state_data_complete_witness:
  "\<exists>doc. netconf_get_state_data text_nodes True None backup_state = Some doc \<and>
     mset (reported doc_lib doc) = {#(Some ''m'', Some ''false'', Some ''0'')#}"
proof -
  have l: "lib_ok doc_lib text_nodes" by (simp add: lib_ok_def doc_lib_def text_nodes_def)
  have s: "loaded backup_state = [running_modules backup_state ! 0]" "loaded_modules_cnt backup_state > 0"
    "distinct (map profile_name (profiles backup_state))" "\<forall>m \<in> set (loaded backup_state). text_ok (module_name m)"
    "status_of (running_modules backup_state ! 0) = (Some ''m'', Some ''false'', Some ''0'')"
    "module_profile (running_modules backup_state ! 0) \<noteq> None"
    by (simp_all add: backup_state_def initial_globals_def loaded_def text_ok_def plain_text_def status_of_def fresh_module_def zero_module_def
        print_int_def print_nat.simps digit_char_def char_of_def bit_Suc_0_iff)
  obtain doc where d: "netconf_get_state_data text_nodes True None backup_state = Some doc"
    using s(2) by (simp add: netconf_get_state_data_def)
  show ?thesis
    using state_data_complete[OF service_inv_backup_state s(2) l s(3,4) _ d] s(5,6) d by (simp add: s(1))
qed


definition no_socket :: plugin_os where
  "no_socket = \<lparr>pl_calloc = (\<lambda>n. True), pl_socket = -1, pl_fcntl = True, pl_bind = True, pl_listen = True, pl_service_thread = True, pl_server_thread = True\<rparr>"

definition unused_program :: program where
  "unused_program = \<lparr>server_part = None, daemon_mode_initialized = False, supervisor_initialized = False, service_thread_initialized = False,
     netconf_flag = False, daemon_mode = False, own_socket_path = [], modules_part = initial_globals, open_streams = quiet_streams\<rparr>"

theorem transapi_init_hides_failure_witness:
  "snd (fst (transapi_init no_socket (\<lambda>p. p) doc_lib None unused_program)) = EXIT_SUCCESS \<and>
     loaded_modules_cnt (modules_part (fst (callback_nemea_nemea_supervisor doc_lib (Some sample_doc)
       (fst (fst (transapi_init no_socket (\<lambda>p. p) doc_lib None unused_program)))))) = 2"
proof -
  obtain p1 ret es where t: "transapi_init no_socket (\<lambda>p. p) doc_lib None unused_program = ((p1, ret), es)" by (metis prod.exhaust)
  obtain p2 ret' where c: "callback_nemea_nemea_supervisor doc_lib (Some sample_doc) p1 = (p2, ret')" by fastforce
  have "modules_part p2 = reload_node doc_lib (Some sample_doc) initial_globals \<and> ret = EXIT_SUCCESS"
    using transapi_init_hides_failure[OF _ _ _ _ t c, where cn = text_nodes and env = "ending dead_env" and bs = 256 and sock_path = "\<lambda>p. p" and
        calloc_ok = "\<lambda>n. True" and J = "jval_lib (\<lambda>d. None)"] by (simp add: no_socket_def unused_program_def)
  moreover have "loaded_modules_cnt (reload_node doc_lib (Some sample_doc) initial_globals) = 2" by code_simp
  ultimately show ?thesis by (simp add: t c)
qed

end
