(* ===== verification/Json_Info.thy ===== *)
theory Json_Info
  imports Service
begin

section \<open>Information about the modules as JSON\<close>

text \<open>
  \<open>make_json_modules_info\<close> (\<^verbatim>\<open>supervisor.c\<close>, lines 752-873), which the daemon sends to clients that ask for information or
  statistics. The functions of jansson are arguments: \<open>json_string\<close>, \<open>json_integer\<close>, \<open>json_array\<close> and \<open>json_object\<close> are
  what the formats of \<open>json_pack\<close> make of a string, a number, a list of values and a list of fields, \<open>json_merge\<close> is
  \<open>json_object_update\<close> and \<open>json_dumps\<close> the function of that name; \<open>None\<close> is \<open>NULL\<close> or -1. Proved: the text is that of one object with
  one member for each module that is shown, and when it is not sent at all.
\<close>

subsection \<open>The objects\<close>

record 'j json_lib =
  json_string :: "string \<Rightarrow> 'j option"
  json_integer :: "int \<Rightarrow> 'j"
  json_array :: "'j list \<Rightarrow> 'j"
  json_object :: "(string \<times> 'j) list \<Rightarrow> 'j option"
  json_merge :: "'j \<Rightarrow> 'j \<Rightarrow> 'j option"
  json_dumps :: "'j \<Rightarrow> string option"

text \<open>\<open>json_pack\<close> of an object fails when one of its values does; the format \<open>s\<close> fails for \<open>NULL\<close>.\<close>

fun all_some :: "'a option list \<Rightarrow> 'a list option" where
  "all_some [] = Some []"
| "all_some (None # xs) = None"
| "all_some (Some x # xs) = (case all_some xs of None \<Rightarrow> None | Some ys \<Rightarrow> Some (x # ys))"

definition json_pack :: "'j json_lib \<Rightarrow> (string \<times> 'j option) list \<Rightarrow> 'j option" where
  "json_pack J fds =
     (case all_some (map snd fds) of None \<Rightarrow> None | Some vs \<Rightarrow> json_object J (zip (map fst fds) vs))"

definition pack_s :: "'j json_lib \<Rightarrow> string option \<Rightarrow> 'j option" where
  "pack_s J s = (case s of None \<Rightarrow> None | Some t \<Rightarrow> json_string J t)"

definition pack_i :: "'j json_lib \<Rightarrow> int \<Rightarrow> 'j option" where
  "pack_i J z = Some (json_integer J z)"

text \<open>The format \<open>I\<close> takes a signed 64-bit number; the format \<open>i\<close> an \<open>int\<close>, of which a wider argument keeps the low 32 bits.\<close>

definition pack_I :: "'j json_lib \<Rightarrow> u64 \<Rightarrow> 'j option" where
  "pack_I J w = Some (json_integer J (sint w))"

definition pack_low :: "'j json_lib \<Rightarrow> u64 \<Rightarrow> 'j option" where
  "pack_low J w = Some (json_integer J (sint (ucast w :: 32 word)))"

text \<open>The string \<open>ifc_type\<close> of one character; a zero byte ends it.\<close>

definition ifc_type_text :: "u8 \<Rightarrow> string" where
  "ifc_type_text t = (if t = 0 then [] else [char_of (unat t)])"

definition json_in_ifc :: "'j json_lib \<Rightarrow> in_ifc_stats \<Rightarrow> 'j option" where
  "json_in_ifc J i = json_pack J
     [(''type'', pack_s J (Some (ifc_type_text (in_ifc_type i)))), (''ID'', pack_s J (in_ifc_id i)),
      (''is-conn'', pack_i J (uint (in_ifc_state i))), (''messages'', pack_I J (recv_msg_cnt i)),
      (''buffers'', pack_I J (recv_buffer_cnt i))]"

definition json_out_ifc :: "'j json_lib \<Rightarrow> out_ifc_stats \<Rightarrow> 'j option" where
  "json_out_ifc J i = json_pack J
     [(''type'', pack_s J (Some (ifc_type_text (out_ifc_type i)))), (''ID'', pack_s J (out_ifc_id i)),
      (''cli-num'', pack_i J (sint (num_clients i))), (''sent-msg'', pack_I J (sent_msg_cnt i)),
      (''drop-msg'', pack_I J (dropped_msg_cnt i)), (''buffers'', pack_I J (sent_buffer_cnt i)),
      (''autoflush'', pack_I J (autoflush_cnt i))]"

text \<open>
  A loop over the first \<open>n\<close> cells of an array of statistics: \<open>Undefined\<close> when it leaves the array, \<open>Ret None\<close> when it jumps to
  \<open>clean_up\<close>.
\<close>

fun json_cells :: "('a \<Rightarrow> 'j option) \<Rightarrow> nat \<Rightarrow> 'a list \<Rightarrow> 'j list \<Rightarrow> 'j list option c_ret" where
  "json_cells f 0 cells js = Ret (Some js)"
| "json_cells f (Suc n) [] js = Undefined"
| "json_cells f (Suc n) (c # cs) js = (case f c of None \<Rightarrow> Ret None | Some j \<Rightarrow> json_cells f n cs (js @ [j]))"

definition cells_of :: "'a list option \<Rightarrow> 'a list" where
  "cells_of d = (case d of None \<Rightarrow> [] | Some xs \<Rightarrow> xs)"

definition usage_fields :: "'j json_lib \<Rightarrow> running_module \<Rightarrow> 'j list \<Rightarrow> 'j list \<Rightarrow> (string \<times> 'j option) list" where
  "usage_fields J m ins outs =
     [(''CPU-u'', pack_low J (last_period_percent_cpu_usage_user_mode m)),
      (''CPU-s'', pack_low J (last_period_percent_cpu_usage_kernel_mode m)),
      (''MEM-vms'', pack_I J (virtual_memory_size m)), (''MEM-rss'', pack_I J (resident_set_size m * 1024)),
      (''inputs'', Some (json_array J ins)), (''outputs'', Some (json_array J outs))]"

definition module_info :: "'j json_lib \<Rightarrow> bool \<Rightarrow> nat \<Rightarrow> running_module \<Rightarrow> 'j list \<Rightarrow> 'j list \<Rightarrow> 'j option" where
  "module_info J print_details x m ins outs =
     json_pack J
       ((if print_details
         then [(''idx'', pack_i J (int x)), (''params'', pack_s J (Some (case module_params m of None \<Rightarrow> ''none'' | Some p \<Rightarrow> p))),
               (''path'', pack_s J (module_path m)), (''status'', pack_s J (Some (if module_status m then ''running'' else ''stopped'')))]
         else []) @ usage_fields J m ins outs)"

text \<open>The object of one module, a member with the name of the module.\<close>

definition json_module :: "'j json_lib \<Rightarrow> bool \<Rightarrow> nat \<Rightarrow> running_module \<Rightarrow> 'j option c_ret" where
  "json_module J print_details x m =
     (case json_cells (json_in_ifc J) (unat (total_in_ifces_cnt m)) (cells_of (in_ifces_data m)) [] of
        Undefined \<Rightarrow> Undefined
      | Ret None \<Rightarrow> Ret None
      | Ret (Some ins) \<Rightarrow>
          (case json_cells (json_out_ifc J) (unat (total_out_ifces_cnt m)) (cells_of (out_ifces_data m)) [] of
             Undefined \<Rightarrow> Undefined
           | Ret None \<Rightarrow> Ret None
           | Ret (Some outs) \<Rightarrow>
               (case module_info J print_details x m ins outs of
                  None \<Rightarrow> Ret None
                | Some info \<Rightarrow>
                    Ret (case module_name m of None \<Rightarrow> None | Some nm \<Rightarrow> json_object J [(nm, info)]))))"

definition shown :: "bool \<Rightarrow> running_module \<Rightarrow> bool" where
  "shown print_details m \<longleftrightarrow> print_details \<or> module_status m"

text \<open>The loop over the loaded modules; \<open>obj\<close> is \<open>modules_obj\<close>, \<open>Ret None\<close> is the jump to \<open>clean_up\<close>.\<close>

fun json_modules :: "'j json_lib \<Rightarrow> bool \<Rightarrow> nat \<Rightarrow> running_module list \<Rightarrow> 'j option \<Rightarrow> 'j option option c_ret" where
  "json_modules J det x [] obj = Ret (Some obj)"
| "json_modules J det x (m # ms) obj =
     (if \<not> shown det m then json_modules J det (Suc x) ms obj
      else (case json_module J det x m of
              Undefined \<Rightarrow> Undefined
            | Ret None \<Rightarrow> Ret None
            | Ret (Some j) \<Rightarrow>
                (case obj of
                   None \<Rightarrow> json_modules J det (Suc x) ms (Some j)
                 | Some ob \<Rightarrow>
                     (case json_merge J ob j of
                        None \<Rightarrow> Ret None
                      | Some ob' \<Rightarrow> json_modules J det (Suc x) ms (Some ob')))))"

text \<open>\<open>json_dumps\<close> of \<open>NULL\<close> is \<open>NULL\<close>.\<close>

definition make_json_modules_info :: "'j json_lib \<Rightarrow> u8 \<Rightarrow> sup \<Rightarrow> string option c_ret" where
  "make_json_modules_info J info_mask s =
     (case json_modules J (and info_mask 1 = 1) 0 (loaded s) None of
        Undefined \<Rightarrow> Undefined
      | Ret None \<Rightarrow> Ret None
      | Ret (Some None) \<Rightarrow> Ret None
      | Ret (Some (Some ob)) \<Rightarrow> Ret (json_dumps J ob))"

subsection \<open>What is sent\<close>

text \<open>
  What is relied on of jansson: texts of ASCII characters are accepted, an object can be made of any fields with acceptable
  names, and updating an object with a member of a new name appends the member.
\<close>

definition ascii_text :: "string \<Rightarrow> bool" where
  "ascii_text t \<longleftrightarrow> (\<forall>c \<in> set t. (of_char c :: nat) < 128)"

definition json_ok :: "'j json_lib \<Rightarrow> bool" where
  "json_ok J \<longleftrightarrow> (\<forall>t. ascii_text t \<longrightarrow> json_string J t \<noteq> None) \<and>
     (\<forall>fs. (\<forall>k \<in> fst ` set fs. json_string J k \<noteq> None) \<longleftrightarrow> json_object J fs \<noteq> None) \<and>
     (\<forall>fs k v a b. json_object J fs = Some a \<longrightarrow> json_object J [(k, v)] = Some b \<longrightarrow> k \<notin> fst ` set fs
        \<longrightarrow> json_merge J a b = json_object J (fs @ [(k, v)]))"

text \<open>The texts in the object of a module; it can be shown when all of them are there and acceptable.\<close>

definition in_texts :: "in_ifc_stats \<Rightarrow> string option list" where
  "in_texts i = [Some (ifc_type_text (in_ifc_type i)), in_ifc_id i]"

definition out_texts :: "out_ifc_stats \<Rightarrow> string option list" where
  "out_texts i = [Some (ifc_type_text (out_ifc_type i)), out_ifc_id i]"

definition module_texts :: "bool \<Rightarrow> running_module \<Rightarrow> string option list" where
  "module_texts det m = concat (map in_texts (cells_of (in_ifces_data m))) @ concat (map out_texts (cells_of (out_ifces_data m))) @
     (if det then [Some (case module_params m of None \<Rightarrow> ''none'' | Some p \<Rightarrow> p), module_path m] else []) @ [module_name m]"

definition text_fits :: "'j json_lib \<Rightarrow> string option \<Rightarrow> bool" where
  "text_fits J t \<longleftrightarrow> pack_s J t \<noteq> None"

definition presentable :: "'j json_lib \<Rightarrow> bool \<Rightarrow> running_module \<Rightarrow> bool" where
  "presentable J det m \<longleftrightarrow> list_all (text_fits J) (module_texts det m)"

definition json_entry :: "'j json_lib \<Rightarrow> bool \<Rightarrow> nat \<times> running_module \<Rightarrow> string \<times> 'j" where
  "json_entry J det xm =
     (the (module_name (snd xm)),
      the (module_info J det (fst xm) (snd xm) (map (\<lambda>i. the (json_in_ifc J i)) (cells_of (in_ifces_data (snd xm))))
             (map (\<lambda>i. the (json_out_ifc J i)) (cells_of (out_ifces_data (snd xm))))))"

lemma all_some_eq: "all_some xs = (if None \<in> set xs then None else Some (map the xs))"
  by (induction xs rule: all_some.induct) auto

lemma json_object_iff: "json_ok J \<Longrightarrow> json_object J fs \<noteq> None \<longleftrightarrow> (\<forall>f \<in> set fs. json_string J (fst f) \<noteq> None)"
  unfolding json_ok_def by (metis (no_types, lifting) image_iff)

lemma json_pack_ok:
  assumes "json_ok J" "list_all (\<lambda>f. ascii_text (fst f)) fds"
  shows "json_pack J fds \<noteq> None \<longleftrightarrow> list_all (\<lambda>f. snd f \<noteq> None) fds"
proof -
  have z: "zip (map fst fds) (map (\<lambda>f. the (snd f)) fds) = map (\<lambda>f. (fst f, the (snd f))) fds" by (induction fds) simp_all
  have "\<forall>k \<in> fst ` set (map (\<lambda>f. (fst f, the (snd f))) fds). json_string J k \<noteq> None"
    using assms by (simp add: json_ok_def list_all_iff)
  then have "json_object J (map (\<lambda>f. (fst f, the (snd f))) fds) \<noteq> None" using assms(1) unfolding json_ok_def by blast
  moreover have "None \<in> set (map snd fds) \<longleftrightarrow> \<not> list_all (\<lambda>f. snd f \<noteq> None) fds" by (induction fds) auto
  ultimately show ?thesis by (simp add: json_pack_def all_some_eq comp_def z)
qed

lemma pack_total [simp]: "pack_i J z = Some (json_integer J z)" "pack_I J w = Some (json_integer J (sint w))"
  "pack_low J w = Some (json_integer J (sint (ucast w :: 32 word)))"
  by (simp_all add: pack_i_def pack_I_def pack_low_def)

lemma json_in_iff:
  assumes "json_ok J"
  shows "json_in_ifc J i \<noteq> None \<longleftrightarrow> list_all (text_fits J) (in_texts i)"
proof -
  have "list_all (\<lambda>f. ascii_text (fst f))
     [(''type'', pack_s J (Some (ifc_type_text (in_ifc_type i)))), (''ID'', pack_s J (in_ifc_id i)),
      (''is-conn'', pack_i J (uint (in_ifc_state i))), (''messages'', pack_I J (recv_msg_cnt i)), (''buffers'', pack_I J (recv_buffer_cnt i))]"
    by (simp add: ascii_text_def)
  from json_pack_ok[OF assms this] show ?thesis by (simp add: json_in_ifc_def in_texts_def text_fits_def)
qed

lemma json_out_iff:
  assumes "json_ok J"
  shows "json_out_ifc J i \<noteq> None \<longleftrightarrow> list_all (text_fits J) (out_texts i)"
proof -
  have "list_all (\<lambda>f. ascii_text (fst f))
     [(''type'', pack_s J (Some (ifc_type_text (out_ifc_type i)))), (''ID'', pack_s J (out_ifc_id i)),
      (''cli-num'', pack_i J (sint (num_clients i))), (''sent-msg'', pack_I J (sent_msg_cnt i)),
      (''drop-msg'', pack_I J (dropped_msg_cnt i)), (''buffers'', pack_I J (sent_buffer_cnt i)),
      (''autoflush'', pack_I J (autoflush_cnt i))]"
    by (simp add: ascii_text_def)
  from json_pack_ok[OF assms this] show ?thesis by (simp add: json_out_ifc_def out_texts_def text_fits_def)
qed

lemma module_info_iff:
  assumes "json_ok J"
  shows "module_info J det x m ins outs \<noteq> None \<longleftrightarrow>
    (det \<longrightarrow> text_fits J (Some (case module_params m of None \<Rightarrow> ''none'' | Some p \<Rightarrow> p)) \<and> text_fits J (module_path m))"
proof -
  have st: "text_fits J (Some (if module_status m then ''running'' else ''stopped''))"
    using assms by (simp add: text_fits_def pack_s_def json_ok_def ascii_text_def)
  have u: "list_all (\<lambda>f. ascii_text (fst f)) (usage_fields J m ins outs)" "list_all (\<lambda>f. snd f \<noteq> None) (usage_fields J m ins outs)"
    by (simp_all add: usage_fields_def ascii_text_def)
  have "list_all (\<lambda>f. ascii_text (fst f)) ((if det
         then [(''idx'', pack_i J (int x)), (''params'', pack_s J (Some (case module_params m of None \<Rightarrow> ''none'' | Some p \<Rightarrow> p))),
               (''path'', pack_s J (module_path m)), (''status'', pack_s J (Some (if module_status m then ''running'' else ''stopped'')))]
         else []) @ usage_fields J m ins outs)"
    using u(1) by (simp add: ascii_text_def)
  from json_pack_ok[OF assms this] show ?thesis using st u(2) unfolding module_info_def by (cases det) (auto simp: text_fits_def)
qed

lemma json_cells_all:
  "length cells = n \<Longrightarrow> json_cells f n cells js = Ret (if \<forall>c \<in> set cells. f c \<noteq> None then Some (js @ map (\<lambda>c. the (f c)) cells) else None)"
  by (induction f n cells js rule: json_cells.induct) (auto split: option.split)

lemma cells_ok: "stats_ok m \<Longrightarrow> length (cells_of (in_ifces_data m)) = unat (total_in_ifces_cnt m) \<and>
    length (cells_of (out_ifces_data m)) = unat (total_out_ifces_cnt m)"
  by (auto simp: stats_ok_def stat_cells_def cells_of_def split: option.splits)

lemma json_module_eq:
  assumes "json_ok J" "stats_ok m"
  shows "json_module J det x m = Ret (if presentable J det m then json_object J [json_entry J det (x, m)] else None)"
proof -
  let ?ins = "cells_of (in_ifces_data m)" and ?outs = "cells_of (out_ifces_data m)"
  define P where "P \<longleftrightarrow> (\<forall>i \<in> set ?ins. json_in_ifc J i \<noteq> None) \<and> (\<forall>i \<in> set ?outs. json_out_ifc J i \<noteq> None)"
  have p: "presentable J det m \<longleftrightarrow> P \<and> module_info J det x m ins outs \<noteq> None \<and> text_fits J (module_name m)" for ins outs
    unfolding P_def json_in_iff[OF assms(1)] json_out_iff[OF assms(1)] module_info_iff[OF assms(1)]
    by (auto simp: presentable_def module_texts_def list_all_iff)
  have "json_cells (json_in_ifc J) (unat (total_in_ifces_cnt m)) ?ins [] =
      Ret (if \<forall>i \<in> set ?ins. json_in_ifc J i \<noteq> None then Some (map (\<lambda>i. the (json_in_ifc J i)) ?ins) else None)"
    "json_cells (json_out_ifc J) (unat (total_out_ifces_cnt m)) ?outs [] =
      Ret (if \<forall>i \<in> set ?outs. json_out_ifc J i \<noteq> None then Some (map (\<lambda>i. the (json_out_ifc J i)) ?outs) else None)"
    using json_cells_all[OF cells_ok[OF assms(2), THEN conjunct1], of "json_in_ifc J" "[]"]
      json_cells_all[OF cells_ok[OF assms(2), THEN conjunct2], of "json_out_ifc J" "[]"] by simp_all
  then have "json_module J det x m =
      Ret (if P \<and> module_info J det x m (map (\<lambda>i. the (json_in_ifc J i)) ?ins) (map (\<lambda>i. the (json_out_ifc J i)) ?outs) \<noteq> None
           then (case module_name m of None \<Rightarrow> None | Some nm \<Rightarrow> json_object J [json_entry J det (x, m)]) else None)"
    by (auto simp: json_module_def P_def json_entry_def split: option.split)
  moreover have "json_object J [json_entry J det (x, m)] = None" if "\<not> text_fits J (module_name m)" "module_name m = Some nm" for nm
    using that json_object_iff[OF assms(1), of "[json_entry J det (x, m)]"] by (simp add: text_fits_def pack_s_def json_entry_def)
  ultimately show ?thesis
    using p[of "map (\<lambda>i. the (json_in_ifc J i)) ?ins" "map (\<lambda>i. the (json_out_ifc J i)) ?outs"]
    by (auto simp: text_fits_def pack_s_def split: option.splits)
qed

lemma presentable_entry:
  assumes "json_ok J" "presentable J det m"
  shows "json_object J [json_entry J det (x, m)] \<noteq> None" "module_name m = Some (fst (json_entry J det (x, m)))"
proof -
  have "text_fits J (module_name m)" using assms(2) by (simp add: presentable_def module_texts_def)
  then show nm: "module_name m = Some (fst (json_entry J det (x, m)))"
    by (auto simp: text_fits_def pack_s_def json_entry_def split: option.splits)
  show "json_object J [json_entry J det (x, m)] \<noteq> None"
    using \<open>text_fits J (module_name m)\<close> json_object_iff[OF assms(1), of "[json_entry J det (x, m)]"] unfolding nm
    by (simp add: text_fits_def pack_s_def)
qed

text \<open>The loop: \<open>sofar\<close> are the modules already in the object.\<close>

definition entries_object :: "'j json_lib \<Rightarrow> bool \<Rightarrow> (nat \<times> running_module) list \<Rightarrow> 'j option" where
  "entries_object J det xms = (if xms = [] then None else json_object J (map (json_entry J det) xms))"

lemma entries_object_snoc:
  assumes "json_ok J" "list_all (\<lambda>xm. presentable J det (snd xm)) sofar" "presentable J det m"
    "distinct (map (\<lambda>xm. module_name (snd xm)) (sofar @ [(x, m)]))"
  shows "\<exists>ob. entries_object J det (sofar @ [(x, m)]) = Some ob \<and>
    (if sofar = [] then json_object J [json_entry J det (x, m)] = Some ob
     else \<exists>a b. entries_object J det sofar = Some a \<and> json_object J [json_entry J det (x, m)] = Some b \<and> json_merge J a b = Some ob)"
proof -
  have names: "json_string J (fst (json_entry J det xm)) \<noteq> None" if "presentable J det (snd xm)" for xm
    using presentable_entry(1)[OF assms(1) that, of "fst xm"] json_object_iff[OF assms(1)] by simp
  then have ok: "json_object J (map (json_entry J det) xs) \<noteq> None" if "list_all (\<lambda>xm. presentable J det (snd xm)) xs" for xs
    using that json_object_iff[OF assms(1)] by (simp add: list_all_iff)
  have nk: "fst (json_entry J det (x, m)) \<notin> fst ` set (map (json_entry J det) sofar)"
  proof
    assume "fst (json_entry J det (x, m)) \<in> fst ` set (map (json_entry J det) sofar)"
    then obtain xm where xm: "xm \<in> set sofar" "fst (json_entry J det (x, m)) = fst (json_entry J det xm)" by auto
    have "module_name (snd xm) = module_name m"
      using presentable_entry(2)[OF assms(1,3), of x] presentable_entry(2)[OF assms(1), of det "snd xm" "fst xm"] xm assms(2)
      by (simp add: list_all_iff)
    then have "module_name m \<in> (\<lambda>xm. module_name (snd xm)) ` set sofar" using xm(1) by force
    with assms(4) show False by auto
  qed
  obtain ob where ob: "json_object J (map (json_entry J det) sofar @ [json_entry J det (x, m)]) = Some ob"
    using ok[of "sofar @ [(x, m)]"] assms(2,3) by auto
  obtain b where b: "json_object J [json_entry J det (x, m)] = Some b" using presentable_entry(1)[OF assms(1,3), of x] by auto
  show ?thesis
  proof (cases "sofar = []")
    case True
    with ob b show ?thesis by (simp add: entries_object_def)
  next
    case False
    obtain a where a: "json_object J (map (json_entry J det) sofar) = Some a" using ok[OF assms(2)] by auto
    have "json_merge J a b = Some ob"
      using assms(1) a b nk ob unfolding json_ok_def by (metis prod.collapse)
    with False ob a b show ?thesis by (simp add: entries_object_def)
  qed
qed

lemma json_modules_eq:
  "json_ok J \<Longrightarrow> list_all stats_ok ms \<Longrightarrow> list_all (\<lambda>xm. presentable J det (snd xm)) sofar \<Longrightarrow>
     distinct (map (\<lambda>xm. module_name (snd xm)) sofar @ map module_name ms) \<Longrightarrow>
     json_modules J det x ms (entries_object J det sofar) =
       Ret (let xms = filter (\<lambda>xm. shown det (snd xm)) (enumerate x ms)
            in if list_all (\<lambda>xm. presentable J det (snd xm)) xms then Some (entries_object J det (sofar @ xms)) else None)"
proof (induction ms arbitrary: x sofar)
  case (Cons m ms)
  show ?case
  proof (cases "shown det m")
    case False
    then show ?thesis using Cons.IH[of sofar "Suc x"] Cons.prems by auto
  next
    case True
    have j: "json_module J det x m = Ret (if presentable J det m then json_object J [json_entry J det (x, m)] else None)"
      using Cons.prems(1,2) by (intro json_module_eq) simp_all
    show ?thesis
    proof (cases "presentable J det m")
      case False
      with True j show ?thesis by simp
    next
      case pr: True
      have d: "distinct (map (\<lambda>xm. module_name (snd xm)) (sofar @ [(x, m)]))" using Cons.prems(4) by auto
      from entries_object_snoc[OF Cons.prems(1,3) pr d] obtain ob where ob: "entries_object J det (sofar @ [(x, m)]) = Some ob"
        and step: "if sofar = [] then json_object J [json_entry J det (x, m)] = Some ob
          else \<exists>a b. entries_object J det sofar = Some a \<and> json_object J [json_entry J det (x, m)] = Some b \<and> json_merge J a b = Some ob"
        by blast
      have "json_modules J det x (m # ms) (entries_object J det sofar) = json_modules J det (Suc x) ms (entries_object J det (sofar @ [(x, m)]))"
        using True pr j ob step by (cases "sofar = []") (auto simp: entries_object_def)
      then show ?thesis using Cons.IH[of "sofar @ [(x, m)]" "Suc x"] Cons.prems True pr by simp
    qed
  qed
qed (simp)

text \<open>
  C29. What is sent: the text of one object with a member for every loaded module (for the statistics, every running one), in the order of the array
  and under the name of the module. Nothing is sent when there is no such module, or when one of them lacks a text: a single
  interface without an identifier, such as one a module has announced but not described, suppresses the answer about all modules.
\<close>

theorem make_json_modules_info_text:
  assumes "json_ok J" "wf_sup s" "list_all stats_ok (loaded s)"
  shows "make_json_modules_info J info_mask s =
    Ret (let det = (and info_mask 1 = 1);
             xms = filter (\<lambda>xm. shown det (snd xm)) (enumerate 0 (loaded s))
         in if xms \<noteq> [] \<and> list_all (\<lambda>xm. presentable J det (snd xm)) xms
            then json_dumps J (the (json_object J (map (json_entry J det) xms))) else None)"
proof -
  define det where "det \<longleftrightarrow> (and info_mask 1 = 1)"
  define xms where "xms = filter (\<lambda>xm. shown det (snd xm)) (enumerate 0 (loaded s))"
  have "distinct (map module_name (loaded s))" using assms(2) by (simp add: wf_sup_def)
  then have m: "json_modules J det 0 (loaded s) None =
      Ret (if list_all (\<lambda>xm. presentable J det (snd xm)) xms then Some (entries_object J det xms) else None)"
    using json_modules_eq[OF assms(1,3), of det "[]" 0] by (simp add: entries_object_def xms_def Let_def)
  have "entries_object J det xms \<noteq> None" if "xms \<noteq> []" "list_all (\<lambda>xm. presentable J det (snd xm)) xms"
  proof -
    have "json_string J (fst (json_entry J det xm)) \<noteq> None" if "xm \<in> set xms" for xm
      using presentable_entry(1)[OF assms(1), of det "snd xm" "fst xm"] \<open>list_all _ xms\<close> that json_object_iff[OF assms(1)]
      by (simp add: list_all_iff)
    then show ?thesis using that(1) json_object_iff[OF assms(1)] by (simp add: entries_object_def)
  qed
  then show ?thesis
    unfolding make_json_modules_info_def det_def[symmetric] m xms_def[symmetric] Let_def
    by (auto simp: entries_object_def split: option.split)
qed

text \<open>An example of the library, which writes the names of the members.\<close>

datatype json_value = J_String string | J_Integer int | J_Array "json_value list" | J_Object "(string \<times> json_value) list"

definition sample_json :: "json_value json_lib" where
  "sample_json = \<lparr>json_string = (\<lambda>t. Some (J_String t)), json_integer = J_Integer, json_array = J_Array,
     json_object = (\<lambda>fs. Some (J_Object fs)),
     json_merge = (\<lambda>a b. case (a, b) of (J_Object fs, J_Object gs) \<Rightarrow> Some (J_Object (fs @ gs)) | _ \<Rightarrow> None),
     json_dumps = (\<lambda>j. case j of J_Object fs \<Rightarrow> Some (concat (map fst fs)) | _ \<Rightarrow> None)\<rparr>"

definition with_paths :: sup where
  "with_paths = two_removed\<lparr>running_modules := map (\<lambda>m. m\<lparr>module_path := Some ''/bin''\<rparr>) (running_modules two_removed)\<rparr>"

lemma sample_json_ok: "json_ok sample_json"
  by (simp add: json_ok_def sample_json_def)

lemma with_paths_ok: "wf_sup with_paths" "list_all stats_ok (loaded with_paths)"
  by (simp_all add: with_paths_def wf_sup_def two_removed_def fresh_module_def zero_module_def wf_ifces_def wf_profile_def loaded_def
      size_ok_def IFCES_ARRAY_START_SIZE_def stats_ok_def stat_cells_def)

theorem make_json_modules_info_text_witness:
  "make_json_modules_info sample_json 1 with_paths = Ret (Some ''ab'')"
proof -
  have "loaded with_paths = [fresh_module\<lparr>module_name := Some ''a'', remove_module := True, module_path := Some ''/bin''\<rparr>,
      fresh_module\<lparr>module_name := Some ''b'', remove_module := True, module_path := Some ''/bin''\<rparr>]"
    by (simp add: with_paths_def two_removed_def loaded_def)
  then show ?thesis
    using make_json_modules_info_text[OF sample_json_ok with_paths_ok, of 1]
    by (simp add: shown_def presentable_def module_texts_def fresh_module_def zero_module_def cells_of_def text_fits_def pack_s_def
        sample_json_def json_entry_def Let_def)
qed

end
