(* ===== verification/Reload_Codes.thy ===== *)
theory Reload_Codes
  imports Reload_Doc
begin

section \<open>The codes of the interfaces\<close>

text \<open>
  An interface keeps its direction and type both as texts and as the numeric codes that \<open>prep_module_args\<close> uses; the codes are computed
  by \<open>reload_count_module_interfaces\<close>, which the reload calls only when interfaces were inserted. Proved: after a reload of any
  document, accepted or not, every code agrees with its text.
\<close>

definition ifc_codes_ok :: "interface_t \<Rightarrow> bool" where
  "ifc_codes_ok ifc \<longleftrightarrow> int_ifc_direction ifc = direction_code (ifc_direction ifc) \<and> int_ifc_type ifc = type_code (ifc_type ifc)"

definition codes_ok :: "running_module \<Rightarrow> bool" where
  "codes_ok m \<longleftrightarrow> list_all ifc_codes_ok (take (config_ifces_cnt m) (config_ifces m))"

lemma codes_ok_same: "config_ifces m' = config_ifces m \<Longrightarrow> config_ifces_cnt m' = config_ifces_cnt m \<Longrightarrow> codes_ok m' = codes_ok m"
  by (simp add: codes_ok_def)

lemma codes_ok_none [simp]: "config_ifces_cnt m = 0 \<Longrightarrow> codes_ok m"
  by (simp add: codes_ok_def)

lemma codes_ok_counted: "codes_ok (reload_count_module_interfaces m)"
  by (auto simp: codes_ok_def reload_count_module_interfaces_def ifc_codes_ok_def list_all_iff min_def split: if_splits)

subsection \<open>Nothing changes unless the flag is set\<close>

lemma ifc_loop_insert_stays: "snd (fst (ifc_loop lib ch True ns c m))"
  by (induction ns arbitrary: c m) (simp_all add: Let_def)

lemma ifc_loop_agrees:
  "wf_ifces m \<Longrightarrow> c + length (filter (\<lambda>n. xname n = ''interface'') ns) = config_ifces_cnt m \<Longrightarrow>
     ifc_loop lib ch False ns c m = ((m', False), c') \<Longrightarrow> m' = m \<and> c' = config_ifces_cnt m"
proof (induction ns arbitrary: c)
  case (Cons n ns)
  show ?case
  proof (cases "xname n = ''interface''")
    case True
    then have "c < config_ifces_cnt m" using Cons.prems(2) by simp
    then have "reload_check_module_allocated_interfaces c m = m"
      using Cons.prems(1) by (auto simp: reload_check_module_allocated_interfaces_def wf_ifces_def)
    moreover have "ifc_agrees lib (xchildren n) (config_ifces m ! c)"
    proof (rule ccontr)
      assume "\<not> ?thesis"
      with True calculation Cons.prems(3) ifc_loop_insert_stays[of lib ch "tl ch" 0] show False
        by (simp add: Let_def) (metis fst_conv snd_conv)
    qed
    ultimately show ?thesis using Cons.IH[of "Suc c"] Cons.prems True by (simp add: Let_def)
  qed (use Cons in simp)
qed auto

lemma trapinterfaces_flag:
  assumes "wf_ifces m" "new \<longrightarrow> ins" "reload_trapinterfaces lib new children m ins = (m', ins')"
  shows "(ins \<longrightarrow> ins') \<and> (\<not> ins' \<longrightarrow> m' = m)"
proof -
  define r where "r = (if \<not> new then reload_check_modules_interfaces_count children m ins else (m, ins))"
  obtain m2 ins2 c where l: "ifc_loop lib children (snd r) children 0 (fst r) = ((m2, ins2), c)" by (metis prod.exhaust)
  then have res: "m' = m2\<lparr>config_ifces_cnt := c\<rparr>" "ins' = ins2"
    using assms(3) by (simp_all add: reload_trapinterfaces_def r_def[symmetric] case_prod_unfold Let_def)
  have stays: "snd r \<Longrightarrow> ins2" using ifc_loop_insert_stays[of lib children children 0 "fst r"] l by simp
  have r: "ins \<longrightarrow> snd r" "\<not> snd r \<Longrightarrow> r = (m, False) \<and> config_ifces_cnt m = length (filter (\<lambda>n. xname n = ''interface'') children)"
    using assms(2) by (auto simp: r_def reload_check_modules_interfaces_count_def Let_def split: if_splits)
  have "m' = m" if "\<not> ins'"
  proof -
    have "\<not> snd r" using that stays res(2) by blast
    from r(2)[OF this] l that res(2) ifc_loop_agrees[OF assms(1), of 0 children lib children m2 c] have "m2 = m" "c = config_ifces_cnt m" by auto
    then show ?thesis using res(1) by simp
  qed
  then show ?thesis using stays r(1) res(2) by blast
qed

definition same_ifces :: "running_module \<Rightarrow> running_module \<Rightarrow> bool" where
  "same_ifces m m' \<longleftrightarrow> config_ifces m' = config_ifces m \<and> config_ifces_cnt m' = config_ifces_cnt m"

lemma enabled_ifces: "same_ifces m (reload_resolve_module_enabled new key m)"
  by (auto simp: reload_resolve_module_enabled_def same_ifces_def Let_def split: option.split)

lemma child_flag:
  assumes "wf_ifces m" "new \<longrightarrow> ins" "process_module_child lib new n (m, ins) = (m', ins')"
  shows "(ins \<longrightarrow> ins') \<and> (\<not> ins' \<longrightarrow> same_ifces m m')"
proof (cases "xname n = ''trapinterfaces''")
  case True
  then have "reload_trapinterfaces lib new (xchildren n) m ins = (m', ins')" using assms(3) by (simp add: process_module_child_def)
  from trapinterfaces_flag[OF assms(1,2) this] show ?thesis by (auto simp: same_ifces_def)
next
  case False
  then show ?thesis
    using assms(3) enabled_ifces[of m new "node_value lib n"]
    by (auto simp: process_module_child_def same_ifces_def case_prod_unfold Let_def split: if_splits option.splits)
qed

lemma children_flag:
  "wf_ifces m \<Longrightarrow> new \<longrightarrow> ins \<Longrightarrow> process_module_children lib new ns (m, ins) = (m', ins') \<Longrightarrow>
     (ins \<longrightarrow> ins') \<and> (\<not> ins' \<longrightarrow> same_ifces m m')"
proof (induction ns arbitrary: m ins)
  case (Cons n ns)
  obtain m1 ins1 where c: "process_module_child lib new n (m, ins) = (m1, ins1)" by fastforce
  note f = child_flag[OF Cons.prems(1,2) c]
  have "wf_ifces m1" using child_wf[of "(m, ins)" lib new n] Cons.prems(1) c by simp
  moreover have "process_module_children lib new ns (m1, ins1) = (m', ins')" using Cons.prems(3) c by (simp add: process_module_children_def)
  ultimately have "(ins1 \<longrightarrow> ins') \<and> (\<not> ins' \<longrightarrow> same_ifces m1 m')" using Cons.IH f Cons.prems(2) by blast
  then show ?case using f by (auto simp: same_ifces_def)
qed (simp add: process_module_children_def same_ifces_def)

subsection \<open>The loops\<close>

definition all_codes_ok :: "sup \<Rightarrow> bool" where
  "all_codes_ok s \<longleftrightarrow> (\<forall>m \<in> set (running_modules s). codes_ok m)"

lemma all_codes_set: "all_codes_ok s \<Longrightarrow> codes_ok m \<Longrightarrow> all_codes_ok (set_module x m s)"
  by (auto simp: all_codes_ok_def set_module_def dest!: set_update_subset_insert[THEN subsetD])

lemma all_codes_check: "all_codes_ok s \<Longrightarrow> all_codes_ok (check_running_modules_allocated_memory s)"
  by (auto simp: all_codes_ok_def check_running_modules_allocated_memory_def Let_def fresh_module_def zero_module_def split: if_splits)

context reload_step
begin

lemma codes_apply:
  assumes "sup_inv P s" "loaded_modules_cnt s < running_modules_array_size s" "found_ok lib s s2 v elem idx key" "all_codes_ok s"
  shows "all_codes_ok (apply_module lib choice pr elem idx v s2)"
proof -
  have s2: "sup_inv P s2" by (rule sup_inv_found[OF assms(1,3)])
  have "codes_ok (forget_ifces m)" for m by (simp add: forget_ifces_def)
  then have c2: "all_codes_ok s2" using assms(3,4) all_codes_set by (auto simp: found_ok_def)
  let ?m = "running_modules s2 ! idx"
  have x: "idx < running_modules_array_size s2" using found_slot(1)[OF assms(1-3)] found_same(3)[OF assms(3)] by simp
  then have m: "wf_ifces ?m" "codes_ok ?m" using sup_inv_slot(1)[OF s2] c2 s2 by (auto simp: all_codes_ok_def sup_inv_def wf_sup_def)
  define m0 where "m0 = restore_pid lib choice elem (?m\<lparr>module_checked_by_reload := True\<rparr>)"
  have m0: "wf_ifces m0" "codes_ok m0"
    using m by (auto simp: m0_def restore_pid_def wf_ifces_def codes_ok_def split: option.split)
  obtain m1 ins where r: "process_module_children lib (new_module v) (xchildren elem) (m0, module_ifc_insert v) = (m1, ins)" by fastforce
  have "new_module v \<longrightarrow> module_ifc_insert v" using assms(3) by (auto simp: found_ok_def)
  from children_flag[OF m0(1) this r] have "codes_ok (if ins then reload_count_module_interfaces m1 else m1)"
    using m0(2) codes_ok_counted[of m1] codes_ok_same[of m1 m0] by (cases ins) (simp_all add: same_ifces_def)
  then have "codes_ok (case pr of None \<Rightarrow> (if ins then reload_count_module_interfaces m1 else m1)
      | Some p \<Rightarrow> (if ins then reload_count_module_interfaces m1 else m1)\<lparr>module_profile := Some p\<rparr>)"
    by (auto simp: codes_ok_def split: option.split)
  from all_codes_set[OF c2 this, of idx] have w: "all_codes_ok (set_module idx (case pr of None \<Rightarrow> (if ins then reload_count_module_interfaces m1 else m1)
      | Some p \<Rightarrow> (if ins then reload_count_module_interfaces m1 else m1)\<lparr>module_profile := Some p\<rparr>) s2)" .
  have "all_codes_ok t \<Longrightarrow> all_codes_ok (if b then t\<lparr>loaded_modules_cnt := k\<rparr> else t)" for t b k by (simp add: all_codes_ok_def)
  from this[OF w] show ?thesis unfolding apply_module_def m0_def[symmetric] r Let_def prod.case .
qed

lemma codes_modules_loop:
  "sup_inv P s \<Longrightarrow> all_codes_ok s \<Longrightarrow> profile_in pr (length (profiles s)) \<Longrightarrow> modules_loop lib choice pr es v s = (s', v') \<Longrightarrow>
     all_codes_ok s'"
proof (induction lib choice\<equiv>choice pr es v s rule: modules_loop.induct)
  case (2 lib pr e es v s)
  show ?case
  proof (cases "xname e = ''module''")
    case True
    define s1 where "s1 = check_running_modules_allocated_memory s"
    have s1: "sup_inv P s1" "loaded_modules_cnt s1 < running_modules_array_size s1" "profiles s1 = profiles s" "all_codes_ok s1"
      using sup_inv_check[OF "2.prems"(1)] all_codes_check[OF "2.prems"(2)]
      by (simp_all add: s1_def check_running_modules_allocated_memory_def Let_def)
    show ?thesis
    proof (cases "reload_find_and_check_module_basic_elements lib s1 (e # es) (basic_start (new_module v) (module_ifc_insert v))")
      case None
      with True "2.prems"(4) s1 show ?thesis by (simp add: s1_def[symmetric] Let_def)
    next
      case (Some r)
      obtain s2 v2 elems where r: "r = ((s2, v2), elems)" by (metis prod.exhaust)
      from find_basic_found[OF Some[unfolded r]] obtain elem rest idx key
        where f: "elems = elem # rest" "found_ok lib s1 s2 v2 elem idx key" by blast
      then have fi: "found_idx v2 = Some idx" by (simp add: found_ok_def)
      have eq: "modules_loop lib choice pr rest v2 (apply_module lib choice pr elem idx v2 s2) = (s', v')"
        using "2.prems"(4) True Some r f(1) fi by (simp add: s1_def[symmetric] Let_def)
      have a: "sup_inv P (apply_module lib choice pr elem idx v2 s2)" "profiles (apply_module lib choice pr elem idx v2 s2) = profiles s"
        using sup_inv_apply[OF s1(1,2) f(2)] "2.prems"(3) s1(3) by auto
      have "profile_in pr (length (profiles (apply_module lib choice pr elem idx v2 s2)))" using a(2) "2.prems"(3) by simp
      from "2.hyps"(2)[OF _ s1_def Some r[symmetric] refl f(1) fi a(1) codes_apply[OF s1(1,2) f(2) s1(4)] this eq] True show ?thesis by simp
    qed
  qed (use 2 in simp)
qed simp

lemma codes_root_loop: "sup_inv P s \<Longrightarrow> all_codes_ok s \<Longrightarrow> all_codes_ok (root_loop lib choice ns v s)"
proof (induction ns arbitrary: v s)
  case (Cons n ns)
  obtain s' v' where a: "apply_modules_element lib choice n v s = (s', v')" by fastforce
  have add: "all_codes_ok (s\<lparr>profiles := profiles s @ [p], loaded_profile_cnt := loaded_profile_cnt s + 1\<rparr>)" for p
    using Cons.prems(2) by (simp add: all_codes_ok_def)
  have "all_codes_ok s'"
  proof (cases "reload_find_and_check_modules_profile_basic_elements lib (xchildren n)")
    case None
    with a codes_modules_loop[OF Cons.prems, of None lib "xchildren n" v s' v'] show ?thesis
      by (simp add: apply_modules_element_def profile_in_def)
  next
    case (Some p)
    with a codes_modules_loop[OF sup_inv_add_profile[OF Cons.prems(1)] add, of "Some (length (profiles s))" p lib "xchildren n" v s' v'] show ?thesis
      by (simp add: apply_modules_element_def profile_in_def)
  qed
  moreover have "sup_inv P s'" if "xname n = ''modules''" using sup_inv_root_loop[OF Cons.prems(1), of lib "[n]" v] a that by simp
  moreover have "sup_inv P (s\<lparr>module_restarts_num_config := k\<rparr>)" "all_codes_ok (s\<lparr>module_restarts_num_config := k\<rparr>)" for k
    using Cons.prems by (simp_all add: sup_inv_def wf_sup_def loaded_def all_codes_ok_def)
  ultimately show ?case using Cons a by simp
qed simp

end

lemma codes_finish:
  assumes "all_codes_ok s"
  shows "all_codes_ok (finish_reload choice n s)"
proof -
  have k: "codes_ok (mark_missing m) = codes_ok m" "codes_ok (mark_modified m) = codes_ok m" "codes_ok (init_restored choice m) = codes_ok m" for m
    by (simp_all add: codes_ok_def mark_missing_def mark_modified_def init_restored_def init_module_variables_def Let_def)
  have f: "\<forall>m \<in> set (map_first l f xs). codes_ok m" if "\<forall>m \<in> set xs. codes_ok m" "\<And>m. codes_ok (f m) = codes_ok m" for l f and xs
    using that by (auto simp: map_first_def dest: in_set_takeD in_set_dropD)
  have "\<forall>m \<in> set (running_modules s). codes_ok m" using assms by (simp add: all_codes_ok_def)
  from f[OF f[OF f[OF this k(1)] k(2)] k(3)] show ?thesis by (simp add: all_codes_ok_def finish_reload_def Let_def)
qed

lemma reload_codes:
  assumes "wf_sup s" "all_codes_ok s"
  shows "all_codes_ok (fst (reload_document lib choice doc s))"
proof -
  have "all_codes_ok (reset_for_reload s)"
    using assms(2) by (auto simp: all_codes_ok_def reset_for_reload_def reset_module_def codes_ok_def)
  then show ?thesis
    using not_removed.codes_root_loop[OF reset_not_removed[OF assms(1)]] codes_finish assms(2)
    by (simp add: reload_document_def apply_configuration_def)
qed

lemma codes_ranges:
  "direction_code d \<in> {IN_MODULE_IFC_DIRECTION, OUT_MODULE_IFC_DIRECTION, SERVICE_MODULE_IFC_DIRECTION, INVALID_MODULE_IFC_ATTR}"
  "type_code t \<in> {TCP_MODULE_IFC_TYPE, UNIXSOCKET_MODULE_IFC_TYPE, FILE_MODULE_IFC_TYPE, SERVICE_MODULE_IFC_TYPE,
     BLACKHOLE_MODULE_IFC_TYPE, TLS_MODULE_IFC_TYPE, INVALID_MODULE_IFC_ATTR}"
  by (auto simp: direction_code_def type_code_def split: option.split)



end
