(* ===== verification/Reload_Values.thy ===== *)
theory Reload_Values
  imports Reload_Codes
begin

section \<open>What a reload makes of the values in a document\<close>

text \<open>
  The contents of the modules after \<open>reload_configuration\<close>. \<open>carries\<close> says that a module has the values an element
  gives. Proved: after the reload of an accepted document every module it names carries the values of its element, whatever
  it was before. It is an instance of a contract, \<open>element_effect\<close>, of applying an element to a slot, which the loops over the
  document extend to all elements; \<open>Reload_Again\<close> has a second instance.
\<close>

subsection \<open>Values of one interface and one module\<close>

definition ifc_elems :: "xml_node list \<Rightarrow> xml_node list" where
  "ifc_elems ns = filter (\<lambda>n. xname n = ''interface'') ns"

definition carries_ifces :: "libxml \<Rightarrow> xml_node list \<Rightarrow> running_module \<Rightarrow> bool" where
  "carries_ifces lib children m \<longleftrightarrow> config_ifces_cnt m = length (ifc_elems children) \<and>
     (\<forall>i < length (ifc_elems children). ifc_agrees lib (xchildren (ifc_elems children ! i)) (config_ifces m ! i))"

text \<open>The flag an \<open>enabled\<close> element asks for.\<close>

definition flag_value :: "libxml \<Rightarrow> xml_node \<Rightarrow> bool" where
  "flag_value lib n \<longleftrightarrow> (case node_value lib n of None \<Rightarrow> False | Some k \<Rightarrow> strncmp_eq ''true'' k)"

text \<open>What one child of a module element says of the module, the enabled flag apart.\<close>

definition child_carried :: "libxml \<Rightarrow> xml_node \<Rightarrow> running_module \<Rightarrow> bool" where
  "child_carried lib n m \<longleftrightarrow>
     (if xname n = ''path'' then module_path m = node_value lib n
      else if xname n = ''params'' then module_params m = node_value lib n
      else if xname n = ''trapinterfaces'' then carries_ifces lib (xchildren n) m
      else True)"

definition carries :: "libxml \<Rightarrow> xml_node list \<Rightarrow> running_module \<Rightarrow> bool" where
  "carries lib ns m \<longleftrightarrow> list_all (\<lambda>n. child_carried lib n m) ns \<and>
     (\<not> list_ex (\<lambda>n. xname n = ''trapinterfaces'') ns \<longrightarrow> config_ifces_cnt m = 0)"

definition flag_carried :: "libxml \<Rightarrow> xml_node list \<Rightarrow> bool \<Rightarrow> bool" where
  "flag_carried lib ns b \<longleftrightarrow> (\<forall>n \<in> set ns. xname n = ''enabled'' \<longrightarrow> b = flag_value lib n)"

text \<open>No name occurs twice among the elements that are looked at.\<close>

definition once :: "string list \<Rightarrow> xml_node list \<Rightarrow> bool" where
  "once nms ns \<longleftrightarrow> distinct (filter (\<lambda>nm. nm \<in> set nms) (map xname ns))"

definition ifc_names :: "string list" where
  "ifc_names = [''note'', ''type'', ''direction'', ''params'']"

definition module_names :: "string list" where
  "module_names = [''path'', ''params'', ''trapinterfaces'', ''enabled'']"

text \<open>
  What the values rely on in an element: nothing occurs twice, and the first child of \<open>trapinterfaces\<close> is not an interface (as in an
  indented file), which the comparison of interfaces skips after a difference.
\<close>

definition ifces_once :: "xml_node list \<Rightarrow> bool" where
  "ifces_once children \<longleftrightarrow> list_all (\<lambda>n. once ifc_names (xchildren n)) (ifc_elems children)"

definition indented_ifces :: "xml_node list \<Rightarrow> bool" where
  "indented_ifces children \<longleftrightarrow> ifc_elems (tl children) = ifc_elems children"

definition good_values :: "xml_node list \<Rightarrow> bool" where
  "good_values ns \<longleftrightarrow> once module_names ns \<and>
     list_all (\<lambda>n. xname n = ''trapinterfaces'' \<longrightarrow> ifces_once (xchildren n) \<and> indented_ifces (xchildren n)) ns"

lemma once_Cons: "once nms (n # ns) \<longleftrightarrow> once nms ns \<and> (xname n \<in> set nms \<longrightarrow> xname n \<notin> xname ` set ns)"
  by (auto simp: once_def)

lemma once_Nil [simp]: "once nms []"
  by (simp add: once_def)

subsection \<open>Interfaces\<close>

definition field_agrees :: "libxml \<Rightarrow> xml_node \<Rightarrow> interface_t \<Rightarrow> bool" where
  "field_agrees lib n ifc \<longleftrightarrow> ifc_agrees lib [n] ifc"

lemma ifc_agrees_all: "ifc_agrees lib ns ifc \<longleftrightarrow> list_all (\<lambda>n. field_agrees lib n ifc) ns"
  by (induction ns) (auto simp: field_agrees_def)

lemma atr_agrees_eq: "ifc_atr_agrees key old \<longleftrightarrow> key = old"
  by (auto simp: ifc_atr_agrees_def split: option.split)

lemma insert_other:
  "xname n \<in> set ifc_names \<longrightarrow> xname n \<notin> xname ` set ns \<Longrightarrow> field_agrees lib n ifc \<Longrightarrow> field_agrees lib n (ifc_insert lib ns ifc)"
  by (induction ns arbitrary: ifc) (auto simp: field_agrees_def ifc_names_def)

text \<open>An interface filled from an element agrees with it.\<close>

lemma insert_agrees: "once ifc_names ns \<Longrightarrow> ifc_agrees lib ns (ifc_insert lib ns ifc)"
proof (induction ns arbitrary: ifc)
  case (Cons n ns)
  let ?ifc = "if xname n = ''note'' then ifc\<lparr>ifc_note := node_value lib n\<rparr>
        else if xname n = ''type'' then ifc\<lparr>ifc_type := node_value lib n\<rparr>
        else if xname n = ''direction'' then ifc\<lparr>ifc_direction := node_value lib n\<rparr>
        else if xname n = ''params'' then ifc\<lparr>ifc_params := node_value lib n\<rparr>
        else ifc"
  have step: "ifc_insert lib (n # ns) ifc = ifc_insert lib ns ?ifc" by simp
  have "field_agrees lib n ?ifc" by (simp add: field_agrees_def atr_agrees_eq)
  then have "field_agrees lib n (ifc_insert lib ns ?ifc)" using Cons.prems by (intro insert_other) (auto simp: once_Cons)
  moreover have "ifc_agrees lib ns (ifc_insert lib ns ?ifc)" using Cons by (simp add: once_Cons)
  ultimately show ?case unfolding step by (simp add: ifc_agrees_all)
qed simp

lemma insert_codes: "int_ifc_direction (ifc_insert lib ns ifc) = int_ifc_direction ifc"
  by (induction ns arbitrary: ifc) simp_all

text \<open>Inserting writes one interface for each element, in their order, from index \<open>c\<close> on.\<close>

lemma loop_inserts:
  "ifces_arr_ok m \<Longrightarrow> c \<le> config_ifces_arr_size m \<Longrightarrow> ifces_once ns \<Longrightarrow> ifc_loop lib ch True ns c m = ((m', ins'), c') \<Longrightarrow>
     c' = c + length (ifc_elems ns) \<and> take c (config_ifces m') = take c (config_ifces m) \<and>
     (\<forall>i < length (ifc_elems ns). ifc_agrees lib (xchildren (ifc_elems ns ! i)) (config_ifces m' ! (c + i)))"
proof (induction ns arbitrary: c m)
  case (Cons n ns)
  show ?case
  proof (cases "xname n = ''interface''")
    case True
    define m1 where "m1 = reload_check_module_allocated_interfaces c m"
    note sh = ensure_ifces_shape[OF Cons.prems(1,2), folded m1_def]
    have keep: "take c (config_ifces m1) = take c (config_ifces m)"
      using ifces_arr.ensure_keeps[of "(c, m)"] Cons.prems(1,2) by (simp add: m1_def)
    let ?ifc = "ifc_insert lib (xchildren n) (config_ifces m1 ! c)"
    let ?m2 = "m1\<lparr>config_ifces := (config_ifces m1)[c := ?ifc]\<rparr>"
    have len: "c < length (config_ifces m1)" using sh by (simp add: ifces_arr_ok_def)
    have "ifc_loop lib ch True ns (Suc c) ?m2 = ((m', ins'), c')"
      using Cons.prems(4) True by (simp add: m1_def[symmetric] Let_def)
    moreover have "ifces_arr_ok ?m2" "Suc c \<le> config_ifces_arr_size ?m2" "ifces_once ns"
      using sh Cons.prems(3) True by (auto simp: ifces_arr_ok_def ifces_once_def ifc_elems_def)
    ultimately have IH: "c' = Suc c + length (ifc_elems ns)" "take (Suc c) (config_ifces m') = take (Suc c) (config_ifces ?m2)"
      "\<forall>i < length (ifc_elems ns). ifc_agrees lib (xchildren (ifc_elems ns ! i)) (config_ifces m' ! (Suc c + i))"
      using Cons.IH by blast+
    have "take c (config_ifces m') = take c (take (Suc c) (config_ifces m'))" by (simp add: min_def)
    then have t: "take c (config_ifces m') = take c (config_ifces m)" using keep IH(2) by (simp add: min_def)
    have "config_ifces m' ! c = take (Suc c) (config_ifces m') ! c" by simp
    then have "config_ifces m' ! c = ?ifc" using len IH(2) by simp
    then have n: "ifc_agrees lib (xchildren n) (config_ifces m' ! c)"
      using insert_agrees Cons.prems(3) True by (simp add: ifces_once_def ifc_elems_def)
    have el: "ifc_elems (n # ns) = n # ifc_elems ns" using True by (simp add: ifc_elems_def)
    have "ifc_agrees lib (xchildren (ifc_elems (n # ns) ! i)) (config_ifces m' ! (c + i))" if "i < length (ifc_elems (n # ns))" for i
      using that n IH(3) unfolding el by (cases i) simp_all
    then show ?thesis using IH(1) t by (simp add: el)
  qed (use Cons in \<open>simp add: ifc_elems_def ifces_once_def\<close>)
qed (simp add: ifc_elems_def)

text \<open>Comparing either finds no difference and changes nothing, or starts again behind the first child.\<close>

lemma loop_compares:
  "wf_ifces m \<Longrightarrow> c + length (ifc_elems ns) = config_ifces_cnt m \<Longrightarrow>
     ifc_loop lib ch False ns c m =
       (if \<forall>i < length (ifc_elems ns). ifc_agrees lib (xchildren (ifc_elems ns ! i)) (config_ifces m ! (c + i))
        then ((m, False), config_ifces_cnt m)
        else ifc_loop lib ch True (tl ch) 0 ((free_module_interfaces_on_index m)\<lparr>module_modified_by_reload := True\<rparr>))"
proof (induction ns arbitrary: c)
  case (Cons n ns)
  show ?case
  proof (cases "xname n = ''interface''")
    case True
    then have el: "ifc_elems (n # ns) = n # ifc_elems ns" by (simp add: ifc_elems_def)
    have "c < config_ifces_cnt m" using Cons.prems(2) by (simp add: el)
    then have "reload_check_module_allocated_interfaces c m = m"
      using Cons.prems(1) by (auto simp: reload_check_module_allocated_interfaces_def wf_ifces_def)
    moreover have "(\<forall>i < length (ifc_elems (n # ns)). ifc_agrees lib (xchildren (ifc_elems (n # ns) ! i)) (config_ifces m ! (c + i))) \<longleftrightarrow>
        ifc_agrees lib (xchildren n) (config_ifces m ! c) \<and>
        (\<forall>i < length (ifc_elems ns). ifc_agrees lib (xchildren (ifc_elems ns ! i)) (config_ifces m ! (Suc c + i)))"
      unfolding el by (auto simp: less_Suc_eq_0_disj)
    ultimately show ?thesis using Cons.IH[of "Suc c"] Cons.prems True by (auto simp: Let_def el)
  qed (use Cons in \<open>simp add: ifc_elems_def\<close>)
qed (simp add: ifc_elems_def)

lemma same_count: "length (filter (\<lambda>n. xname n = ''interface'') children) = length (ifc_elems children)"
  by (simp add: ifc_elems_def)

text \<open>Both ways through \<open>trapinterfaces\<close> end with the interfaces of the document.\<close>

lemma trapinterfaces_carries:
  assumes "wf_ifces m" "ifces_once children" "indented_ifces children" "new \<longrightarrow> ins"
  shows "carries_ifces lib children (fst (reload_trapinterfaces lib new children m ins))"
proof -
  define r where "r = (if \<not> new then reload_check_modules_interfaces_count children m ins else (m, ins))"
  obtain m1 ins1 where m1: "r = (m1, ins1)" by fastforce
  have w1: "wf_ifces m1"
    using ifces_count_shape(2)[OF assms(1), of children ins] assms(1) m1 by (auto simp: r_def split: if_splits)
  obtain m2 ins2 c where l: "ifc_loop lib children ins1 children 0 m1 = ((m2, ins2), c)" by (metis prod.exhaust)
  have res: "fst (reload_trapinterfaces lib new children m ins) = m2\<lparr>config_ifces_cnt := c\<rparr>"
    using l m1 by (simp add: reload_trapinterfaces_def r_def[symmetric])
  have inserted: "c = length (ifc_elems ns) \<and>
      (\<forall>i < length (ifc_elems ns). ifc_agrees lib (xchildren (ifc_elems ns ! i)) (config_ifces m2 ! i))"
    if "ifc_loop lib children True ns 0 k = ((m2, ins2), c)" "ifces_arr_ok k" "ifces_once ns" for ns k
    using loop_inserts[OF that(2) _ that(3,1)] by simp
  have "c = length (ifc_elems children) \<and>
      (\<forall>i < length (ifc_elems children). ifc_agrees lib (xchildren (ifc_elems children ! i)) (config_ifces m2 ! i))"
  proof (cases ins1)
    case True
    then show ?thesis using inserted[of children m1] l w1 assms(2) by (simp add: wf_ifces_arr)
  next
    case False
    then have "\<not> new" using m1 assms(4) by (auto simp: r_def)
    then have cmp: "0 + length (ifc_elems children) = config_ifces_cnt m1"
      using False m1 by (auto simp: r_def reload_check_modules_interfaces_count_def same_count Let_def split: if_splits)
    let ?k = "(free_module_interfaces_on_index m1)\<lparr>module_modified_by_reload := True\<rparr>"
    have k: "ifces_arr_ok ?k" using w1 free_ifces_shape(2)[of m1] by (simp add: wf_ifces_arr ifces_arr_ok_def)
    have el: "ifc_elems (tl children) = ifc_elems children" using assms(3) by (simp add: indented_ifces_def)
    then have "ifces_once (tl children)" using assms(2) by (simp add: ifces_once_def)
    then show ?thesis
      using loop_compares[OF w1 cmp, of lib children] l False inserted[of "tl children" ?k] k el cmp by (auto split: if_splits)
  qed
  then show ?thesis by (simp add: carries_ifces_def res)
qed

text \<open>A list of interfaces that agrees is left alone.\<close>

lemma trapinterfaces_agree:
  assumes "wf_ifces m" "carries_ifces lib children m"
  shows "reload_trapinterfaces lib False children m False = (m, False)"
proof -
  have "0 + length (ifc_elems children) = config_ifces_cnt m" using assms(2) by (simp add: carries_ifces_def)
  from loop_compares[OF assms(1) this, of lib children] assms(2) have "ifc_loop lib children False children 0 m = ((m, False), config_ifces_cnt m)"
    by (simp add: carries_ifces_def)
  then show ?thesis
    using assms(2) by (simp add: reload_trapinterfaces_def reload_check_modules_interfaces_count_def same_count carries_ifces_def)
qed

subsection \<open>The children of a module element\<close>

text \<open>A child sets what it says, and leaves alone what elements of other names say.\<close>

lemma resolve_fields:
  "module_path (reload_resolve_module_enabled new key m) = module_path m"
  "module_params (reload_resolve_module_enabled new key m) = module_params m"
  "config_ifces_cnt (reload_resolve_module_enabled new key m) = config_ifces_cnt m"
  "config_ifces (reload_resolve_module_enabled new key m) = config_ifces m"
  "module_enabled (reload_resolve_module_enabled new key m) = (case key of None \<Rightarrow> False | Some k \<Rightarrow> strncmp_eq ''true'' k)"
  by (auto simp: reload_resolve_module_enabled_def Let_def split: option.split)

lemma atribute_value: "fst (reload_process_module_atribute new key old) = key"
  by (auto simp: reload_process_module_atribute_def split: option.split)

lemma without_ifces_values:
  assumes "without_ifces m' = without_ifces m"
  shows "module_path m' = module_path m" "module_params m' = module_params m" "module_enabled m' = module_enabled m"
  using assms unfolding without_ifces_def by (cases m; cases m'; simp)+

lemma trapinterfaces_values:
  assumes "wf_ifces m"
  shows "module_path (fst (reload_trapinterfaces lib new ch m ins)) = module_path m"
    "module_params (fst (reload_trapinterfaces lib new ch m ins)) = module_params m"
    "module_enabled (fst (reload_trapinterfaces lib new ch m ins)) = module_enabled m"
  using without_ifces_values trapinterfaces_shape[OF assms] by blast+

lemma child_sets:
  assumes "wf_ifces m" "new \<longrightarrow> ins" "xname n = ''trapinterfaces'' \<Longrightarrow> ifces_once (xchildren n) \<and> indented_ifces (xchildren n)"
  shows "child_carried lib n (fst (process_module_child lib new n (m, ins)))"
    "xname n = ''enabled'' \<Longrightarrow> module_enabled (fst (process_module_child lib new n (m, ins))) = flag_value lib n"
  using trapinterfaces_carries[OF assms(1) _ _ assms(2)] assms(3)
  by (auto simp: child_carried_def process_module_child_def case_prod_unfold Let_def atribute_value resolve_fields flag_value_def)

lemma child_frame:
  assumes "wf_ifces m"
  shows "xname n \<noteq> xname n' \<Longrightarrow> child_carried lib n' m \<Longrightarrow> child_carried lib n' (fst (process_module_child lib new n (m, ins)))"
    "xname n \<noteq> ''enabled'' \<Longrightarrow> module_enabled (fst (process_module_child lib new n (m, ins))) = module_enabled m"
    "xname n \<noteq> ''trapinterfaces'' \<Longrightarrow> config_ifces_cnt (fst (process_module_child lib new n (m, ins))) = config_ifces_cnt m"
  using trapinterfaces_values[OF assms]
  by (auto simp: child_carried_def carries_ifces_def module_names_def process_module_child_def case_prod_unfold Let_def resolve_fields
      split: option.split if_splits)

lemma without_ifces_init: "without_ifces m' = without_ifces m \<Longrightarrow> init_module m' = init_module m"
  by (cases m; cases m') (simp add: without_ifces_def)

lemma child_init: "wf_ifces (fst mi) \<Longrightarrow> init_module (fst (process_module_child lib new n mi)) = init_module (fst mi)"
proof -
  assume w: "wf_ifces (fst mi)"
  have "init_module (fst (reload_trapinterfaces lib nw ch (fst mi) ins)) = init_module (fst mi)" for nw ch ins
    using trapinterfaces_shape[OF w] by (intro without_ifces_init) blast
  moreover have "init_module (reload_resolve_module_enabled new key m) = init_module m" for key m
    by (simp add: reload_resolve_module_enabled_def Let_def split: option.split)
  ultimately show ?thesis by (simp add: process_module_child_def case_prod_unfold Let_def split: option.split)
qed

lemma children_init: "wf_ifces (fst mi) \<Longrightarrow> init_module (fst (process_module_children lib new ns mi)) = init_module (fst mi)"
  unfolding process_module_children_def
proof (induction ns arbitrary: mi)
  case (Cons n ns)
  then show ?case using child_init[of mi lib new n] child_wf[of mi lib new n] by simp
qed simp

lemma child_ins: "wf_ifces m \<Longrightarrow> new \<longrightarrow> ins \<Longrightarrow> new \<longrightarrow> snd (process_module_child lib new n (m, ins))"
  using child_flag[of m new ins lib n] by (metis prod.collapse)

lemma children_carry:
  "wf_ifces m \<Longrightarrow> new \<longrightarrow> ins \<Longrightarrow> good_values ns \<Longrightarrow>
     list_all (\<lambda>n. child_carried lib n (fst (process_module_children lib new ns (m, ins)))) ns \<and>
     (\<forall>n'. xname n' \<notin> xname ` set ns \<longrightarrow> child_carried lib n' m \<longrightarrow>
        child_carried lib n' (fst (process_module_children lib new ns (m, ins)))) \<and>
     flag_carried lib ns (module_enabled (fst (process_module_children lib new ns (m, ins)))) \<and>
     (''enabled'' \<notin> xname ` set ns \<longrightarrow> module_enabled (fst (process_module_children lib new ns (m, ins))) = module_enabled m) \<and>
     (''trapinterfaces'' \<notin> xname ` set ns \<longrightarrow>
        config_ifces_cnt (fst (process_module_children lib new ns (m, ins))) = config_ifces_cnt m)"
proof (induction ns arbitrary: m ins)
  case (Cons n ns)
  obtain m1 ins1 where c: "process_module_child lib new n (m, ins) = (m1, ins1)" by fastforce
  have step: "process_module_children lib new (n # ns) (m, ins) = process_module_children lib new ns (m1, ins1)"
    using c by (simp add: process_module_children_def)
  have g: "good_values ns" "xname n \<in> set module_names \<longrightarrow> xname n \<notin> xname ` set ns"
    "xname n = ''trapinterfaces'' \<Longrightarrow> ifces_once (xchildren n) \<and> indented_ifces (xchildren n)"
    using Cons.prems(3) by (auto simp: good_values_def once_Cons)
  have w1: "wf_ifces m1" using child_wf[of "(m, ins)" lib new n] Cons.prems(1) c by simp
  have i1: "new \<longrightarrow> ins1" using child_ins[OF Cons.prems(1,2), of lib n] by (metis c snd_conv)
  note IH = Cons.IH[OF w1 i1 g(1)]
  note sets = child_sets[OF Cons.prems(1,2) g(3), of lib, unfolded c fst_conv]
    and frame = child_frame(1)[OF Cons.prems(1), of n _ lib new ins, unfolded c fst_conv]
      child_frame(2,3)[OF Cons.prems(1), of n lib new ins, unfolded c fst_conv]
  let ?M = "fst (process_module_children lib new ns (m1, ins1))"
  have "child_carried lib n ?M"
  proof (cases "xname n \<in> set module_names")
    case True
    then show ?thesis using IH sets(1) g(2) by blast
  qed (simp add: child_carried_def module_names_def)
  moreover have "child_carried lib n' ?M" if "xname n' \<notin> xname ` set (n # ns)" "child_carried lib n' m" for n'
  proof -
    have "child_carried lib n' m1" using frame(1)[of n'] that by auto
    then show ?thesis using IH that(1) by simp
  qed
  moreover have "flag_carried lib (n # ns) (module_enabled ?M)"
  proof (cases "xname n = ''enabled''")
    case True
    then have "''enabled'' \<notin> xname ` set ns" using g(2) by (simp add: module_names_def)
    then show ?thesis using IH sets(2) True by (auto simp: flag_carried_def)
  qed (use IH in \<open>auto simp: flag_carried_def\<close>)
  moreover have "module_enabled ?M = module_enabled m" if "''enabled'' \<notin> xname ` set (n # ns)"
    using that IH frame(2) by auto
  moreover have "config_ifces_cnt ?M = config_ifces_cnt m" if "''trapinterfaces'' \<notin> xname ` set (n # ns)"
    using that IH frame(3) by auto
  ultimately show ?case using IH unfolding step by simp
qed (simp add: process_module_children_def flag_carried_def)

subsection \<open>A module that already carries the values\<close>

definition enable_as :: "bool \<Rightarrow> running_module \<Rightarrow> running_module" where
  "enable_as b m = (if b \<and> \<not> module_enabled m then m\<lparr>module_restart_cnt := -1\<rparr> else m)\<lparr>module_enabled := b\<rparr>"

lemma resolve_enable_as: "reload_resolve_module_enabled False (node_value lib n) m = enable_as (flag_value lib n) m"
  by (auto simp: reload_resolve_module_enabled_def enable_as_def flag_value_def Let_def split: option.split)

text \<open>What is left of a module without the fields every reload sets.\<close>

definition core :: "running_module \<Rightarrow> running_module" where
  "core m = m\<lparr>module_checked_by_reload := True, module_profile := None, module_max_restarts_per_minute := 0,
     module_served_by_service_thread := False\<rparr>"

lemma core_updates [simp]:
  "core (m\<lparr>module_checked_by_reload := b\<rparr>) = core m" "core (m\<lparr>module_profile := p\<rparr>) = core m"
  "core (m\<lparr>module_max_restarts_per_minute := k\<rparr>) = core m" "core (m\<lparr>module_served_by_service_thread := b\<rparr>) = core m"
  by (simp_all add: core_def)

lemma enable_as_core: "core m' = core m \<Longrightarrow> core (enable_as b m') = core (enable_as b m)"
  by (cases m; cases m') (auto simp: core_def enable_as_def)

lemma enable_as_again: "enable_as b (enable_as b m) = enable_as b m"
  by (simp add: enable_as_def)

definition enable_from :: "xml_node list \<Rightarrow> bool \<Rightarrow> running_module \<Rightarrow> running_module" where
  "enable_from ns b m = (if list_ex (\<lambda>n. xname n = ''enabled'') ns then enable_as b m else m)"

lemma carried_core: "core m' = core m \<Longrightarrow> child_carried lib n m' = child_carried lib n m \<and> wf_ifces m' = wf_ifces m"
  by (cases m; cases m') (auto simp: core_def child_carried_def carries_ifces_def wf_ifces_def)

lemma enable_as_carried: "child_carried lib n (enable_as b m) = child_carried lib n m \<and> wf_ifces (enable_as b m) = wf_ifces m"
  by (simp add: child_carried_def carries_ifces_def wf_ifces_def enable_as_def)

lemma same_values: "module_path m = t \<Longrightarrow> m\<lparr>module_path := t\<rparr> = m" "module_params m = t \<Longrightarrow> m\<lparr>module_params := t\<rparr> = m"
  by auto

lemma child_settled:
  assumes "wf_ifces m" "child_carried lib n m"
  shows "\<exists>m'. process_module_child lib False n (m, False) = (m', False) \<and>
    core m' = core (if xname n = ''enabled'' then enable_as (flag_value lib n) m else m)"
  using assms trapinterfaces_agree[OF assms(1), of lib "xchildren n"]
  by (auto simp: process_module_child_def child_carried_def resolve_enable_as reload_process_module_atribute_def Let_def
      same_values split: option.split)

lemma children_settled:
  "wf_ifces m \<Longrightarrow> list_all (\<lambda>n. child_carried lib n m) ns \<Longrightarrow> flag_carried lib ns b \<Longrightarrow>
     \<exists>m'. process_module_children lib False ns (m, False) = (m', False) \<and> core m' = core (enable_from ns b m)"
proof (induction ns arbitrary: m)
  case (Cons n ns)
  obtain m1 where c: "process_module_child lib False n (m, False) = (m1, False)"
    and m1: "core m1 = core (if xname n = ''enabled'' then enable_as (flag_value lib n) m else m)"
    using child_settled Cons.prems(1,2) by (metis list.pred_inject(2))
  have b: "xname n = ''enabled'' \<Longrightarrow> flag_value lib n = b" "flag_carried lib ns b" using Cons.prems(3) by (auto simp: flag_carried_def)
  have k: "child_carried lib n' m1 = child_carried lib n' m \<and> wf_ifces m1 = wf_ifces m" for n'
    using carried_core[OF m1, of lib n'] enable_as_carried[of lib n' _ m] by (simp split: if_splits)
  obtain m' where r: "process_module_children lib False ns (m1, False) = (m', False)" "core m' = core (enable_from ns b m1)"
    using Cons.IH[of m1] Cons.prems(1,2) k b(2) by (auto simp: list_all_iff)
  have "core (enable_from ns b m1) = core (enable_from (n # ns) b m)"
    using m1 b(1) enable_as_core[OF m1, of b] enable_as_again[of b m] by (auto simp: enable_from_def)
  then show ?case using r c by (simp add: process_module_children_def)
qed (simp add: process_module_children_def enable_from_def)

subsection \<open>Applying an element to its slot\<close>

definition write_module :: "libxml \<Rightarrow> reload_choice \<Rightarrow> nat option \<Rightarrow> xml_node \<Rightarrow> bool \<Rightarrow> bool \<Rightarrow> running_module \<Rightarrow> running_module" where
  "write_module lib choice profile elem new ins m =
     (let m0 = restore_pid lib choice elem (m\<lparr>module_checked_by_reload := True\<rparr>);
          (m1, ins1) = process_module_children lib new (xchildren elem) (m0, ins);
          m2 = (if ins1 then reload_count_module_interfaces m1 else m1)
      in case profile of None \<Rightarrow> m2 | Some p \<Rightarrow> m2\<lparr>module_profile := Some p\<rparr>)"

definition forgotten :: "xml_node \<Rightarrow> running_module \<Rightarrow> bool" where
  "forgotten e m \<longleftrightarrow> \<not> list_ex (\<lambda>n. xname n = ''trapinterfaces'') (xchildren e) \<and> config_ifces_cnt m > 0"

text \<open>The module written for an element, when a loaded module has its name and when none has.\<close>

definition place :: "libxml \<Rightarrow> reload_choice \<Rightarrow> nat option \<Rightarrow> xml_node \<Rightarrow> bool \<Rightarrow> running_module \<Rightarrow> running_module" where
  "place lib choice profile e found m =
     (if \<not> found then write_module lib choice profile e True True m
      else if forgotten e m then write_module lib choice profile e False True (forget_ifces m)
      else write_module lib choice profile e False False m)"

definition place_elem :: "libxml \<Rightarrow> reload_choice \<Rightarrow> nat option \<Rightarrow> xml_node \<Rightarrow> sup \<Rightarrow> sup" where
  "place_elem lib choice profile e s =
     (case find_loaded_module s (elem_name lib e) of
        None \<Rightarrow> (set_module (loaded_modules_cnt s) (place lib choice profile e False (running_modules s ! loaded_modules_cnt s)) s)
                 \<lparr>loaded_modules_cnt := loaded_modules_cnt s + 1\<rparr>
      | Some x \<Rightarrow> set_module x (place lib choice profile e True (running_modules s ! x)) s)"

lemma apply_module_writes_place:
  "apply_module lib choice profile e idx v s =
     (let s1 = set_module idx (write_module lib choice profile e (new_module v) (module_ifc_insert v) (running_modules s ! idx)) s
      in if idx = loaded_modules_cnt s then s1\<lparr>loaded_modules_cnt := loaded_modules_cnt s + 1\<rparr> else s1)"
  by (simp add: apply_module_def write_module_def case_prod_unfold Let_def)

definition found_flags :: "sup \<Rightarrow> string \<Rightarrow> basic_vars \<Rightarrow> bool" where
  "found_flags s key v \<longleftrightarrow>
     (case find_loaded_module s key of
        None \<Rightarrow> found_idx v = Some (loaded_modules_cnt s) \<and> new_module v \<and> module_ifc_insert v
      | Some x \<Rightarrow> found_idx v = Some x \<and> \<not> new_module v \<and> \<not> module_ifc_insert v)"

lemma basic_child_flags:
  assumes "usable lib (seen @ n # ns) key" "counted lib seen v" "not_yet_seen s key" "name_elems v = 1 \<longrightarrow> found_flags s key v"
    and "basic_child lib s n is_last v = (v', False)"
  shows "name_elems v' = 1 \<longrightarrow> found_flags s key v'"
  using assms
  by (cases "xname n = ''name''")
    (auto simp: usable_def counted_def basic_child_def found_flags_def append_eq_Cons_conv Let_def split: option.splits if_splits)

lemma basic_loop_flags:
  "usable lib (seen @ ns) key \<Longrightarrow> counted lib seen v \<Longrightarrow> not_yet_seen s key \<Longrightarrow> name_elems v = 1 \<longrightarrow> found_flags s key v \<Longrightarrow>
     \<exists>v'. basic_loop lib s elems ns v = Some (v', elems) \<and> counted lib (seen @ ns) v' \<and> found_flags s key v'"
proof (induction ns arbitrary: seen v)
  case Nil
  then have "name_elems v = 1" by (auto simp: usable_def counted_def)
  with Nil show ?case by simp
next
  case (Cons n ns)
  from basic_child_counts[OF Cons.prems(1-3)] obtain v' where
    v': "basic_child lib s n (ns = []) v = (v', False)" "counted lib (seen @ [n]) v'" by blast
  with Cons.IH[of "seen @ [n]" v'] Cons.prems basic_child_flags[OF Cons.prems v'(1)] show ?case by simp
qed

lemma trapifc_none: "named_values lib ''trapinterfaces'' ns = [] \<longleftrightarrow> \<not> list_ex (\<lambda>n. xname n = ''trapinterfaces'') ns"
  by (auto simp: named_values_def filter_empty_conv list_ex_iff)

text \<open>One usable element in the loop over the modules.\<close>

lemma modules_loop_place:
  assumes "xname e = ''module''" "usable lib (xchildren e) (elem_name lib e)"
    and "not_yet_seen (check_running_modules_allocated_memory s) (elem_name lib e)" "wf_sup (check_running_modules_allocated_memory s)"
  shows "\<exists>v'. modules_loop lib choice pr (e # es) v s =
    modules_loop lib choice pr es v' (place_elem lib choice pr e (check_running_modules_allocated_memory s))"
proof -
  define s1 where "s1 = check_running_modules_allocated_memory s"
  let ?key = "elem_name lib e" and ?v0 = "basic_start (new_module v) (module_ifc_insert v)"
  obtain v2 where l: "basic_loop lib s1 (e # es) (xchildren e) ?v0 = Some (v2, e # es)" "counted lib (xchildren e) v2" "found_flags s1 ?key v2"
    using basic_loop_flags[of lib "[]" "xchildren e" ?key ?v0 s1 "e # es"] assms(2,3)
    by (auto simp: counted_def basic_start_def s1_def)
  have c: "name_elems v2 = 1" "path_elems v2 = 1" "\<not> 1 < trapifc_elems v2"
    "trapifc_elems v2 = 0 \<longleftrightarrow> \<not> list_ex (\<lambda>n. xname n = ''trapinterfaces'') (xchildren e)"
    using l(2) assms(2) by (auto simp: usable_def counted_def trapifc_none)
  note find = l(1) c reload_find_and_check_module_basic_elements_def
  have loop: "modules_loop lib choice pr (e # es) v s = modules_loop lib choice pr es v3 (apply_module lib choice pr e idx v3 s2)"
    if "reload_find_and_check_module_basic_elements lib s1 (e # es) ?v0 = Some ((s2, v3), e # es)" "found_idx v3 = Some idx" for s2 v3 idx
    using assms(1) that by (simp add: s1_def[symmetric] Let_def)
  show ?thesis
  proof (cases "find_loaded_module s1 ?key")
    case None
    then have f: "found_idx v2 = Some (loaded_modules_cnt s1)" "new_module v2" "module_ifc_insert v2" using l(3) by (simp_all add: found_flags_def)
    then have "reload_find_and_check_module_basic_elements lib s1 (e # es) ?v0 = Some ((s1, v2), e # es)" by (simp add: find)
    from loop[OF this f(1)] f None show ?thesis
      by (auto simp: place_elem_def place_def apply_module_writes_place Let_def s1_def[symmetric])
  next
    case (Some x)
    then have f: "found_idx v2 = Some x" "\<not> new_module v2" "\<not> module_ifc_insert v2" using l(3) by (simp_all add: found_flags_def)
    have x: "x < loaded_modules_cnt s1" "x < length (running_modules s1)"
      using find_loaded_module_Some(1)[OF Some] assms(4) length_loaded[of s1] by (simp_all add: s1_def[symmetric] wf_sup_def)
    show ?thesis
    proof (cases "forgotten e (running_modules s1 ! x)")
      case True
      then have "reload_find_and_check_module_basic_elements lib s1 (e # es) ?v0 =
          Some ((set_module x (forget_ifces (running_modules s1 ! x)) s1, v2\<lparr>module_ifc_insert := True\<rparr>), e # es)"
        using f by (simp add: find forgotten_def)
      from loop[OF this, of x] f Some x True
      have "modules_loop lib choice pr (e # es) v s = modules_loop lib choice pr es (v2\<lparr>module_ifc_insert := True\<rparr>) (place_elem lib choice pr e s1)"
        by (simp add: place_elem_def place_def apply_module_writes_place set_module_def del: modules_loop.simps)
      then show ?thesis unfolding s1_def by blast
    next
      case False
      then have "reload_find_and_check_module_basic_elements lib s1 (e # es) ?v0 = Some ((s1, v2), e # es)"
        using f by (auto simp: find forgotten_def)
      from loop[OF this f(1)] f Some x False show ?thesis
        by (auto simp: place_elem_def place_def apply_module_writes_place Let_def s1_def[symmetric])
    qed
  qed
qed

subsection \<open>The contract of applying an element\<close>

lemma find_loaded_module_iff:
  assumes "wf_sup s"
  shows "find_loaded_module s k = Some x \<longleftrightarrow> x < loaded_modules_cnt s \<and> module_name (running_modules s ! x) = Some k"
proof
  assume f: "find_loaded_module s k = Some x"
  show "x < loaded_modules_cnt s \<and> module_name (running_modules s ! x) = Some k"
    using find_loaded_module_Some[OF f] length_loaded[OF assms] by (simp add: loaded_nth)
next
  assume x: "x < loaded_modules_cnt s \<and> module_name (running_modules s ! x) = Some k"
  then have "x < length (loaded s)" "module_name (loaded s ! x) = Some k" using length_loaded[OF assms] by (simp_all add: loaded_nth)
  moreover from this obtain y where y: "find_loaded_module s k = Some y"
    using find_loaded_module_None[of s k] by (metis imageI nth_mem not_None_eq)
  moreover have "distinct (map module_name (loaded s))" using assms by (simp add: wf_sup_def)
  ultimately show "find_loaded_module s k = Some x"
    using find_loaded_module_Some[OF y] by (metis length_map nth_eq_iff_index_eq nth_map)
qed

text \<open>The slots behind the loaded modules hold no interfaces and wait for nothing.\<close>

definition spare :: "running_module \<Rightarrow> bool" where
  "spare m \<longleftrightarrow> config_ifces_cnt m = 0 \<and> \<not> init_module m"

definition clean_slots :: "sup \<Rightarrow> bool" where
  "clean_slots s \<longleftrightarrow> (\<forall>i < length (running_modules s). loaded_modules_cnt s \<le> i \<longrightarrow> spare (running_modules s ! i))"

text \<open>The slot an element is applied to.\<close>

definition slot_of :: "libxml \<Rightarrow> xml_node \<Rightarrow> sup \<Rightarrow> nat" where
  "slot_of lib e s = (case find_loaded_module s (elem_name lib e) of None \<Rightarrow> loaded_modules_cnt s | Some x \<Rightarrow> x)"

lemma place_elem_slots:
  assumes "i \<noteq> slot_of lib e s"
  shows "running_modules (place_elem lib choice pr e s) ! i = running_modules s ! i"
  using assms by (auto simp: place_elem_def slot_of_def set_module_def split: option.splits)

text \<open>
  One usable element: the invariant is kept, its name is marked, its slot holds the module placed there and all others are as before.
\<close>

lemma place_elem_step:
  fixes s e lib choice pr
  defines "s1 \<equiv> check_running_modules_allocated_memory s"
  defines "s' \<equiv> place_elem lib choice pr e s1"
  assumes "sup_inv (\<lambda>m. \<not> remove_module m) s" "profile_in pr (length (profiles s))"
    and "xname e = ''module''" "usable lib (xchildren e) (elem_name lib e)" "(Some (elem_name lib e), True) \<notin> set (view s)"
  shows "\<exists>v'. modules_loop lib choice pr (e # es) v s = modules_loop lib choice pr es v' s'"
    "sup_inv (\<lambda>m. \<not> remove_module m) s'" "view s' = mark (elem_name lib e) (view s)" "profiles s' = profiles s"
proof -
  have s1: "sup_inv (\<lambda>m. \<not> remove_module m) s1" "view s1 = view s" "profiles s1 = profiles s"
    using not_removed.sup_inv_check[OF assms(3)] loaded_check[of s] assms(3)
    by (simp_all add: s1_def check_running_modules_allocated_memory_def Let_def sup_inv_def view_def)
  have n: "not_yet_seen s1 (elem_name lib e)" using view_not_yet_seen assms(7) s1(2) by simp
  have w: "wf_sup s1" using s1(1) by (simp add: sup_inv_def)
  note step = modules_loop_place[OF assms(5,6) n[unfolded s1_def] w[unfolded s1_def], folded s1_def]
  show "\<exists>v'. modules_loop lib choice pr (e # es) v s = modules_loop lib choice pr es v' s'"
    unfolding s'_def by (rule step)
  obtain v' where v': "modules_loop lib choice pr [e] v s = (s', v')" using step[where es = "[]" and choice = choice and pr = pr] s'_def by auto
  show "sup_inv (\<lambda>m. \<not> remove_module m) s'" by (rule not_removed.sup_inv_modules_loop[OF assms(3,4) v'])
  show "view s' = mark (elem_name lib e) (view s)"
    using not_removed.modules_loop_view[OF assms(3,4), where es = "[e]" and lib = lib and v = v and choice = choice] assms(5-7) v' by simp
  show "profiles s' = profiles s" using s1(3) by (simp add: s'_def place_elem_def set_module_def split: option.split)
qed

lemma place_elem_names:
  fixes s e lib choice pr
  defines "s1 \<equiv> check_running_modules_allocated_memory s"
  defines "s' \<equiv> place_elem lib choice pr e s1"
  assumes "sup_inv (\<lambda>m. \<not> remove_module m) s" "profile_in pr (length (profiles s))"
    and "xname e = ''module''" "usable lib (xchildren e) (elem_name lib e)" "(Some (elem_name lib e), True) \<notin> set (view s)"
  shows "slot_of lib e s1 < loaded_modules_cnt s' \<and> slot_of lib e s1 < length (running_modules s1) \<and>
    module_name (running_modules s' ! slot_of lib e s1) = Some (elem_name lib e) \<and>
    loaded_modules_cnt s' = (if find_loaded_module s1 (elem_name lib e) = None then Suc (loaded_modules_cnt s) else loaded_modules_cnt s) \<and>
    running_modules s' ! slot_of lib e s1 =
       place lib choice pr e (find_loaded_module s1 (elem_name lib e) \<noteq> None) (running_modules s1 ! slot_of lib e s1)"
proof -
  have inv: "sup_inv (\<lambda>m. \<not> remove_module m) s1" "loaded_modules_cnt s1 < running_modules_array_size s1"
    using not_removed.sup_inv_check[OF assms(3)] by (simp_all add: s1_def)
  have cnt: "loaded_modules_cnt s1 = loaded_modules_cnt s" using loaded_check(1) assms(3) by (simp add: s1_def sup_inv_def)
  have w: "wf_sup s1" using inv by (simp add: sup_inv_def)
  note f = find_loaded_module_iff[OF w, of "elem_name lib e"]
  have l: "loaded_modules_cnt s' = (if find_loaded_module s1 (elem_name lib e) = None then Suc (loaded_modules_cnt s) else loaded_modules_cnt s)"
    by (simp add: s'_def place_elem_def cnt split: option.split)
  have slot: "slot_of lib e s1 < loaded_modules_cnt s' \<and> slot_of lib e s1 \<le> loaded_modules_cnt s1"
  proof (cases "find_loaded_module s1 (elem_name lib e)")
    case (Some y)
    then show ?thesis using f[of y] l cnt by (simp add: slot_of_def)
  qed (use l cnt in \<open>simp add: slot_of_def\<close>)
  then have len: "slot_of lib e s1 < length (running_modules s1)" using inv(2) w by (simp add: wf_sup_def)
  then have at: "running_modules s' ! slot_of lib e s1 =
       place lib choice pr e (find_loaded_module s1 (elem_name lib e) \<noteq> None) (running_modules s1 ! slot_of lib e s1)"
    by (cases "find_loaded_module s1 (elem_name lib e)") (simp_all add: s'_def place_elem_def slot_of_def set_module_def)
  note step = place_elem_step(2,3)[OF assms(3-7), of choice, folded s1_def, folded s'_def]
  have w': "wf_sup s'" using step(1) by (simp add: sup_inv_def)
  have "Some (elem_name lib e) \<in> fst ` set (view s')" by (simp add: step(2) mark_names)
  then obtain x where x: "find_loaded_module s' (elem_name lib e) = Some x"
    using find_loaded_module_None[of s' "elem_name lib e"] view_names[of s'] by auto
  note x' = x[unfolded find_loaded_module_iff[OF w']]
  have "x = slot_of lib e s1"
  proof (rule ccontr)
    assume ne: "x \<noteq> slot_of lib e s1"
    then have "module_name (running_modules s1 ! x) = Some (elem_name lib e)" using x' place_elem_slots[OF ne] by (simp add: s'_def)
    moreover have "x < loaded_modules_cnt s1"
      using x' ne l cnt by (cases "find_loaded_module s1 (elem_name lib e)") (simp_all add: slot_of_def)
    ultimately show False using ne f[of x] by (simp add: slot_of_def)
  qed
  then show ?thesis using x' slot len l at by simp
qed

text \<open>
  \<open>R\<close> is what holds of the loaded module of an element before, \<open>N\<close> says that the element may introduce a module, \<open>Q\<close> is what holds
  afterwards.
\<close>

locale element_effect =
  fixes lib :: libxml and choice :: reload_choice
    and R :: "xml_node \<Rightarrow> running_module \<Rightarrow> bool" and N :: "xml_node \<Rightarrow> bool" and Q :: "xml_node \<Rightarrow> running_module \<Rightarrow> bool"
  assumes old: "good_values (xchildren e) \<Longrightarrow> wf_ifces m \<Longrightarrow> R e m \<Longrightarrow> Q e (place lib choice pr e True m)"
    and fresh: "good_values (xchildren e) \<Longrightarrow> wf_ifces m \<Longrightarrow> spare m \<Longrightarrow> N e \<Longrightarrow> Q e (place lib choice pr e False m)"
begin

definition ready :: "sup \<Rightarrow> xml_node \<Rightarrow> bool" where
  "ready s e \<longleftrightarrow> (\<forall>x < loaded_modules_cnt s. module_name (running_modules s ! x) = Some (elem_name lib e) \<longrightarrow> R e (running_modules s ! x)) \<and>
     ((\<forall>x < loaded_modules_cnt s. module_name (running_modules s ! x) \<noteq> Some (elem_name lib e)) \<longrightarrow> N e)"

definition completed :: "sup \<Rightarrow> xml_node \<Rightarrow> bool" where
  "completed s e \<longleftrightarrow> (\<exists>x < loaded_modules_cnt s. module_name (running_modules s ! x) = Some (elem_name lib e) \<and> Q e (running_modules s ! x))"

lemma place_completes:
  assumes "sup_inv (\<lambda>m. \<not> remove_module m) s" "profile_in pr (length (profiles s))"
    and "xname e = ''module''" "usable lib (xchildren e) (elem_name lib e)" "(Some (elem_name lib e), True) \<notin> set (view s)"
    and "good_values (xchildren e)" "ready s e" "clean_slots s"
    and "s' = place_elem lib choice pr e (check_running_modules_allocated_memory s)"
  shows "completed s' e" "clean_slots s'"
    "elem_name lib e' \<noteq> elem_name lib e \<Longrightarrow> ready s e' \<Longrightarrow> ready s' e'"
    "elem_name lib e' \<noteq> elem_name lib e \<Longrightarrow> completed s e' \<Longrightarrow> completed s' e'"
proof -
  define s1 where "s1 = check_running_modules_allocated_memory s"
  have s': "s' = place_elem lib choice pr e s1" using assms(9) by (simp add: s1_def)
  have w: "wf_sup s" using assms(1) by (simp add: sup_inv_def)
  have w1: "wf_sup s1" using not_removed.sup_inv_check[OF assms(1)] by (simp add: s1_def sup_inv_def)
  note cnt = loaded_check[OF w, folded s1_def] and names' = place_elem_names[OF assms(1-5), of choice, folded s1_def, folded s']
  note names = names'[THEN conjunct1] names'[THEN conjunct2, THEN conjunct1] names'[THEN conjunct2, THEN conjunct2, THEN conjunct1]
    names'[THEN conjunct2, THEN conjunct2, THEN conjunct2, THEN conjunct1] names'[THEN conjunct2, THEN conjunct2, THEN conjunct2, THEN conjunct2]
  have same: "running_modules s1 ! i = running_modules s ! i" if "i < loaded_modules_cnt s" for i
    using that cnt by (metis loaded_nth)
  have clean1: "clean_slots s1"
    using assms(8) w by (auto simp: clean_slots_def s1_def check_running_modules_allocated_memory_def Let_def nth_append wf_sup_def
        fresh_module_def zero_module_def spare_def)
  let ?x = "slot_of lib e s1"
  have slot: "?x < loaded_modules_cnt s \<and> module_name (running_modules s ! ?x) = Some (elem_name lib e) \<and> find_loaded_module s1 (elem_name lib e) \<noteq> None \<or>
      ?x = loaded_modules_cnt s \<and> (\<forall>x < loaded_modules_cnt s. module_name (running_modules s ! x) \<noteq> Some (elem_name lib e)) \<and>
      find_loaded_module s1 (elem_name lib e) = None"
  proof (cases "find_loaded_module s1 (elem_name lib e)")
    case None
    then show ?thesis using find_loaded_module_iff[OF w1, of "elem_name lib e"] same cnt(1) by (auto simp: slot_of_def)
  next
    case (Some y)
    then have "y < loaded_modules_cnt s" "module_name (running_modules s1 ! y) = Some (elem_name lib e)"
      using find_loaded_module_iff[OF w1, of "elem_name lib e" y] cnt(1) by simp_all
    then show ?thesis using Some same by (simp add: slot_of_def)
  qed
  have wf: "wf_ifces (running_modules s1 ! ?x)" using w1 names(2) by (simp add: wf_sup_def list_all_iff)
  have "Q e (running_modules s' ! ?x)"
  proof (cases "find_loaded_module s1 (elem_name lib e)")
    case None
    then have "spare (running_modules s1 ! ?x)" "N e"
      using slot clean1 names(2) cnt(1) assms(7) by (auto simp: clean_slots_def ready_def)
    then show ?thesis using names(5) None fresh[OF assms(6) wf] by simp
  next
    case (Some x)
    then have "R e (running_modules s1 ! ?x)" using slot same assms(7) by (auto simp: ready_def)
    then show ?thesis using names(5) Some old[OF assms(6) wf] by simp
  qed
  then show "completed s' e" using names(1,3) by (auto simp: completed_def)
  have other: "running_modules s' ! i = running_modules s1 ! i" if "i \<noteq> ?x" for i using place_elem_slots[OF that] by (simp add: s')
  have len: "length (running_modules s') = length (running_modules s1)" by (simp add: s' place_elem_def split: option.split)
  show "clean_slots s'" using clean1 other slot names(4) cnt(1) len by (auto simp: clean_slots_def)
  have unchanged: "i < loaded_modules_cnt s \<and> running_modules s' ! i = running_modules s ! i \<and> i \<noteq> ?x"
    if "i < loaded_modules_cnt s'" "module_name (running_modules s' ! i) = Some k" "k \<noteq> elem_name lib e" for i k
  proof -
    have "i \<noteq> ?x" using that names(3) by auto
    moreover have "i < loaded_modules_cnt s" using that(1) calculation slot names(4) by (auto split: if_splits)
    ultimately show ?thesis using other same by simp
  qed
  have before: "i < loaded_modules_cnt s' \<and> running_modules s' ! i = running_modules s ! i"
    if "i < loaded_modules_cnt s" "module_name (running_modules s ! i) = Some k" "k \<noteq> elem_name lib e" for i k
  proof -
    have "i \<noteq> ?x" using that slot by auto
    then show ?thesis using that(1) other same names(4) by simp
  qed
  show "ready s' e'" if "elem_name lib e' \<noteq> elem_name lib e" "ready s e'"
    unfolding ready_def
  proof (intro conjI allI impI)
    fix x assume x: "x < loaded_modules_cnt s'" "module_name (running_modules s' ! x) = Some (elem_name lib e')"
    note u = unchanged[OF x that(1)]
    then show "R e' (running_modules s' ! x)" using x(2) that(2) by (simp add: ready_def)
  next
    assume none: "\<forall>x<loaded_modules_cnt s'. module_name (running_modules s' ! x) \<noteq> Some (elem_name lib e')"
    have "module_name (running_modules s ! x) \<noteq> Some (elem_name lib e')" if "x < loaded_modules_cnt s" for x
    proof
      assume n: "module_name (running_modules s ! x) = Some (elem_name lib e')"
      from before[OF that n \<open>elem_name lib e' \<noteq> elem_name lib e\<close>] n none show False by auto
    qed
    then show "N e'" using that(2) by (simp add: ready_def)
  qed
  show "completed s' e'" if ne: "elem_name lib e' \<noteq> elem_name lib e" and c: "completed s e'"
  proof -
    obtain x where x: "x < loaded_modules_cnt s" "module_name (running_modules s ! x) = Some (elem_name lib e')" "Q e' (running_modules s ! x)"
      using c by (auto simp: completed_def)
    from before[OF x(1,2) ne] x(2,3) show ?thesis by (auto simp: completed_def)
  qed
qed

text \<open>What a list of module elements does to the state: its elements are completed, those of other names are left as they were.\<close>

definition settles :: "xml_node list \<Rightarrow> sup \<Rightarrow> sup \<Rightarrow> bool" where
  "settles es s s' \<longleftrightarrow> clean_slots s' \<and> (\<forall>e \<in> set es. completed s' e) \<and>
     (\<forall>e'. elem_name lib e' \<notin> elem_name lib ` set es \<longrightarrow> (ready s e' \<longrightarrow> ready s' e') \<and> (completed s e' \<longrightarrow> completed s' e'))"

lemma settles_append:
  assumes "settles es s s1" "settles es' s1 s'" "elem_name lib ` set es \<inter> elem_name lib ` set es' = {}"
  shows "settles (es @ es') s s'"
proof -
  have "completed s' e" if "e \<in> set es" for e
  proof -
    have "elem_name lib e \<notin> elem_name lib ` set es'" using assms(3) that by auto
    then show ?thesis using assms(1,2) that by (simp add: settles_def)
  qed
  then show ?thesis using assms(1,2) by (auto simp: settles_def image_Un)
qed

lemma settles_none: "clean_slots s \<Longrightarrow> settles [] s s"
  by (simp add: settles_def)

lemma same_slots:
  assumes "loaded_modules_cnt s' = loaded_modules_cnt s" "running_modules s' = running_modules s"
  shows "clean_slots s' = clean_slots s" "ready s' e = ready s e" "completed s' e = completed s e" "settles es s' t = settles es s t"
    "settles es t s' = settles es t s"
proof -
  have r: "ready s' = ready s" "completed s' = completed s" "clean_slots s' = clean_slots s"
    using assms by (auto simp: ready_def completed_def clean_slots_def fun_eq_iff)
  show "clean_slots s' = clean_slots s" "ready s' e = ready s e" "completed s' e = completed s e" "settles es s' t = settles es s t"
    "settles es t s' = settles es t s" by (simp_all add: r settles_def)
qed

lemma modules_loop_settles:
  "sup_inv (\<lambda>m. \<not> remove_module m) s \<Longrightarrow> profile_in pr (length (profiles s)) \<Longrightarrow>
     \<forall>e \<in> set es. xname e = ''module'' \<longrightarrow> usable lib (xchildren e) (elem_name lib e) \<and> good_values (xchildren e) \<and> ready s e \<Longrightarrow>
     distinct (map (elem_name lib) (filter (\<lambda>e. xname e = ''module'') es)) \<Longrightarrow>
     \<forall>e \<in> set es. xname e = ''module'' \<longrightarrow> (Some (elem_name lib e), True) \<notin> set (view s) \<Longrightarrow> clean_slots s \<Longrightarrow>
     settles (filter (\<lambda>e. xname e = ''module'') es) s (fst (modules_loop lib choice pr es v s))"
proof (induction es arbitrary: v s)
  case (Cons e es)
  show ?case
  proof (cases "xname e = ''module''")
    case True
    define s' where "s' = place_elem lib choice pr e (check_running_modules_allocated_memory s)"
    have e: "usable lib (xchildren e) (elem_name lib e)" "good_values (xchildren e)" "ready s e" "(Some (elem_name lib e), True) \<notin> set (view s)"
      using Cons.prems(3,5) True by simp_all
    note step = place_elem_step[OF Cons.prems(1,2) True e(1,4), of choice, folded s'_def]
    note eff = place_completes[OF Cons.prems(1,2) True e(1,4,2,3) Cons.prems(6) s'_def]
    obtain v' where l: "modules_loop lib choice pr (e # es) v s = modules_loop lib choice pr es v' s'" using step(1) by blast
    have ne: "elem_name lib e' \<noteq> elem_name lib e" if "e' \<in> set es" "xname e' = ''module''" for e'
      using Cons.prems(4) True that by (auto simp: image_iff)
    have one: "settles [e] s s'" using eff by (auto simp: settles_def)
    have "settles (filter (\<lambda>e. xname e = ''module'') es) s' (fst (modules_loop lib choice pr es v' s'))"
    proof (rule Cons.IH[OF step(2)])
      show "profile_in pr (length (profiles s'))" using step(4) Cons.prems(2) by simp
      show "\<forall>e\<in>set es. xname e = ''module'' \<longrightarrow> usable lib (xchildren e) (elem_name lib e) \<and> good_values (xchildren e) \<and> ready s' e"
        using Cons.prems(3) ne eff(3) by simp
      show "\<forall>e\<in>set es. xname e = ''module'' \<longrightarrow> (Some (elem_name lib e), True) \<notin> set (view s')"
        unfolding step(3) using Cons.prems(5) ne mark_other by simp
    qed (use Cons.prems(4) eff(2) True in auto)
    from settles_append[OF one this] ne show ?thesis unfolding l using True by force
  qed (use Cons in simp)
qed (simp add: settles_none)

lemma root_loop_settles:
  "sup_inv (\<lambda>m. \<not> remove_module m) s \<Longrightarrow> root_ok lib ns \<Longrightarrow> distinct (map (elem_name lib) (module_elems ns)) \<Longrightarrow>
     \<forall>e \<in> set (module_elems ns). good_values (xchildren e) \<and> ready s e \<and> (Some (elem_name lib e), True) \<notin> set (view s) \<Longrightarrow> clean_slots s \<Longrightarrow>
     settles (module_elems ns) s (root_loop lib choice ns v s)"
proof (induction ns arbitrary: v s)
  case (Cons n ns)
  note ok = root_ok_Cons[OF Cons.prems(2)]
  show ?case
  proof (cases "is_elem ''modules'' n")
    case True
    then have nm: "xname n = ''modules''" by (simp add: is_elem_def)
    let ?es = "filter (is_elem ''module'') (xchildren n)"
    obtain s' v' where a: "apply_modules_element lib choice n v s = (s', v')" by fastforce
    have el: "module_elems (n # ns) = ?es @ module_elems ns" using True by (simp add: module_elems_Cons)
    note mem = named_in_elems[OF True ok(3)[OF True], where ns = ns]
    have loop: "settles ?es s (fst (modules_loop lib choice pr (xchildren n) v t))"
      if "sup_inv (\<lambda>m. \<not> remove_module m) t" "profile_in pr (length (profiles t))" "view t = view s"
        "loaded_modules_cnt t = loaded_modules_cnt s" "running_modules t = running_modules s" for pr t
    proof -
      have "settles (filter (\<lambda>e. xname e = ''module'') (xchildren n)) t (fst (modules_loop lib choice pr (xchildren n) v t))"
      proof (rule modules_loop_settles[OF that(1,2)])
        show "\<forall>e\<in>set (xchildren n). xname e = ''module'' \<longrightarrow>
            usable lib (xchildren e) (elem_name lib e) \<and> good_values (xchildren e) \<and> ready t e"
          using ok(4)[OF True] Cons.prems(4) mem same_slots(2)[OF that(4,5)] by blast
        show "\<forall>e\<in>set (xchildren n). xname e = ''module'' \<longrightarrow> (Some (elem_name lib e), True) \<notin> set (view t)"
          using Cons.prems(4) mem that(3) by auto
        show "distinct (map (elem_name lib) (filter (\<lambda>e. xname e = ''module'') (xchildren n)))"
          using Cons.prems(3) el ok(3)[OF True] by simp
      qed (use Cons.prems(5) same_slots(1)[OF that(4,5)] in simp)
      then show ?thesis using ok(3)[OF True] same_slots(4)[OF that(4,5)] by simp
    qed
    have add: "sup_inv (\<lambda>m. \<not> remove_module m) (s\<lparr>profiles := profiles s @ [p], loaded_profile_cnt := loaded_profile_cnt s + 1\<rparr>)"
      "view (s\<lparr>profiles := profiles s @ [p], loaded_profile_cnt := loaded_profile_cnt s + 1\<rparr>) = view s" for p
      using not_removed.sup_inv_add_profile[OF Cons.prems(1)] by (simp_all add: view_def loaded_def)
    have "settles ?es s (fst (apply_modules_element lib choice n v s))"
      using loop[of s None] loop[OF add(1), of "Some (length (profiles s))"] add(2) Cons.prems(1)
      by (simp add: apply_modules_element_def profile_in_def split: option.split)
    then have first: "settles ?es s s'" using a by simp
    have sep: "elem_name lib ` set ?es \<inter> elem_name lib ` set (module_elems ns) = {}" "distinct (map (elem_name lib) (module_elems ns))"
      using Cons.prems(3) unfolding el by auto
    have v: "view s' = fold mark (map (elem_name lib) ?es) (view s)"
      using not_removed.root_loop_view[OF Cons.prems(1), of lib "[n]" choice v] Cons.prems(2,3,4) a nm True el
      by (simp add: root_ok_def module_elems_Cons known_nodes_def module_elems_def)
    have inv: "sup_inv (\<lambda>m. \<not> remove_module m) s'" using not_removed.sup_inv_root_loop[OF Cons.prems(1), of lib choice "[n]" v] a nm by simp
    have "settles (module_elems ns) s' (root_loop lib choice ns v' s')"
    proof (rule Cons.IH[OF inv ok(1) sep(2)])
      have "elem_name lib e \<notin> elem_name lib ` set ?es" if "e \<in> set (module_elems ns)" for e using sep(1) that by blast
      then show "\<forall>e\<in>set (module_elems ns). good_values (xchildren e) \<and> ready s' e \<and> (Some (elem_name lib e), True) \<notin> set (view s')"
        using Cons.prems(4) first Cons.prems(3) unfolding v el by (auto simp: settles_def fold_mark)
    qed (use first in \<open>simp add: settles_def\<close>)
    from settles_append[OF first this sep(1)] show ?thesis unfolding el using a nm by simp
  next
    case False
    with ok(2) have nm: "xname n \<noteq> ''modules''" by simp
    have el: "module_elems (n # ns) = module_elems ns" using False by (simp add: module_elems_Cons)
    let ?s = "\<lambda>k. s\<lparr>module_restarts_num_config := k\<rparr>"
    have inv: "sup_inv (\<lambda>m. \<not> remove_module m) (?s k)" "view (?s k) = view s" for k
      using Cons.prems(1) by (simp_all add: sup_inv_def wf_sup_def loaded_def view_def)
    have "settles (module_elems ns) s (root_loop lib choice ns v (?s k))" for k
    proof -
      have "settles (module_elems ns) (?s k) (root_loop lib choice ns v (?s k))"
        using Cons.IH[OF inv(1)[of k] ok(1), of v] Cons.prems(3-5) inv(2)[of k] same_slots(1,2)[of "?s k" s] unfolding el by simp
      then show ?thesis using same_slots(4)[of "?s k" s] by simp
    qed
    moreover have "settles (module_elems ns) s (root_loop lib choice ns v s)"
      using Cons.IH[OF Cons.prems(1) ok(1)] Cons.prems(3-5) unfolding el by simp
    ultimately show ?thesis using nm unfolding el by simp
  qed
qed (simp add: module_elems_def settles_none)

end

subsection \<open>The values of an accepted document arrive\<close>

lemma agrees_codes: "ifc_note i' = ifc_note i \<Longrightarrow> ifc_type i' = ifc_type i \<Longrightarrow> ifc_direction i' = ifc_direction i \<Longrightarrow>
    ifc_params i' = ifc_params i \<Longrightarrow> ifc_agrees lib ns i' = ifc_agrees lib ns i"
  by (induction ns) simp_all

lemma carried_counted: "wf_ifces m \<Longrightarrow> child_carried lib n m \<Longrightarrow> child_carried lib n (reload_count_module_interfaces m)"
  by (auto simp: child_carried_def carries_ifces_def reload_count_module_interfaces_def wf_ifces_def nth_append
      intro: agrees_codes[THEN iffD2] split: if_splits)

lemma counted_fields: "module_enabled (reload_count_module_interfaces m) = module_enabled m"
  "init_module (reload_count_module_interfaces m) = init_module m" "config_ifces_cnt (reload_count_module_interfaces m) = config_ifces_cnt m"
  by (simp_all add: reload_count_module_interfaces_def)

lemma profile_carried: "child_carried lib n (m\<lparr>module_profile := p\<rparr>) = child_carried lib n m"
  "child_carried lib n (m\<lparr>module_checked_by_reload := b\<rparr>) = child_carried lib n m"
  by (simp_all add: child_carried_def carries_ifces_def)

lemma write_module_carries:
  assumes "good_values (xchildren e)" "wf_ifces m" "new \<longrightarrow> ins" "\<not> init_module m"
    "\<not> list_ex (\<lambda>n. xname n = ''trapinterfaces'') (xchildren e) \<longrightarrow> config_ifces_cnt m = 0"
  shows "carries lib (xchildren e) (write_module lib choice pr e new ins m) \<and>
    flag_carried lib (xchildren e) (module_enabled (write_module lib choice pr e new ins m)) \<and>
    \<not> init_module (write_module lib choice pr e new ins m)"
proof -
  define m0 where "m0 = restore_pid lib choice e (m\<lparr>module_checked_by_reload := True\<rparr>)"
  obtain m1 ins1 where c: "process_module_children lib new (xchildren e) (m0, ins) = (m1, ins1)" by fastforce
  have m0: "wf_ifces m0" "config_ifces_cnt m0 = config_ifces_cnt m" "\<not> init_module m0"
    using assms(2,4) by (simp_all add: m0_def restore_pid_def wf_ifces_def split: option.split)
  note carry = children_carry[OF m0(1) assms(3,1), of lib, unfolded c fst_conv]
  have w1: "wf_ifces m1" using children_keep[of "(m0, ins)" lib new "xchildren e"] m0(1) c by (simp add: reload_keeps_def)
  have i1: "\<not> init_module m1" using children_init[of "(m0, ins)" lib new "xchildren e"] m0(1,3) c by simp
  define m2 where "m2 = (if ins1 then reload_count_module_interfaces m1 else m1)"
  have m2: "list_all (\<lambda>n. child_carried lib n m2) (xchildren e)" "flag_carried lib (xchildren e) (module_enabled m2)"
    "''trapinterfaces'' \<notin> xname ` set (xchildren e) \<longrightarrow> config_ifces_cnt m2 = config_ifces_cnt m" "\<not> init_module m2"
    using carry m0(2) carried_counted[OF w1] i1 by (auto simp: m2_def counted_fields list_all_iff)
  have "write_module lib choice pr e new ins m = (case pr of None \<Rightarrow> m2 | Some p \<Rightarrow> m2\<lparr>module_profile := Some p\<rparr>)"
    using c unfolding write_module_def m0_def[symmetric] by (simp add: m2_def Let_def split: option.split)
  then show ?thesis using m2 assms(5) by (auto simp: carries_def profile_carried list_ex_iff split: option.splits)
qed

interpretation given: element_effect lib choice "\<lambda>e m. \<not> init_module m" "\<lambda>e. True"
  "\<lambda>e m. carries lib (xchildren e) m \<and> flag_carried lib (xchildren e) (module_enabled m) \<and> \<not> init_module m"
proof
  fix e m pr assume g: "good_values (xchildren e)" and w: "wf_ifces m"
  have f: "wf_ifces (forget_ifces m)" "config_ifces_cnt (forget_ifces m) = 0" "init_module (forget_ifces m) = init_module m"
    using forget_ifces_shape[of m] w by (simp_all add: forget_ifces_def free_module_interfaces_on_index_def)
  show "carries lib (xchildren e) (place lib choice pr e True m) \<and>
      flag_carried lib (xchildren e) (module_enabled (place lib choice pr e True m)) \<and> \<not> init_module (place lib choice pr e True m)"
    if "\<not> init_module m"
    using write_module_carries[OF g f(1), of False True] write_module_carries[OF g w, of False False] f that
    by (auto simp: place_def forgotten_def)
  show "carries lib (xchildren e) (place lib choice pr e False m) \<and>
      flag_carried lib (xchildren e) (module_enabled (place lib choice pr e False m)) \<and> \<not> init_module (place lib choice pr e False m)"
    if "spare m"
    using write_module_carries[OF g w, of True True] that by (simp add: place_def spare_def)
qed

subsection \<open>What validation says of the elements\<close>

lemma once_lengths: "\<forall>nm \<in> set nms. length (filter (\<lambda>n. xname n = nm) ns) \<le> 1 \<Longrightarrow> once nms ns"
proof (induction ns)
  case (Cons n ns)
  have l: "length (filter (\<lambda>k. xname k = nm) ns) \<le> 1" if "nm \<in> set nms" for nm
    using Cons.prems that by (fastforce split: if_splits)
  have "xname n \<notin> xname ` set ns" if "xname n \<in> set nms"
  proof -
    have "length (filter (\<lambda>k. xname k = xname n) (n # ns)) \<le> 1" using Cons.prems that by blast
    then have "filter (\<lambda>k. xname k = xname n) ns = []" by simp
    then show ?thesis by (auto simp: filter_empty_conv)
  qed
  then show ?case using Cons.IH l by (simp add: once_Cons)
qed simp

lemma check_elements_named:
  assumes "check_elements rules rep [] ns st = Some r" "\<forall>n \<in> set ns. plain_node n" "set nms \<subseteq> dom (map_of rules)"
    "''text'' \<notin> set nms" "''comment'' \<notin> set nms"
  shows "once nms ns"
proof (rule once_lengths, rule ballI)
  fix nm assume nm: "nm \<in> set nms"
  obtain st' seen' where r: "r = (st', seen')" by fastforce
  have "length (elem_values undefined nm ns) \<le> 1"
    using check_elements_once[OF assms(1)[unfolded r], of nm] nm assms(3) by fastforce
  moreover have "nm \<noteq> ''text''" "nm \<noteq> ''comment''" using nm assms(4,5) by auto
  then have "xname n = nm \<longleftrightarrow> is_elem nm n" if "n \<in> set ns" for n
    using that by (intro known_named[OF check_elements_known[OF assms(1)] assms(2)])
  then have "filter (\<lambda>n. xname n = nm) ns = filter (is_elem nm) ns" by (intro filter_cong refl)
  ultimately show "length (filter (\<lambda>n. xname n = nm) ns) \<le> 1" by (simp add: elem_values_def)
qed

definition element_checked :: "libxml \<Rightarrow> xml_node \<Rightarrow> bool" where
  "element_checked lib e \<longleftrightarrow> (\<exists>names. reload_check_module_element lib (xchildren e) names \<noteq> None) \<and> check_trapinterfaces lib (xchildren e)"

lemma check_modules_each:
  "check_modules lib ns names = Some names' \<Longrightarrow> e \<in> set ns \<Longrightarrow> is_elem ''module'' e \<Longrightarrow> element_checked lib e"
  by (induction lib ns names rule: check_modules.induct) (auto simp: element_checked_def split: if_splits option.splits)

lemma check_root_each:
  "check_root_children lib b ns pn mn = Some r \<Longrightarrow> e \<in> set (module_elems ns) \<Longrightarrow> element_checked lib e"
proof (induction lib b ns pn mn rule: check_root_children.induct)
  case (2 lib b n ns pn mn)
  then show ?case
    by (auto simp: module_elems_Cons is_elem_def intro: check_modules_each split: if_splits option.splits)
qed (simp add: module_elems_def)

lemma interfaces_once: "check_interfaces lib ns \<Longrightarrow> \<forall>n \<in> set ns. plain_names n \<Longrightarrow> ifces_once ns"
proof (induction lib ns rule: check_interfaces.induct)
  case (2 lib n ns)
  have "once ifc_names (xchildren n)" if i: "is_elem ''interface'' n"
  proof -
    have plain: "\<forall>k \<in> set (xchildren n). plain_node k" using 2 plain_children plain_names_node by force
    obtain r where r: "check_elements
       [(''note'', value_rule lib (\<lambda>key. True)),
        (''type'', value_rule lib (\<lambda>key. key \<in> {''TCP'', ''UNIXSOCKET'', ''FILE'', ''BLACKHOLE'', ''TLS''})),
        (''direction'', value_rule lib (\<lambda>key. key = ''IN'' \<or> key = ''OUT'')),
        (''params'', any_rule)] [] [] (xchildren n) () = Some r"
      using 2 i by (auto simp: reload_check_interface_element_def)
    show ?thesis by (rule check_elements_named[OF r plain]) (auto simp: ifc_names_def)
  qed
  moreover have "is_elem ''interface'' n" if "xname n = ''interface''"
    using that 2 plain_names_node[of n] by (auto simp: plain_node_def split: if_splits)
  ultimately show ?case using 2 by (auto simp: ifces_once_def ifc_elems_def)
qed (simp add: ifces_once_def ifc_elems_def)

definition indented :: "xml_node \<Rightarrow> bool" where
  "indented e \<longleftrightarrow> list_all (\<lambda>n. xname n = ''trapinterfaces'' \<longrightarrow> indented_ifces (xchildren n)) (xchildren e)"

lemma accepted_values:
  assumes "plain_names rt" "validate_configuration lib (Some rt)" "e \<in> set (module_elems (xchildren rt))" "indented e"
  shows "good_values (xchildren e)"
proof -
  have c: "element_checked lib e" using assms(2,3) check_root_each by (fastforce simp: validate_configuration_def)
  have pe: "plain_names e" using assms(1,3) plain_children by (auto simp: module_elems_def split: if_splits)
  obtain names r where r: "check_elements (module_rules lib) [] [] (xchildren e) names = Some r"
    using c by (auto simp: element_checked_def reload_check_module_element_def split: option.splits)
  have plain: "\<forall>n \<in> set (xchildren e). plain_node n" using plain_children[OF pe] plain_names_node by blast
  have "once module_names (xchildren e)"
    by (rule check_elements_named[OF r plain]) (auto simp: module_names_def module_rules_def)
  moreover have "ifces_once (xchildren n)" if n: "n \<in> set (xchildren e)" "xname n = ''trapinterfaces''" for n
  proof (rule interfaces_once)
    have "is_elem ''trapinterfaces'' n" using n(2) by (intro known_named[OF check_elements_known[OF r] plain _ _ n(1), THEN iffD1]) simp_all
    then show "check_interfaces lib (xchildren n)" using c n(1) by (simp add: element_checked_def check_trapinterfaces_def list_all_iff)
    show "\<forall>k \<in> set (xchildren n). plain_names k" using plain_children[OF plain_children[OF pe n(1)]] by blast
  qed
  ultimately show ?thesis using assms(4) by (auto simp: good_values_def indented_def list_all_iff)
qed

subsection \<open>After the reload\<close>

text \<open>A state before a reload and the document it applies.\<close>

definition reloadable :: "libxml \<Rightarrow> xml_node \<Rightarrow> sup \<Rightarrow> bool" where
  "reloadable lib rt s \<longleftrightarrow> wf_sup s \<and> clean_slots s \<and> plain_names rt \<and> validate_configuration lib (Some rt) \<and>
     list_all indented (module_elems (xchildren rt))"

definition applied :: "libxml \<Rightarrow> reload_choice \<Rightarrow> xml_node \<Rightarrow> sup \<Rightarrow> sup" where
  "applied lib choice rt s = root_loop lib choice (xchildren rt) (basic_start False False) (reset_for_reload s)"

lemma clean_reset: "clean_slots s \<Longrightarrow> clean_slots (reset_for_reload s)"
  by (simp add: clean_slots_def reset_for_reload_def spare_def reset_module_def)

context element_effect begin

lemma accepted_completes:
  assumes "reloadable lib rt s" "\<forall>e \<in> set (module_elems (xchildren rt)). ready (reset_for_reload s) e"
  shows "settles (module_elems (xchildren rt)) (reset_for_reload s) (applied lib choice rt s)"
  unfolding applied_def
proof (rule root_loop_settles)
  have a: "wf_sup s" "clean_slots s" "plain_names rt" "validate_configuration lib (Some rt)" "list_all indented (module_elems (xchildren rt))"
    using assms(1) by (simp_all add: reloadable_def)
  show "sup_inv (\<lambda>m. \<not> remove_module m) (reset_for_reload s)" by (rule reset_not_removed[OF a(1)])
  show "root_ok lib (xchildren rt)" by (rule accepted_root_ok[OF a(3,4)])
  show "distinct (map (elem_name lib) (module_elems (xchildren rt)))" using accepted_document(1)[OF a(4)] by (simp add: doc_names_def)
  show "\<forall>e\<in>set (module_elems (xchildren rt)). good_values (xchildren e) \<and> ready (reset_for_reload s) e \<and>
      (Some (elem_name lib e), True) \<notin> set (view (reset_for_reload s))"
    using assms(2) accepted_values[OF a(3,4)] a(5) by (auto simp: reset_view list_all_iff)
qed (use assms(1) clean_reset in \<open>simp add: reloadable_def\<close>)

end

text \<open>The loops at the end leave a module that the document names to \<open>mark_modified\<close>.\<close>

lemma applied_slot:
  assumes "reloadable lib rt s" "x < loaded_modules_cnt (applied lib choice rt s)"
    "module_name (running_modules (applied lib choice rt s) ! x) \<in> Some ` set (doc_names lib rt)"
  shows "x < length (loaded (fst (reload_document lib choice (Some rt) s))) \<and>
    loaded (fst (reload_document lib choice (Some rt) s)) ! x =
      init_restored choice (mark_modified (running_modules (applied lib choice rt s) ! x))"
proof -
  let ?r = "applied lib choice rt s"
  have a: "wf_sup s" "plain_names rt" "validate_configuration lib (Some rt)" using assms(1) by (simp_all add: reloadable_def)
  have w: "wf_sup ?r"
    using not_removed.sup_inv_root_loop[OF reset_not_removed[OF a(1)]] by (simp add: applied_def sup_inv_def)
  have len: "x < length (running_modules ?r)" "loaded_modules_cnt ?r \<le> length (running_modules ?r)" using assms(2) w by (simp_all add: wf_sup_def)
  let ?m = "running_modules ?r ! x"
  have "(module_name ?m, module_checked_by_reload ?m) \<in> set (view ?r)"
    using assms(2) length_loaded[OF w] by (force simp: view_def loaded_nth[symmetric])
  then have "module_checked_by_reload ?m"
    using assms(3) unfolding applied_def applied_view[OF a] by (auto simp: applied_def)
  then have m: "mark_missing ?m = ?m" by (simp add: mark_missing_def)
  have r: "fst (reload_document lib choice (Some rt) s) = finish_reload choice (loaded_modules_cnt s) ?r"
    using a(3) by (simp add: reload_document_def apply_configuration_def applied_def)
  have "running_modules (finish_reload choice (loaded_modules_cnt s) ?r) ! x = init_restored choice (mark_modified ?m)"
    using len assms(2) m by (simp add: finish_reload_def Let_def nth_map_first)
  moreover have "loaded_modules_cnt (finish_reload choice (loaded_modules_cnt s) ?r) = loaded_modules_cnt ?r"
    by (simp add: finish_reload_def Let_def)
  ultimately show ?thesis unfolding r using assms(2) len by (simp add: loaded_def finish_length)
qed

lemma reload_carries:
  assumes "reloadable lib rt s" "e \<in> set (module_elems (xchildren rt))"
  shows "\<exists>m \<in> set (loaded (fst (reload_document lib choice (Some rt) s))).
    module_name m = Some (elem_name lib e) \<and> carries lib (xchildren e) m \<and>
    flag_carried lib (xchildren e) (module_enabled m \<or> init_module m)"
proof -
  have "given.ready lib (reset_for_reload s) e" for e
    using assms(1) by (auto simp: given.ready_def reset_for_reload_def reset_module_def reloadable_def wf_sup_def)
  then have "given.completed lib (applied lib choice rt s) e"
    using given.accepted_completes[OF assms(1), of choice] assms(2) by (simp add: given.settles_def)
  then obtain x where x: "x < loaded_modules_cnt (applied lib choice rt s)"
    and m: "module_name (running_modules (applied lib choice rt s) ! x) = Some (elem_name lib e)"
      "carries lib (xchildren e) (running_modules (applied lib choice rt s) ! x)"
      "flag_carried lib (xchildren e) (module_enabled (running_modules (applied lib choice rt s) ! x))"
      "\<not> init_module (running_modules (applied lib choice rt s) ! x)"
    unfolding given.completed_def by blast
  have "module_name (running_modules (applied lib choice rt s) ! x) \<in> Some ` set (doc_names lib rt)"
    using m(1) assms(2) by (simp add: doc_names_def)
  note f = applied_slot[OF assms(1) x this]
  have k: "module_name (init_restored choice (mark_modified m)) = module_name m \<and> carries lib ns (init_restored choice (mark_modified m)) = carries lib ns m \<and>
      (\<not> init_module m \<longrightarrow> (module_enabled (init_restored choice (mark_modified m)) \<or> init_module (init_restored choice (mark_modified m))) = module_enabled m)"
    for m ns
    by (simp add: init_restored_def mark_modified_def init_module_variables_def Let_def carries_def child_carried_def carries_ifces_def)
  let ?m = "init_restored choice (mark_modified (running_modules (applied lib choice rt s) ! x))"
  have "?m \<in> set (loaded (fst (reload_document lib choice (Some rt) s)))" using f by (metis nth_mem)
  then show ?thesis using m k by (intro bexI[of _ ?m]) simp_all
qed


subsection \<open>Examples\<close>

text \<open>Module \<open>b\<close> runs without a path; the document gives it one. In the second state both modules are as the document says.\<close>

definition running_b :: sup where
  "running_b = two_removed\<lparr>running_modules := (running_modules two_removed)
     [1 := (running_modules two_removed ! 1)\<lparr>module_enabled := True, module_running := True, module_status := True, module_pid := 7\<rparr>]\<rparr>"

definition as_described :: sup where
  "as_described = two_removed\<lparr>running_modules :=
     [fresh_module\<lparr>module_name := Some ''b'', module_path := Some ''/bin'', module_enabled := True, module_status := True, module_running := True, module_pid := 7\<rparr>,
      fresh_module\<lparr>module_name := Some ''c'', module_path := Some ''/bin'', module_enabled := True\<rparr>, fresh_module]\<rparr>"

lemma reloadable_examples: "reloadable doc_lib sample_doc running_b" "reloadable doc_lib sample_doc as_described"
proof -
  have "wf_sup running_b" "wf_sup as_described"
    using wf_two_removed by (simp_all add: wf_sup_def running_b_def as_described_def two_removed_def loaded_def wf_ifces_def wf_profile_def
        fresh_module_def zero_module_def)
  moreover have "clean_slots running_b" "clean_slots as_described"
    by (auto simp: clean_slots_def running_b_def as_described_def two_removed_def spare_def fresh_module_def zero_module_def less_Suc_eq nth_Cons')
  moreover have "list_all indented (module_elems (xchildren sample_doc))" by code_simp
  ultimately show "reloadable doc_lib sample_doc running_b" "reloadable doc_lib sample_doc as_described"
    using sample_doc_ok(1,2) by (simp_all add: reloadable_def)
qed

lemma sample_elems: "module_elems (xchildren sample_doc) = [module_elem ''b'', module_elem ''c'']"
  "elem_name doc_lib (module_elem ''b'') = ''b''" "elem_name doc_lib (module_elem ''c'') = ''c''"
  by code_simp+


end
