(* ===== verification/Reload_Again.thy ===== *)
theory Reload_Again
  imports Reload_Values
begin

section \<open>Reloading what is already there\<close>

text \<open>
  The second instance of the contract \<open>element_effect\<close>: an element applied to a module that already carries its values. Proved: a document
  that describes the modules as they are changes nothing and stops nothing; and a reload that comes before the service thread has
  restarted a modified module loses that restart.
\<close>

subsection \<open>A document that describes the modules as they are\<close>

lemma flag_exists: "good_values ns \<Longrightarrow> \<exists>b. flag_carried lib ns b"
proof (induction ns)
  case (Cons n ns)
  then obtain b where b: "flag_carried lib ns b" by (auto simp: good_values_def once_Cons)
  show ?case
  proof (cases "xname n = ''enabled''")
    case True
    then have "''enabled'' \<notin> xname ` set ns" using Cons.prems by (simp add: good_values_def once_Cons module_names_def)
    then have "xname k \<noteq> ''enabled''" if "k \<in> set ns" for k using that by force
    then show ?thesis using True by (intro exI[of _ "flag_value lib n"]) (simp add: flag_carried_def)
  qed (use b in \<open>auto simp: flag_carried_def\<close>)
qed (auto simp: flag_carried_def)

definition settled_before :: "libxml \<Rightarrow> reload_choice \<Rightarrow> running_module set \<Rightarrow> xml_node \<Rightarrow> running_module \<Rightarrow> bool" where
  "settled_before lib choice K e m \<longleftrightarrow> choice \<noteq> RELOAD_INIT_LOAD_CONFIG \<and> carries lib (xchildren e) m \<and> m \<in> K"

definition settled_after :: "libxml \<Rightarrow> running_module set \<Rightarrow> xml_node \<Rightarrow> running_module \<Rightarrow> bool" where
  "settled_after lib K e m' \<longleftrightarrow> (\<exists>m \<in> K. \<exists>b. carries lib (xchildren e) m \<and> flag_carried lib (xchildren e) b \<and>
     core m' = core (enable_from (xchildren e) b m))"

lemma enable_from_core: "core m' = core m \<Longrightarrow> core (enable_from ns b m') = core (enable_from ns b m)"
  using enable_as_core[of m' m b] by (simp add: enable_from_def)

interpretation settled: element_effect lib choice "settled_before lib choice K" "\<lambda>e. False" "settled_after lib K"
proof
  fix e m pr assume g: "good_values (xchildren e)" and w: "wf_ifces m" and r: "settled_before lib choice K e m"
  obtain b where b: "flag_carried lib (xchildren e) b" using flag_exists[OF g] by blast
  define m0 where "m0 = m\<lparr>module_checked_by_reload := True\<rparr>"
  have c: "core m0 = core m" by (simp add: m0_def)
  have "list_all (\<lambda>n. child_carried lib n m0) (xchildren e)" "wf_ifces m0"
    using r w carried_core[OF c] by (auto simp: settled_before_def carries_def list_all_iff)
  from children_settled[OF this(2,1) b] obtain m' where
    m': "process_module_children lib False (xchildren e) (m0, False) = (m', False)" "core m' = core (enable_from (xchildren e) b m0)"
    by blast
  have nf: "\<not> forgotten e m" using r by (auto simp: settled_before_def carries_def forgotten_def)
  have "restore_pid lib choice e (m\<lparr>module_checked_by_reload := True\<rparr>) = m0"
    using r by (simp add: settled_before_def restore_pid_def m0_def)
  then have "core (place lib choice pr e True m) = core m'"
    using nf m'(1) by (simp add: place_def write_module_def split: option.split)
  then show "settled_after lib K e (place lib choice pr e True m)"
    using r b m'(2) enable_from_core[OF c] by (auto simp: settled_after_def settled_before_def)
qed simp

text \<open>Every element describes a loaded module and carries its values.\<close>

definition describes :: "libxml \<Rightarrow> xml_node \<Rightarrow> sup \<Rightarrow> bool" where
  "describes lib rt s \<longleftrightarrow> list_all (\<lambda>e. list_ex (\<lambda>m. module_name m = Some (elem_name lib e) \<and> carries lib (xchildren e) m) (loaded s))
     (module_elems (xchildren rt))"

lemma carries_reset: "carries lib ns (reset_module m) = carries lib ns m"
  by (simp add: carries_def child_carried_def carries_ifces_def reset_module_def)

lemma loaded_reset: "loaded (reset_for_reload s) = map reset_module (loaded s)" "loaded_modules_cnt (reset_for_reload s) = loaded_modules_cnt s"
  by (simp_all add: loaded_def reset_for_reload_def take_map)

lemma settled_slot:
  assumes "reloadable lib rt s" "choice \<noteq> RELOAD_INIT_LOAD_CONFIG" "describes lib rt s"
    "e \<in> set (module_elems (xchildren rt))" "i < length (loaded s)" "module_name (loaded s ! i) = Some (elem_name lib e)"
  shows "\<exists>b. flag_carried lib (xchildren e) b \<and> i < loaded_modules_cnt (applied lib choice rt s) \<and>
    core (running_modules (applied lib choice rt s) ! i) = core (enable_from (xchildren e) b (reset_module (loaded s ! i)))"
proof -
  let ?r = "applied lib choice rt s" and ?s = "reset_for_reload s"
  define K where "K = set (loaded ?s)"
  have a: "wf_sup s" "plain_names rt" "validate_configuration lib (Some rt)" using assms(1) by (simp_all add: reloadable_def)
  have w: "wf_sup ?s" "wf_sup ?r"
    using not_removed.sup_inv_root_loop[OF reset_not_removed[OF a(1)]] reset_not_removed[OF a(1)] by (simp_all add: applied_def sup_inv_def)
  note names = applied_view[OF a, of choice "basic_start False False", folded applied_def]
  have names_r: "i < loaded_modules_cnt ?r \<and> module_name (running_modules ?r ! i) = module_name (loaded s ! i)" if "i < length (loaded s)" for i
  proof -
    have "length (view ?r) = loaded_modules_cnt ?r" using w(2) by (simp add: view_def)
    then have "i < loaded_modules_cnt ?r" using that names by simp
    moreover from this have "fst (view ?r ! i) = module_name (running_modules ?r ! i)" using w(2) by (simp add: view_def loaded_nth)
    ultimately show ?thesis using that unfolding names by (simp add: nth_append)
  qed
  have dist: "distinct (map module_name (loaded s))" "distinct (map module_name (loaded ?r))" using a(1) w(2) by (simp_all add: wf_sup_def)
  have "settled.ready lib choice K ?s e" if e: "e \<in> set (module_elems (xchildren rt))" for e
  proof -
    obtain j where j: "j < length (loaded s)" "module_name (loaded s ! j) = Some (elem_name lib e)" "carries lib (xchildren e) (loaded s ! j)"
      using assms(3) e unfolding describes_def list_all_iff list_ex_iff by (metis in_set_conv_nth)
    have slot: "running_modules ?s ! x = reset_module (loaded s ! x)" if "x < loaded_modules_cnt s" for x
      using that length_loaded[OF w(1)] by (metis loaded_reset loaded_nth nth_map length_map)
    have nm: "module_name (reset_module m) = module_name m" for m by (simp add: reset_module_def)
    have "x = j" if "x < loaded_modules_cnt s" "module_name (loaded s ! x) = Some (elem_name lib e)" for x
      using that j dist(1) length_loaded[OF a(1)] by (metis length_map nth_eq_iff_index_eq nth_map)
    note unique = this
    have K: "settled_before lib choice K e (reset_module (loaded s ! j))"
      using j assms(2) by (simp add: settled_before_def carries_reset K_def loaded_reset)
    have at: "running_modules ?s ! x = reset_module (loaded s ! x) \<and> x < loaded_modules_cnt s" if "x < loaded_modules_cnt ?s" for x
      using that slot by (simp add: loaded_reset)
    show ?thesis unfolding settled.ready_def
    proof (intro conjI allI impI)
      fix x assume x: "x < loaded_modules_cnt ?s" "module_name (running_modules ?s ! x) = Some (elem_name lib e)"
      then have "x = j" using unique at[OF x(1)] nm by simp
      then show "settled_before lib choice K e (running_modules ?s ! x)" using K at[OF x(1)] by simp
    next
      assume none: "\<forall>x<loaded_modules_cnt ?s. module_name (running_modules ?s ! x) \<noteq> Some (elem_name lib e)"
      have "j < loaded_modules_cnt ?s" using j(1) length_loaded[OF a(1)] by (simp add: loaded_reset)
      from none[rule_format, OF this] at[OF this] j(2) nm show False by simp
    qed
  qed
  then have "settled.completed lib K ?r e"
    using settled.accepted_completes[OF assms(1), of choice K] assms(4) by (simp add: settled.settles_def)
  then obtain x m b where x: "x < loaded_modules_cnt ?r" "module_name (running_modules ?r ! x) = Some (elem_name lib e)"
    and m: "m \<in> K" "flag_carried lib (xchildren e) b" "core (running_modules ?r ! x) = core (enable_from (xchildren e) b m)"
    unfolding settled.completed_def settled_after_def by blast
  have "x = i" using x names_r[OF assms(5)] assms(6) dist(2) length_loaded[OF w(2)]
    by (metis length_map loaded_nth nth_eq_iff_index_eq nth_map)
  have same: "module_name (core m) = module_name m" "module_name (enable_from ns c m) = module_name m" for m ns c
    by (simp_all add: core_def enable_from_def enable_as_def)
  then have "module_name m = Some (elem_name lib e)" using m(3) x(2) by metis
  moreover obtain j where j: "j < length (loaded s)" "m = reset_module (loaded s ! j)"
    using m(1) by (auto simp: K_def loaded_reset in_set_conv_nth)
  ultimately have "j = i" using assms(5,6) dist(1) by (simp add: reset_module_def nth_eq_iff_index_eq[of "map module_name (loaded s)", symmetric])
  then show ?thesis using m(2,3) x(1) \<open>x = i\<close> j(2) by blast
qed

text \<open>With no value changed, the loops at the end leave the module as it is.\<close>

lemma settled_result:
  assumes "reloadable lib rt s" "choice \<noteq> RELOAD_INIT_LOAD_CONFIG" "describes lib rt s"
    "e \<in> set (module_elems (xchildren rt))" "i < length (loaded s)" "module_name (loaded s ! i) = Some (elem_name lib e)"
  shows "\<exists>b. flag_carried lib (xchildren e) b \<and> i < length (loaded (fst (reload_document lib choice (Some rt) s))) \<and>
    core (loaded (fst (reload_document lib choice (Some rt) s)) ! i) = core (enable_from (xchildren e) b (reset_module (loaded s ! i)))"
proof -
  obtain b where b: "flag_carried lib (xchildren e) b" "i < loaded_modules_cnt (applied lib choice rt s)"
    and c: "core (running_modules (applied lib choice rt s) ! i) = core (enable_from (xchildren e) b (reset_module (loaded s ! i)))"
    using settled_slot[OF assms] by blast
  let ?m = "running_modules (applied lib choice rt s) ! i"
  have same: "module_name (core m) = module_name m" "module_name (enable_from ns c m) = module_name m"
    "module_modified_by_reload (core m) = module_modified_by_reload m"
    "module_modified_by_reload (enable_from ns c m) = module_modified_by_reload m"
    "module_name (reset_module m) = module_name m" "\<not> module_modified_by_reload (reset_module m)" for m ns c
    by (simp_all add: core_def enable_from_def enable_as_def reset_module_def)
  have "module_name ?m = Some (elem_name lib e)" using arg_cong[OF c, where f = "module_name"] assms(6) by (simp add: same)
  then have "module_name ?m \<in> Some ` set (doc_names lib rt)" using assms(4) by (simp add: doc_names_def)
  note f = applied_slot[OF assms(1) b(2) this]
  have "\<not> module_modified_by_reload ?m" using arg_cong[OF c, where f = module_modified_by_reload] by (simp add: same)
  then have "core (init_restored choice (mark_modified ?m)) = core ?m" using assms(2) by (simp add: init_restored_def mark_modified_def)
  then show ?thesis using f b(1) c by auto
qed


subsection \<open>The same document twice\<close>

interpretation any_module: whole_reload "\<lambda>m. True" choice
  by unfold_locales simp_all

lemma given_settles:
  assumes "reloadable lib rt s"
  shows "given.settles lib (module_elems (xchildren rt)) (reset_for_reload s) (applied lib choice rt s)"
proof (rule given.accepted_completes[OF assms])
  show "\<forall>e \<in> set (module_elems (xchildren rt)). given.ready lib (reset_for_reload s) e"
    using assms by (auto simp: given.ready_def reset_for_reload_def reset_module_def reloadable_def wf_sup_def)
qed

lemma reload_reloadable:
  assumes "reloadable lib rt s"
  shows "reloadable lib rt (fst (reload_document lib choice (Some rt) s))"
proof -
  let ?r = "applied lib choice rt s"
  have a: "wf_sup s" "validate_configuration lib (Some rt)" using assms by (simp_all add: reloadable_def)
  have eq: "fst (reload_document lib choice (Some rt) s) = finish_reload choice (loaded_modules_cnt s) ?r"
    using a(2) by (simp add: reload_document_def apply_configuration_def applied_def)
  have "sup_inv (\<lambda>m. True) s" using a(1) by (simp add: sup_inv_def)
  from any_module.sup_inv_reload[OF this] have "wf_sup (fst (reload_document lib choice (Some rt) s))" by (simp add: sup_inv_def)
  moreover have "clean_slots ?r" using given_settles[OF assms] by (simp add: given.settles_def)
  then have "clean_slots (finish_reload choice (loaded_modules_cnt s) ?r)"
    by (auto simp: clean_slots_def finish_reload_def Let_def nth_map_first spare_def mark_missing_def)
  ultimately show ?thesis using assms eq by (simp add: reloadable_def)
qed

lemma reload_describes: "reloadable lib rt s \<Longrightarrow> describes lib rt (fst (reload_document lib choice (Some rt) s))"
  using reload_carries[of lib rt s _ choice] by (fastforce simp: describes_def list_all_iff list_ex_iff)

text \<open>
  C6. The restart of a module whose values changed waits for the service thread. Reloading the same document once more before that
  loses it: the module is enabled again, no restart is pending, and nothing of its process has changed, which goes on running with the old values.
\<close>

theorem pending_restart_lost:
  assumes "reloadable lib rt s" "choice' \<noteq> RELOAD_INIT_LOAD_CONFIG" "s1 = fst (reload_document lib choice (Some rt) s)"
    "m1 = loaded s1 ! i" "i < length (loaded s1)" "module_name m1 \<in> Some ` set (doc_names lib rt)" "init_module m1"
    "m2 = loaded (fst (reload_document lib choice' (Some rt) s1)) ! i"
  shows "module_name m2 = module_name m1 \<and> module_enabled m2 \<and> \<not> init_module m2 \<and> module_pid m2 = module_pid m1 \<and>
    module_status m2 = module_status m1 \<and> module_path m2 = module_path m1"
proof -
  have r1: "reloadable lib rt s1" "describes lib rt s1"
    using reload_reloadable[OF assms(1)] reload_describes[OF assms(1)] by (simp_all add: assms(3))
  obtain e where e: "e \<in> set (module_elems (xchildren rt))" "module_name m1 = Some (elem_name lib e)"
    using assms(6) by (auto simp: doc_names_def)
  obtain b where b: "flag_carried lib (xchildren e) b" and c: "core m2 = core (enable_from (xchildren e) b (reset_module m1))"
    using settled_result[OF r1(1) assms(2) r1(2) e(1) assms(5)] e(2) by (auto simp: assms(4,8))
  have w: "wf_sup s1" using r1(1) by (simp add: reloadable_def)
  obtain m where m: "m \<in> set (loaded s1)" "module_name m = Some (elem_name lib e)" "flag_carried lib (xchildren e) (module_enabled m \<or> init_module m)"
    using reload_carries[OF assms(1) e(1), of choice] by (auto simp: assms(3))
  have "distinct (map module_name (loaded s1))" using w by (simp add: wf_sup_def)
  then have "inj_on module_name (set (loaded s1))" by (simp add: distinct_map)
  moreover have "m1 \<in> set (loaded s1)" using assms(4,5) by simp
  ultimately have "m = m1" using m(1,2) e(2) by (metis inj_onD)
  moreover have "good_elem lib e" using assms(1) e(1) accepted_document(2)[of lib rt] by (simp add: reloadable_def)
  then have "filter (is_elem ''enabled'') (xchildren e) \<noteq> []" by (auto simp: good_elem_def elem_values_def)
  then have en: "list_ex (\<lambda>n. xname n = ''enabled'') (xchildren e)" by (auto simp: filter_empty_conv list_ex_iff is_elem_def)
  ultimately have "b" using b m(3) assms(7) by (auto simp: flag_carried_def list_ex_iff)
  define m' where "m' = enable_as True (reset_module m1)"
  have "core m2 = core m'" using c en \<open>b\<close> by (simp add: m'_def enable_from_def)
  then have "module_name m2 = module_name m' \<and> module_enabled m2 = module_enabled m' \<and> init_module m2 = init_module m' \<and>
      module_pid m2 = module_pid m' \<and> module_status m2 = module_status m' \<and> module_path m2 = module_path m'"
    by (cases m2; cases m') (simp add: core_def)
  then show ?thesis by (simp add: m'_def enable_as_def reset_module_def)
qed

subsection \<open>Their examples\<close>

lemma as_described_matches: "describes doc_lib sample_doc as_described"
  "\<forall>m \<in> set (loaded as_described). \<exists>e \<in> set (module_elems (xchildren sample_doc)). module_name m = Some (elem_name doc_lib e) \<and>
      flag_carried doc_lib (xchildren e) (module_enabled m) \<and> list_ex (\<lambda>n. xname n = ''enabled'') (xchildren e)"
  by code_simp+


theorem pending_restart_lost_witness:
  "let s1 = fst (reload_document doc_lib RELOAD_DEFAULT_CONFIG_FILE (Some sample_doc) running_b);
       m2 = loaded (fst (reload_document doc_lib RELOAD_DEFAULT_CONFIG_FILE (Some sample_doc) s1)) ! 1
   in init_module (loaded s1 ! 1) \<and> module_enabled m2 \<and> \<not> init_module m2 \<and> module_pid m2 = 7 \<and> module_status m2"
proof -
  have "init_module (loaded (fst (reload_document doc_lib RELOAD_DEFAULT_CONFIG_FILE (Some sample_doc) running_b)) ! 1) \<and>
      1 < length (loaded (fst (reload_document doc_lib RELOAD_DEFAULT_CONFIG_FILE (Some sample_doc) running_b))) \<and>
      module_name (loaded (fst (reload_document doc_lib RELOAD_DEFAULT_CONFIG_FILE (Some sample_doc) running_b)) ! 1) \<in>
        Some ` set (doc_names doc_lib sample_doc) \<and>
      module_pid (loaded (fst (reload_document doc_lib RELOAD_DEFAULT_CONFIG_FILE (Some sample_doc) running_b)) ! 1) = 7 \<and>
      module_status (loaded (fst (reload_document doc_lib RELOAD_DEFAULT_CONFIG_FILE (Some sample_doc) running_b)) ! 1)"
    by code_simp
  then show ?thesis
    using pending_restart_lost[OF reloadable_examples(1) _ refl refl _ _ _ refl, where choice = RELOAD_DEFAULT_CONFIG_FILE and
        choice' = RELOAD_DEFAULT_CONFIG_FILE and i = 1]
    by (simp add: Let_def)
qed

end
