(* ===== verification/Spec2Isabelle.thy ===== *)
theory Spec2Isabelle
  imports Netconf Json_Info Reload_Again
begin

text \<open>
  \<^bold>\<open>Verification of the NEMEA Supervisor\<close>

  The program (\<^verbatim>\<open>src/supervisor.c\<close>, \<^verbatim>\<open>src/supervisor.h\<close>) keeps an array of modules, external programs
  that it starts, watches, restarts, stops and asks for statistics. Three parties work on this array
  under one mutex: the service thread, which runs a period about every two seconds; the menu, through
  which a user enables, disables and restarts modules; and the reload, which applies an XML
  configuration. The development models the array and every operation of the three on it.

  \<^bold>\<open>Theories\<close>

  \<^item> \<open>Prelude\<close>: decimal printing and scanning of the C library, the counted loop over an array
    (\<open>for_upto\<close>), the contracts of a loop body (\<open>element_sweep\<close>) and of a growable array
    (\<open>growable\<close>).
  \<^item> \<open>Data_Model\<close>: the structures of \<^verbatim>\<open>supervisor.h\<close> as records (\<open>running_module\<close>, \<open>interface_t\<close>,
    \<open>modules_profile\<close>), the global variables as the record \<open>sup\<close>, system calls with an outside effect
    as \<open>os_event\<close>, and \<open>wf_sup\<close>, the shape of a state.
  \<^item> \<open>Util\<close>: \<open>get_digits_num\<close>, \<open>strsuffixis\<close>, \<open>create_backup_file_path\<close>, \<open>get_param_by_delimiter\<close> and
    the parser of the user's selections, with the proof that it reads exactly the syntax of the prompt.
  \<^item> \<open>Module_Args\<close>: \<open>parse_module_params\<close> and \<open>prep_module_args\<close>; round trip of arguments, bounds of the
    specifier buffer and of the argument vector.
  \<^item> \<open>Service_Proc\<close>: starting, checking, interrupting, killing and connecting to a module, each as the
    body of its loop; the invariant \<open>mod_ok\<close> of a module and the behaviour of the restart limit.
  \<^item> \<open>Module_Array\<close>: growing, searching and shifting the array; the loop that removes or re-enables
    modules marked by a reload.
  \<^item> \<open>Service_Msg\<close>: \<open>service_recv_data\<close>, \<open>service_send_data\<close>, the header, the shared receive buffer and
    \<open>service_decode_module_stats\<close>.
  \<^item> \<open>Resources\<close>: \<open>update_modules_resources_usage\<close> and \<open>make_formated_statistics\<close>.
  \<^item> \<open>Service\<close>: a period of \<open>service_thread_routine\<close>; \<open>service_inv\<close>, the invariant of the whole state
    relative to the trace of system calls so far; starting and stopping within a period.
  \<^item> \<open>Interactive\<close>: the operations of the menu on the state, with the lists they print.
  \<^item> \<open>Xml_Config\<close> and \<open>Reload\<close>: validation of a document and its application to the modules.
  \<^item> \<open>Reload_Inv\<close>: a reload of any document keeps the invariant of the state (locales \<open>reload_step\<close> and
    \<open>whole_reload\<close>, interpreted at the start, at run time and for the plugin's callback); \<open>Reload_Doc\<close>: an accepted
    document is applied completely, with nothing skipped; \<open>Reload_Codes\<close>: the numeric codes of the interfaces agree with their texts.
  \<^item> \<open>Reload_Values\<close>: after a reload every element of an accepted document is described by a module with its values (locale
    \<open>element_effect\<close>, one contract for the element handlers); \<open>Reload_Again\<close>: a document that says what already holds changes nothing,
    and what a second reload does to a pending restart.
  \<^item> \<open>Json_Info\<close>: \<open>make_json_modules_info\<close>, what clients are sent about the modules.
  \<^item> \<open>Lifecycle\<close>: program arguments, \<open>supervisor_initialization\<close>, the menu, the request to terminate, the
    wait for the service thread and the signal handler.
  \<^item> \<open>Startup\<close>: \<open>init_paths\<close>, the checks and the creation of directories and log files, and the phases of \<open>main\<close>.
  \<^item> \<open>Config_Gen\<close>: \<open>generate_config_file\<close>, which expands the include lines of the template into a growing buffer;
    proved to refine the plain concatenation of the pieces.
  \<^item> \<open>Backup\<close>: \<open>generate_backup_config_file\<close>; proved to be accepted and to restore the modules at the next start.
  \<^item> \<open>Daemon\<close>: the server thread and the client threads of the daemon, as programs whose interleavings
    \<open>daemon_run\<close> are; invariants of the client slots and of the configuration mode.
  \<^item> \<open>Status_Text\<close>: \<open>VERBOSE\<close> and the options that print the modules; the columns of the brief status are aligned, each module of
    a profile is printed once and no array is left. \<open>Log_Browser\<close>: \<open>interactive_browse_log_files\<close>.
  \<^item> \<open>Client\<close>: the command line client (\<^verbatim>\<open>src/supervisor_cli.c\<close>) and what it does together with the daemon.
  \<^item> \<open>Termination\<close>: \<open>supervisor_termination\<close> as a whole; which processes the next supervisor adopts.
  \<^item> \<open>Menu\<close>: the menus, the information about the supervisor, the periodical statistics in the log, the pager. \<open>Netconf\<close>: the plugin for
    libnetconf (\<^verbatim>\<open>src/ncnemea/nemea.c\<close>): state data, notifications, start, callback and end; \<open>plugin_runs\<close> below makes its modules
    a run of the supervisor.

  \<^bold>\<open>Conventions\<close>

  A state is passed explicitly and returned with the list of system calls made. The answers of the
  operating system, of libxml2, jansson and libtrap are arguments (\<open>kill0\<close>, \<open>fork_pid\<close>, \<open>conn\<close>,
  \<open>recv\<close>, \<open>lib\<close>, \<open>J\<close>, \<open>sock_path\<close>); what a property needs of them is a hypothesis
  (\<open>fork_ok\<close>, \<open>conn_ok\<close>, \<open>send_progress\<close>, \<open>recv_bounded\<close>). Accesses outside an object appear as
  \<open>Undefined\<close> in a result or as the event \<open>Overrun\<close>. Counters that the code keeps in \<open>uint32_t\<close> or
  \<open>uint64_t\<close> and that can wrap are words; \<open>int\<close> values are integers, with the bounds that keep them
  from overflowing proved as part of the invariants. Loops are structural recursions or have a
  measure; no fuel is used. \<open>send_loop\<close>, which nothing in the code bounds, is a partial function, and
  that it returns is proved under the condition that \<open>send\<close> makes progress.

  \<^bold>\<open>Not modelled\<close>

  Printing of messages other than the status options, allocation failures except
  where the code handles them, and the mutex of the modules (every modelled operation runs under it; the
  daemon's own mutex is modelled by the places at which its threads can be interrupted). Of the NETCONF plugin the part about
  the available modules is an argument, because its types and functions are declared nowhere in the repository.
\<close>

section \<open>All runs of the supervisor\<close>

text \<open>
  A run: the start, then in any order periods of the service thread, choices of the menu, reloads by the
  plugin and the request to terminate, each as one step because each holds the mutex. The state carries
  the size of the receive buffer, the trace all system calls so far.
\<close>

inductive supervisor_run ::
  "('j, 'z) jansson_scheme \<Rightarrow> (u32 \<Rightarrow> bool) \<Rightarrow> (string \<Rightarrow> string) \<Rightarrow> libxml \<Rightarrow> sup \<Rightarrow> u32 \<Rightarrow> os_event list \<Rightarrow> bool"
  for J calloc_ok sock_path lib where
  run_start: "supervisor_initialization lib netconf backup parse generated gener_file True initial_globals = ((s, 0), es)
    \<Longrightarrow> supervisor_run J calloc_ok sock_path lib s 256 es"
| run_period: "supervisor_run J calloc_ok sock_path lib s bs tr \<Longrightarrow> answers_ok env
    \<Longrightarrow> service_period J calloc_ok sock_path env bs s = Period_Done ((s', es), bs')
    \<Longrightarrow> supervisor_run J calloc_ok sock_path lib s' bs' (tr @ es)"
| run_choice: "supervisor_run J calloc_ok sock_path lib s bs tr
    \<Longrightarrow> interactive_choice (reload_configuration lib RELOAD_DEFAULT_CONFIG_FILE backup parse generated gener_file None)
          kill0 choice input s = Ret (s', es)
    \<Longrightarrow> supervisor_run J calloc_ok sock_path lib s' bs (tr @ es)"
| run_callback: "supervisor_run J calloc_ok sock_path lib s bs tr
    \<Longrightarrow> supervisor_run J calloc_ok sock_path lib
          (fst (fst (reload_configuration lib RELOAD_CALLBACK_ROOT_ELEM None parse generated gener_file node s))) bs tr"
| run_terminate: "supervisor_run J calloc_ok sock_path lib s bs tr
    \<Longrightarrow> supervisor_run J calloc_ok sock_path lib (request_termination stop_all s) bs tr"
| run_exit: "supervisor_run J calloc_ok sock_path lib s bs tr
    \<Longrightarrow> service_period J calloc_ok sock_path env bs s = Thread_Exit (s', es)
    \<Longrightarrow> supervisor_run J calloc_ok sock_path lib s' bs (tr @ es)"

inductive_cases supervisor_run_stepE: "supervisor_run J calloc_ok sock_path lib s bs tr"

text \<open>A start of the NETCONF plugin that succeeds, followed by a callback, is a run too, so everything proved of runs holds for the plugin.\<close>

lemma plugin_runs:
  assumes "transapi_init os init_sup_flags lib running p = ((p1, ret), es)" "supervisor_initialized p1" "service_thread_initialized p1"
    "\<not> supervisor_initialized (init_sup_flags p)" "modules_part (init_sup_flags p) = initial_globals"
  shows "supervisor_run J calloc_ok sock_path lib (modules_part (fst (callback_nemea_nemea_supervisor lib node p1))) 256 []"
proof -
  obtain s where s: "supervisor_initialization lib True None (\<lambda>f. None) False [] True initial_globals = ((s, 0), [])"
    by (simp add: supervisor_initialization_def case_prod_unfold Let_def)
  have "modules_part p1 = reload_node lib running s"
    using assms s
    by (auto simp: transapi_init_def netconf_supervisor_initialization_def supervisor_initialization_def case_prod_unfold Let_def
        split: option.splits if_splits)
  moreover have step: "supervisor_run J calloc_ok sock_path lib (reload_node lib n t) 256 []"
    if "supervisor_run J calloc_ok sock_path lib t 256 []" for n t
    unfolding reload_node_def using that by (rule run_callback)
  have "supervisor_run J calloc_ok sock_path lib s 256 []" by (rule run_start[OF s])
  then have "supervisor_run J calloc_ok sock_path lib (reload_node lib node (reload_node lib running s)) 256 []" by (intro step)
  ultimately show ?thesis by (simp add: callback_nemea_nemea_supervisor_def)
qed

lemma step_ok_extends:
  "signals_ok [] tr \<Longrightarrow> step_ok tr (s', es) \<Longrightarrow> service_inv (tr @ es) s' \<and> signals_ok [] (tr @ es)"
  by (simp add: step_ok_def signals_ok_append)

lemma reload_no_kill: "no_kill (snd (reload_configuration lib choice backup parse generated gener_file node s))"
  by (auto simp: reload_configuration_def load_document_def no_kill_def case_prod_unfold Let_def split: option.split reload_choice.split)

lemma reload_step_ok:
  assumes "service_inv tr s"
  shows "step_ok tr (fst (fst (reload_configuration lib RELOAD_DEFAULT_CONFIG_FILE backup parse generated gener_file node s)),
    snd (reload_configuration lib RELOAD_DEFAULT_CONFIG_FILE backup parse generated gener_file node s))"
proof -
  have "service_inv tr (fst (fst (reload_configuration lib RELOAD_DEFAULT_CONFIG_FILE backup parse generated gener_file node s)))"
    using assms by (intro reload_service_inv) simp_all
  then show ?thesis
    using no_kill_signals_ok[OF reload_no_kill] by (auto simp: step_ok_def service_inv_def intro: sent_inv_mono)
qed

lemma supervisor_run_inv:
  "supervisor_run J calloc_ok sock_path lib s bs tr \<Longrightarrow> service_inv tr s \<and> signals_ok [] tr"
proof (induction rule: supervisor_run.induct)
  case (run_start netconf backup parse generated gener_file s es)
  have "no_kill es"
    using run_start reload_no_kill[of lib RELOAD_INIT_LOAD_CONFIG backup parse generated gener_file None
        "check_running_modules_allocated_memory (initial_globals\<lparr>running_modules_array_size := 0\<rparr>)"]
    by (auto simp: supervisor_initialization_def case_prod_unfold Let_def no_kill_def split: if_splits)
  with service_inv_initial[of es lib netconf backup parse generated gener_file True] run_start no_kill_signals_ok show ?case by simp
next
  case (run_period s bs tr env s' es bs')
  then show ?case using period_done_ok[of env tr s J calloc_ok sock_path bs s' es bs'] by (simp add: signals_ok_append)
next
  case (run_choice s bs tr backup parse generated gener_file kill0 choice input s' es)
  then show ?case using choice_step_ok[OF _ reload_step_ok run_choice.hyps(2)] step_ok_extends by blast
next
  case (run_callback s bs tr parse generated gener_file node)
  then show ?case using reload_service_inv[of tr s RELOAD_CALLBACK_ROOT_ELEM] by simp
next
  case (run_terminate s bs tr stop_all)
  then show ?case using service_inv_terminate by blast
next
  case (run_exit s bs tr env s' es)
  then show ?case using thread_exit_ok[OF _ run_exit.hyps(2)] step_ok_extends by blast
qed

text \<open>
  C1. In every run, whatever documents are loaded, whatever the user types and whatever the modules and
  the operating system answer: the state satisfies the invariant of the service thread, every signal was
  sent to a process group, and every \<open>SIGKILL\<close> was preceded by a \<open>SIGINT\<close> to the same group.
\<close>

theorem supervisor_run_safe:
  assumes "supervisor_run J calloc_ok sock_path lib s bs tr"
  shows "service_inv tr s \<and> signals_ok [] tr"
  using assms by (rule supervisor_run_inv)

theorem supervisor_run_safe_witness:
  "service_inv [] (request_termination True (fst (fst (supervisor_initialization doc_lib False None (\<lambda>f. Some (Some sample_doc)) True ''g'' True
     initial_globals)))) \<and> signals_ok [] []"
proof (rule supervisor_run_safe, rule run_terminate, rule run_start)
  show "supervisor_initialization doc_lib False None (\<lambda>f. Some (Some sample_doc)) True ''g'' True initial_globals =
    ((fst (fst (supervisor_initialization doc_lib False None (\<lambda>f. Some (Some sample_doc)) True ''g'' True initial_globals)), 0), [])"
    by (simp add: supervisor_initialization_def reload_configuration_def load_document_def parse_default_def case_prod_unfold Let_def)
qed

section \<open>The daemon\<close>

text \<open>What a step of a client thread does to the modules is nothing or one choice of the menu.\<close>

lemma client_step_managed:
  assumes "client_step a t d = Ret (d', t')"
  shows "managed d' = managed d \<and> events d' = events d \<or>
    (\<exists>choice input r. interactive_choice (op_reload a) (op_kill0 a) choice input (managed d) = Ret r \<and>
       managed d' = fst r \<and> events d' = events d @ snd r)"
proof (cases "snd t")
  case (Option_Loop n)
  with assms show ?thesis
    by (auto simp: client_step_def serve_request_def Let_def split: if_splits select_ret.splits c_ret.splits)
next
  case Reloading
  then have "managed d' = fst (fst (op_reload a (managed d)))" "events d' = events d @ snd (op_reload a (managed d))"
    using assms by (auto simp: client_step_def case_prod_unfold Let_def)
  moreover have "interactive_choice (op_reload a) (op_kill0 a) 7 None (managed d) =
      Ret (fst (fst (op_reload a (managed d))), snd (op_reload a (managed d)))" by (simp add: interactive_choice_def)
  ultimately show ?thesis by (metis fst_conv snd_conv)
qed (use assms in \<open>auto simp: client_step_def case_prod_unfold Let_def split: if_splits c_ret.splits\<close>)

lemma server_step_managed: "managed (server_step a d) = managed d" "events (server_step a d) = events d"
  by (simp_all add: server_step_def Let_def split: server_pc.split select_ret.split)

lemma daemon_step_run:
  assumes "daemon_step lib d d'" "supervisor_run J calloc_ok sock_path lib (managed d) bs (events d)"
  shows "supervisor_run J calloc_ok sock_path lib (managed d') bs (events d')"
  using assms(1)
proof (cases rule: daemon_step.cases)
  case (by_server a)
  with assms(2) show ?thesis by (simp add: server_step_managed)
next
  case (by_client i a d1 t backup parse generated gener_file)
  from client_step_managed[OF by_client(3)] show ?thesis
    using assms(2) by_client(1,4) run_choice[OF assms(2)] by auto
next
  case (by_signal stop_all)
  with run_terminate[OF assms(2)] show ?thesis by simp
qed



end
